(* ===== verification/Py_Prelude.thy ===== *)
theory Py_Prelude
  imports Main "HOL-Library.AList" "HOL-Library.Multiset" "HOL-Library.Product_Lexorder"
begin

text \<open>
  Shared vocabulary of the development.  A Python method that mutates its object and
  may raise is a function from the state to an outcome (an exception or a value)
  paired with the state it leaves behind.  The state is returned on the exceptional
  path too, because Python does not undo the writes made before a \<open>raise\<close>: that a
  failing call leaves its object as it was is a theorem here (see \<open>atomic\<close>), never a
  convention.  Python dictionaries are association lists: \<open>AList.update\<close> overwrites in
  place or appends at the end and \<open>AList.delete\<close> removes, which is exactly the
  insertion-ordered behaviour of \<open>dict\<close>.
\<close>

section \<open>Exceptions and outcomes\<close>

datatype pyerror =
    ValueError | KeyError | IndexError | RuntimeError | MemoryError | ZeroDivisionError
  | AssertionError | TypeError
  | InvalidHandleError | InvalidStateTransitionError | InvariantViolationError
  | SequenceCapacityError | SequenceBusyError | TransactionClosedError
  | IllegalTransition | UnknownRequest | LedgerDrift | ArenaExhausted | ConfigError

type_synonym ('s, 'a) py = "'s \<Rightarrow> (pyerror + 'a) \<times> 's"

definition ret :: "'a \<Rightarrow> ('s, 'a) py" where
  "ret x = (\<lambda>s. (Inr x, s))"

definition raise :: "pyerror \<Rightarrow> ('s, 'a) py" where
  "raise e = (\<lambda>s. (Inl e, s))"

text \<open>A read that may raise and writes nothing; a write that cannot raise.\<close>

definition reads :: "('s \<Rightarrow> pyerror + 'a) \<Rightarrow> ('s, 'a) py" where
  "reads f = (\<lambda>s. (f s, s))"

definition modify :: "('s \<Rightarrow> 's) \<Rightarrow> ('s, unit) py" where
  "modify f = (\<lambda>s. (Inr (), f s))"

definition andthen :: "('s, 'a) py \<Rightarrow> ('a \<Rightarrow> ('s, 'b) py) \<Rightarrow> ('s, 'b) py" where
  "andthen m f = (\<lambda>s. case m s of (Inl e, s') \<Rightarrow> (Inl e, s') | (Inr x, s') \<Rightarrow> f x s')"

text \<open>The same sequencing for reads, where no state is threaded.\<close>

definition ebind :: "pyerror + 'a \<Rightarrow> ('a \<Rightarrow> pyerror + 'b) \<Rightarrow> pyerror + 'b" where
  "ebind r f = (case r of Inl e \<Rightarrow> Inl e | Inr x \<Rightarrow> f x)"

definition require :: "bool \<Rightarrow> pyerror \<Rightarrow> pyerror + unit" where
  "require c e = (if c then Inr () else Inl e)"

text \<open>The characters \<open>str.strip\<close> removes, among the 8-bit characters.\<close>

definition is_space :: "char \<Rightarrow> bool" where
  "is_space c \<longleftrightarrow> of_char c \<in> set [9, 10, 11, 12, 13, 28, 29, 30, 31, 32, 133, 160 :: nat]"

text \<open>The validators of \<open>utils/validation.py\<close>; the type tests are discharged by typing.\<close>

definition require_text :: "string \<Rightarrow> pyerror + unit" where
  "require_text s = require (\<not> list_all is_space s) ValueError"

definition require_int :: "int \<Rightarrow> int \<Rightarrow> pyerror + unit" where
  "require_int v least = require (least \<le> v) ValueError"

text \<open>\<open>[f(x) for x in xs]\<close> where \<open>f\<close> may raise: the first exception wins.\<close>

fun traverse :: "('a \<Rightarrow> pyerror + 'b) \<Rightarrow> 'a list \<Rightarrow> pyerror + 'b list" where
  "traverse f [] = Inr []"
| "traverse f (x # xs) =
     (case f x of
        Inl e \<Rightarrow> Inl e
      | Inr y \<Rightarrow> (case traverse f xs of Inl e \<Rightarrow> Inl e | Inr ys \<Rightarrow> Inr (y # ys)))"

text \<open>\<open>for x in xs: f(x)\<close> over a mutable state: an exception stops the loop where it is.\<close>

fun for_each :: "('a \<Rightarrow> ('s, unit) py) \<Rightarrow> 'a list \<Rightarrow> ('s, unit) py" where
  "for_each f [] s = (Inr (), s)"
| "for_each f (x # xs) s =
     (case f x s of (Inl e, s') \<Rightarrow> (Inl e, s') | (Inr _, s') \<Rightarrow> for_each f xs s')"

text \<open>A call whose result is not used.\<close>

definition discard :: "('s, 'a) py \<Rightarrow> ('s, unit) py" where
  "discard m = andthen m (\<lambda>_. ret ())"

text \<open>A caller that issues operations one after the other and survives their exceptions.\<close>

primrec run_ops :: "('op \<Rightarrow> ('s, 'r) py) \<Rightarrow> 'op list \<Rightarrow> 's \<Rightarrow> 's" where
  "run_ops exec [] s = s"
| "run_ops exec (x # xs) s = run_ops exec xs (snd (exec x s))"

primrec legal_run :: "('op \<Rightarrow> ('s, 'r) py) \<Rightarrow> ('op \<Rightarrow> 's \<Rightarrow> bool) \<Rightarrow> 'op list \<Rightarrow> 's \<Rightarrow> bool" where
  "legal_run exec legal [] s = True"
| "legal_run exec legal (x # xs) s = (legal x s \<and> legal_run exec legal xs (snd (exec x s)))"

text \<open>What an operation may do to the state.\<close>

definition keeps :: "('s \<Rightarrow> bool) \<Rightarrow> ('s, 'a) py \<Rightarrow> bool" where
  "keeps I m \<longleftrightarrow> (\<forall>s. I s \<longrightarrow> I (snd (m s)))"

definition read_only :: "('s, 'a) py \<Rightarrow> bool" where
  "read_only m \<longleftrightarrow> (\<forall>s. snd (m s) = s)"

definition atomic :: "('s, 'a) py \<Rightarrow> bool" where
  "atomic m \<longleftrightarrow> (\<forall>s e. fst (m s) = Inl e \<longrightarrow> snd (m s) = s)"

named_theorems py_defs "the outcome combinators, unfolded"
named_theorems effect_intros "introduction rules for keeps, read_only and atomic"

lemmas [py_defs] = ret_def raise_def reads_def modify_def andthen_def ebind_def require_def

section \<open>Rules for the combinators\<close>

lemma ebind_Inr [simp]: "ebind (Inr x) f = f x"
  and ebind_Inl [simp]: "ebind (Inl e) f = Inl e"
  by (simp_all add: ebind_def)

lemma ebind_Inr_iff: "ebind r f = Inr y \<longleftrightarrow> (\<exists>x. r = Inr x \<and> f x = Inr y)"
  by (cases r) simp_all

lemma require_Inr [simp]: "require c e = Inr u \<longleftrightarrow> c"
  and require_Inl [simp]: "require c e = Inl d \<longleftrightarrow> \<not> c \<and> d = e"
  by (auto simp: require_def)

lemma andthen_Inr:
  "andthen m f s = (Inr y, t) \<longleftrightarrow> (\<exists>x u. m s = (Inr x, u) \<and> f x u = (Inr y, t))"
  by (auto simp: andthen_def split: prod.splits sum.splits)

lemma andthen_Inl:
  "andthen m f s = (Inl e, t) \<longleftrightarrow>
     m s = (Inl e, t) \<or> (\<exists>x u. m s = (Inr x, u) \<and> f x u = (Inl e, t))"
  by (auto simp: andthen_def split: prod.splits sum.splits)

lemma reads_simps [simp]: "reads f s = (f s, s)"
  by (simp add: reads_def)

lemma modify_simps [simp]: "modify f s = (Inr (), f s)"
  by (simp add: modify_def)

lemma ret_simps [simp]: "ret x s = (Inr x, s)"
  by (simp add: ret_def)

lemma raise_simps [simp]: "raise e s = (Inl e, s)"
  by (simp add: raise_def)

lemma snd_discard [simp]: "snd (discard m s) = snd (m s)"
  by (auto simp: discard_def andthen_def split: prod.splits sum.splits)

lemma fst_discard: "fst (discard m s) = Inl e \<longleftrightarrow> fst (m s) = Inl e"
  by (auto simp: discard_def andthen_def split: prod.splits sum.splits)

lemma keepsI: "(\<And>s. I s \<Longrightarrow> I (snd (m s))) \<Longrightarrow> keeps I m"
  by (simp add: keeps_def)

lemma keepsD: "keeps I m \<Longrightarrow> I s \<Longrightarrow> I (snd (m s))"
  by (simp add: keeps_def)

lemma keeps_andthen [effect_intros]:
  "keeps I m \<Longrightarrow> (\<And>x. keeps I (f x)) \<Longrightarrow> keeps I (andthen m f)"
  by (auto simp: keeps_def andthen_def split: prod.splits sum.splits)

lemma read_only_keeps [effect_intros]: "read_only m \<Longrightarrow> keeps I m"
  by (simp add: keeps_def read_only_def)

lemma read_only_base [effect_intros]:
  "read_only (ret x)" "read_only (raise e)" "read_only (reads f)"
  by (simp_all add: read_only_def)

lemma atomic_read_only [effect_intros]: "read_only m \<Longrightarrow> atomic m"
  by (simp add: atomic_def read_only_def)

lemma atomic_modify [effect_intros]: "atomic (modify f)"
  by (simp add: atomic_def)

lemma atomic_andthen [effect_intros]:
  "read_only m \<Longrightarrow> (\<And>x. atomic (f x)) \<Longrightarrow> atomic (andthen m f)"
  by (auto simp: atomic_def read_only_def andthen_def split: prod.splits sum.splits)
     (metis snd_conv)+

lemma atomic_if [effect_intros]: "atomic m \<Longrightarrow> atomic n \<Longrightarrow> atomic (if c then m else n)"
  by simp

lemma atomicD: "atomic m \<Longrightarrow> m s = (Inl e, t) \<Longrightarrow> t = s"
  by (metis atomic_def fst_conv snd_conv)

lemma traverse_Inr_iff:
  "traverse f xs = Inr ys \<longleftrightarrow> list_all2 (\<lambda>x y. f x = Inr y) xs ys"
proof (induction xs arbitrary: ys)
  case Nil
  then show ?case by auto
next
  case (Cons x xs)
  show ?case
  proof (cases "traverse f xs")
    case (Inl e)
    with Cons.IH have "\<not> list_all2 (\<lambda>x y. f x = Inr y) xs zs" for zs
      by (metis sum.distinct(1))
    with Inl show ?thesis by (auto simp: list_all2_Cons1 split: sum.splits)
  next
    case (Inr zs)
    with Cons.IH have "list_all2 (\<lambda>x y. f x = Inr y) xs ys' \<longleftrightarrow> ys' = zs" for ys'
      by (metis sum.inject(2))
    with Inr show ?thesis by (auto simp: list_all2_Cons1 split: sum.splits)
  qed
qed

lemma traverse_Inr_length: "traverse f xs = Inr ys \<Longrightarrow> length ys = length xs"
  by (auto simp: traverse_Inr_iff dest: list_all2_lengthD)

lemma traverse_Inr_mem: "traverse f xs = Inr ys \<Longrightarrow> x \<in> set xs \<Longrightarrow> \<exists>y. f x = Inr y"
  by (fastforce simp: traverse_Inr_iff list_all2_conv_all_nth in_set_conv_nth)

lemma traverse_total: "(\<And>x. x \<in> set xs \<Longrightarrow> \<exists>y. f x = Inr y) \<Longrightarrow> \<exists>ys. traverse f xs = Inr ys"
proof (induction xs)
  case Nil
  then show ?case by simp
next
  case (Cons x xs)
  then obtain y ys where "f x = Inr y" "traverse f xs = Inr ys"
    by (metis list.set_intros)
  then show ?case by simp
qed

lemma traverse_raises:
  assumes "\<And>x e. f x = Inl e \<Longrightarrow> e = err" "x \<in> set xs" "f x = Inl err"
  shows "traverse f xs = Inl err"
  using assms(2)
proof (induction xs)
  case (Cons y ys)
  show ?case
  proof (cases "f y")
    case (Inl e)
    with assms(1) show ?thesis by simp
  next
    case (Inr z)
    with Cons assms(3) show ?thesis by auto
  qed
qed simp

lemma run_ops_append: "run_ops f (xs @ ys) s = run_ops f ys (run_ops f xs s)"
  by (induction xs arbitrary: s) simp_all

lemma legal_run_append: "legal_run f l (xs @ ys) s \<longleftrightarrow> legal_run f l xs s \<and> legal_run f l ys (run_ops f xs s)"
  by (induction xs arbitrary: s) simp_all

lemma legal_run_always: "legal_run f (\<lambda>_ _. True) xs s"
  by (induction xs arbitrary: s) simp_all

section \<open>Interfaces shared by the components\<close>

text \<open>
  A component whose public operations are legal under a caller obligation and keep the
  component's invariant.
\<close>

locale guarded_system =
  fixes exec :: "'op \<Rightarrow> ('s, 'r) py"
    and legal :: "'op \<Rightarrow> 's \<Rightarrow> bool"
    and inv :: "'s \<Rightarrow> bool"
  assumes exec_inv: "inv s \<Longrightarrow> legal x s \<Longrightarrow> inv (snd (exec x s))"
begin

lemma run_inv: "inv s \<Longrightarrow> legal_run exec legal xs s \<Longrightarrow> inv (run_ops exec xs s)"
  by (induction xs arbitrary: s) (auto intro: exec_inv)

end

text \<open>
  A table of recycled slots guarded by generation numbers, as the page allocator, the
  sequence arena and the prefix store keep one: a slot that comes back to life does so
  under a strictly larger generation.
\<close>

locale generation_table =
  fixes gen :: "'s \<Rightarrow> 'i \<Rightarrow> 'g :: linorder"
    and live :: "'s \<Rightarrow> 'i \<Rightarrow> bool"
    and resolves :: "'s \<Rightarrow> 'i \<Rightarrow> 'g \<Rightarrow> bool"
    and step :: "'s \<Rightarrow> 's \<Rightarrow> bool"
    and ok :: "'s \<Rightarrow> bool"
  assumes resolves_iff: "ok s \<Longrightarrow> resolves s i g \<longleftrightarrow> live s i \<and> gen s i = g"
    and ok_step: "ok s \<Longrightarrow> step s t \<Longrightarrow> ok t"
    and gen_mono: "ok s \<Longrightarrow> step s t \<Longrightarrow> gen s i \<le> gen t i"
    and revive: "ok s \<Longrightarrow> step s t \<Longrightarrow> \<not> live s i \<Longrightarrow> live t i \<Longrightarrow> gen s i < gen t i"
begin

lemma stale_forever:
  assumes "step\<^sup>*\<^sup>* s t" "ok s" "g \<le> gen s i" "\<not> resolves s i g"
  shows "\<not> resolves t i g"
proof -
  have "ok t \<and> g \<le> gen t i \<and> \<not> (live t i \<and> gen t i = g)"
    using assms
  proof (induction rule: rtranclp_induct)
    case base
    then show ?case by (simp add: resolves_iff)
  next
    case (step u v)
    then have u: "ok u" "g \<le> gen u i" "\<not> (live u i \<and> gen u i = g)" by auto
    with step.hyps(2) have v: "ok v" "gen u i \<le> gen v i"
      by (auto intro: ok_step gen_mono)
    have "\<not> (live v i \<and> gen v i = g)"
      using u v revive [OF u(1) step.hyps(2), of i] by force
    with u v show ?case by auto
  qed
  then show ?thesis by (simp add: resolves_iff)
qed

end

section \<open>Lists and dictionaries\<close>

lemma fold_fixpoint: "(\<And>x s. x \<in> set xs \<Longrightarrow> p (f x s) = p s) \<Longrightarrow> p (fold f xs s) = p s"
  by (induction xs arbitrary: s) auto

lemma fold_invariant: "(\<And>x s. x \<in> set xs \<Longrightarrow> P s \<Longrightarrow> P (f x s)) \<Longrightarrow> P s \<Longrightarrow> P (fold f xs s)"
  by (induction xs arbitrary: s) auto

text \<open>The sum over the values of a dictionary, as \<open>sum(f(v) for v in d.values())\<close>.\<close>

definition dsum :: "('v \<Rightarrow> int) \<Rightarrow> ('k \<times> 'v) list \<Rightarrow> int" where
  "dsum f d = (\<Sum>(k, v) \<leftarrow> d. f v)"

lemma dsum_simps [simp]:
  "dsum f [] = 0" "dsum f ((k, v) # d) = f v + dsum f d" "dsum f (d @ d') = dsum f d + dsum f d'"
  by (simp_all add: dsum_def)

lemma dsum_nonneg: "(\<And>k v. (k, v) \<in> set d \<Longrightarrow> 0 \<le> f v) \<Longrightarrow> 0 \<le> dsum f d"
  by (induction d) force+

lemma dsum_delete:
  "distinct (map fst d) \<Longrightarrow>
   dsum f (AList.delete k d) = dsum f d - (case map_of d k of None \<Rightarrow> 0 | Some v \<Rightarrow> f v)"
proof (induction d)
  case Nil
  then show ?case by simp
next
  case (Cons p d)
  obtain k' v' where p: "p = (k', v')" by force
  show ?case
  proof (cases "k' = k")
    case True
    with Cons.prems p have "k \<notin> fst ` set d" by auto
    then have "AList.delete k d = d" and "map_of d k = None"
      by (auto simp: delete_idem map_of_eq_None_iff)
    with True p show ?thesis by simp
  next
    case False
    with Cons p show ?thesis by simp
  qed
qed

lemma dsum_update:
  "distinct (map fst d) \<Longrightarrow>
   dsum f (AList.update k v d) =
     dsum f d + f v - (case map_of d k of None \<Rightarrow> 0 | Some w \<Rightarrow> f w)"
proof (induction d)
  case Nil
  then show ?case by simp
next
  case (Cons p d)
  obtain k' v' where "p = (k', v')" by force
  with Cons show ?case by auto
qed

lemma int_le_div_iff: "0 < b \<Longrightarrow> q \<le> a div b \<longleftrightarrow> q * b \<le> (a::int)"
proof
  assume b: "0 < b"
  have split: "a = b * (a div b) + a mod b" by simp
  have m: "0 \<le> a mod b" "a mod b < b" using b by simp_all
  { assume "q \<le> a div b"
    with b have "b * q \<le> b * (a div b)" by simp
    moreover have "q * b = b * q" by simp
    ultimately show "q * b \<le> a" using split m by linarith }
  { assume "q * b \<le> a"
    moreover have "q * b = b * q" "b * (a div b + 1) = b * (a div b) + b" by (simp_all add: algebra_simps)
    ultimately have "b * q < b * (a div b + 1)" using split m by linarith
    with b show "q \<le> a div b" by simp }
qed

lemma int_ceil_le_iff: "0 < b \<Longrightarrow> (a + b - 1) div b \<le> q \<longleftrightarrow> (a::int) \<le> q * b"
  using int_le_div_iff [of b "q + 1" "a + b - 1"] by (simp add: algebra_simps) linarith

lemma map_of_in_set: "map_of d k = Some v \<Longrightarrow> (k, v) \<in> set d"
  by (rule map_of_SomeD)

end
