(* ===== verification/Byte_Regions.thy ===== *)
theory Byte_Regions
  imports Py_Prelude
begin

text \<open>
  Alignment arithmetic (\<open>utils/math_utils.py\<close>), owned byte ranges
  (\<open>memory/region.py\<close>), and the two allocators that carve an already allocated range
  (\<open>memory/arena.py\<close>): the bump \<open>Arena\<close>, freed all at once, and the strided
  \<open>SlabAllocator\<close>.  Python integers are \<open>int\<close>; \<open>//\<close> and \<open>%\<close> by a positive number are
  \<open>div\<close> and \<open>mod\<close>.  The \<open>isinstance\<close> tests of the source are discharged by typing.
\<close>

unbundle bit_operations_syntax

section \<open>Alignment arithmetic\<close>

definition div_ceil :: "int \<Rightarrow> int \<Rightarrow> pyerror + int" where
  "div_ceil a b = (if b \<le> 0 then Inl ValueError else Inr (- ((- a) div b)))"

fun bit_length :: "nat \<Rightarrow> nat" where
  "bit_length n = (if n = 0 then 0 else Suc (bit_length (n div 2)))"

declare bit_length.simps [simp del]

definition next_power_of_2 :: "int \<Rightarrow> pyerror + int" where
  "next_power_of_2 num =
     (if num < 0 then Inl ValueError
      else if num \<le> 1 then Inr num
      else Inr (push_bit (bit_length (nat (num - 1))) 1))"

definition align_up :: "int \<Rightarrow> int \<Rightarrow> pyerror + int" where
  "align_up value alignment =
     (if alignment \<le> 0 then Inl ValueError
      else if value < 0 then Inl ValueError
      else Inr (((value + alignment - 1) div alignment) * alignment))"

definition align_down :: "int \<Rightarrow> int \<Rightarrow> pyerror + int" where
  "align_down value alignment =
     (if alignment \<le> 0 then Inl ValueError
      else if value < 0 then Inl ValueError
      else Inr (value - value mod alignment))"

text \<open>\<open>(-base_ptr) % alignment\<close>; a zero alignment raises, as \<open>%\<close> does.\<close>

definition first_aligned_offset :: "int \<Rightarrow> int \<Rightarrow> pyerror + int" where
  "first_aligned_offset base_ptr alignment =
     (if alignment = 0 then Inl ZeroDivisionError else Inr ((- base_ptr) mod alignment))"

section \<open>Tiers, owners and regions\<close>

datatype MemoryTier =
  REGISTER | SHARED | L2 | DEVICE | HOST_PINNED | HOST_PAGEABLE | DISK | REMOTE

datatype MemoryOwner = WEIGHT | ACTIVATION | KV | COMM | COMPILE | WORKSPACE

fun tier_value :: "MemoryTier \<Rightarrow> int" where
  "tier_value REGISTER = 0"
| "tier_value SHARED = 1"
| "tier_value L2 = 2"
| "tier_value DEVICE = 3"
| "tier_value HOST_PINNED = 4"
| "tier_value HOST_PAGEABLE = 5"
| "tier_value DISK = 6"
| "tier_value REMOTE = 7"

definition allocatable :: "MemoryTier \<Rightarrow> bool" where
  "allocatable t \<longleftrightarrow> tier_value DEVICE \<le> tier_value t \<and> tier_value t \<le> tier_value DISK"

record MemoryRegion =
  region_id :: int
  base_ptr :: int
  nbytes :: int
  region_tier :: MemoryTier
  region_owner :: MemoryOwner
  region_device :: int
  alignment :: int
  backed :: bool
  class_bytes :: int

text \<open>The constructor: \<open>__post_init__\<close> runs on every construction, \<open>slice\<close> included.\<close>

definition mk_region :: "MemoryRegion \<Rightarrow> pyerror + MemoryRegion" where
  "mk_region r =
     (if nbytes r \<le> 0 then Inl ValueError
      else if backed r \<and> alignment r = 0 then Inl ZeroDivisionError
      else if backed r \<and> base_ptr r mod alignment r \<noteq> 0 then Inl ValueError
      else if class_bytes r < 0 then Inl ValueError
      else if class_bytes r \<noteq> 0 \<and> class_bytes r < nbytes r then Inl ValueError
      else Inr r)"

definition slack_bytes :: "MemoryRegion \<Rightarrow> int" where
  "slack_bytes r = max (class_bytes r - nbytes r) 0"

definition end_ptr :: "MemoryRegion \<Rightarrow> int" where
  "end_ptr r = base_ptr r + nbytes r"

definition region_contains :: "MemoryRegion \<Rightarrow> int \<Rightarrow> int \<Rightarrow> bool" where
  "region_contains r ptr n \<longleftrightarrow> base_ptr r \<le> ptr \<and> ptr + n \<le> end_ptr r"

definition region_slice :: "MemoryRegion \<Rightarrow> int \<Rightarrow> int \<Rightarrow> pyerror + MemoryRegion" where
  "region_slice r off n =
     (if off < 0 \<or> off + n > nbytes r then Inl ValueError
      else mk_region (r\<lparr>base_ptr := base_ptr r + off, nbytes := n, alignment := 1\<rparr>))"

section \<open>The bump arena\<close>

record Arena =
  arena_region :: MemoryRegion
  arena_offset :: int
  arena_requested :: int
  arena_high_water :: int
  arena_num_allocs :: int
  arena_num_resets :: int
  arena_generation :: int

definition Arena_init :: "MemoryRegion \<Rightarrow> pyerror + Arena" where
  "Arena_init r =
     (if \<not> backed r then Inl ValueError
      else Inr \<lparr>arena_region = r, arena_offset = 0, arena_requested = 0, arena_high_water = 0,
                arena_num_allocs = 0, arena_num_resets = 0, arena_generation = 1\<rparr>)"

definition arena_allocate :: "int \<Rightarrow> int \<Rightarrow> (Arena, MemoryRegion) py" where
  "arena_allocate n align a =
     (if n \<le> 0 then (Inl ValueError, a)
      else if align AND (align - 1) \<noteq> 0 then (Inl ValueError, a)
      else case first_aligned_offset (base_ptr (arena_region a) + arena_offset a) align of
        Inl e \<Rightarrow> (Inl e, a)
      | Inr padding \<Rightarrow>
          let start = arena_offset a + padding in
          if start + n > nbytes (arena_region a) then (Inl ArenaExhausted, a)
          else (region_slice (arena_region a) start n,
                a\<lparr>arena_offset := start + n,
                  arena_requested := arena_requested a + n,
                  arena_high_water := max (arena_high_water a) (start + n),
                  arena_num_allocs := arena_num_allocs a + 1\<rparr>))"

definition arena_reset :: "(Arena, unit) py" where
  "arena_reset =
     modify (\<lambda>a. a\<lparr>arena_offset := 0, arena_requested := 0,
                   arena_generation := arena_generation a + 1, arena_num_resets := arena_num_resets a + 1\<rparr>)"

text \<open>
  A client of the arena, which keeps what it was handed since the last reset: the size and
  the alignment it asked for, and the range it got.  A call that raises hands out nothing.
\<close>

datatype arena_op = ArenaAllocate int int | ArenaReset

fun arena_exec :: "arena_op \<Rightarrow> (Arena \<times> (int \<times> int \<times> MemoryRegion) list, unit) py" where
  "arena_exec (ArenaAllocate n align) (a, live) =
     (case arena_allocate n align a of
        (Inl e, a') \<Rightarrow> (Inl e, a', live)
      | (Inr r, a') \<Rightarrow> (Inr (), a', live @ [(n, align, r)]))"
| "arena_exec ArenaReset (a, live) = (fst (arena_reset a), snd (arena_reset a), [])"

section \<open>The slab allocator\<close>

record Slab =
  slab_region :: MemoryRegion
  object_bytes :: int
  stride :: int
  slab_capacity :: int
  slab_free :: "int list"
  slab_live :: "int set"

definition Slab_init :: "MemoryRegion \<Rightarrow> int \<Rightarrow> int \<Rightarrow> pyerror + Slab" where
  "Slab_init r obytes align =
     (if obytes \<le> 0 then Inl ValueError
      else if align AND (align - 1) \<noteq> 0 then Inl ValueError
      else if align = 0 then Inl ZeroDivisionError
      else if base_ptr r mod align \<noteq> 0 then Inl ValueError
      else case align_up obytes align of
        Inl e \<Rightarrow> Inl e
      | Inr st \<Rightarrow>
          let cap = nbytes r div st in
          if cap = 0 then Inl ValueError
          else Inr \<lparr>slab_region = r, object_bytes = obytes, stride = st, slab_capacity = cap,
                    slab_free = rev [0..cap - 1], slab_live = {}\<rparr>)"

text \<open>\<open>list.pop()\<close> takes the last element.\<close>

definition slab_allocate :: "(Slab, int \<times> MemoryRegion) py" where
  "slab_allocate s =
     (if slab_free s = [] then (Inl MemoryError, s)
      else let index = last (slab_free s);
               s' = s\<lparr>slab_free := butlast (slab_free s), slab_live := insert index (slab_live s)\<rparr>
           in (case region_slice (slab_region s) (index * stride s) (object_bytes s) of
                 Inl e \<Rightarrow> (Inl e, s')
               | Inr r \<Rightarrow> (Inr (index, r), s')))"

definition slab_release :: "int \<Rightarrow> (Slab, unit) py" where
  "slab_release index s =
     (if index \<notin> slab_live s then (Inl RuntimeError, s)
      else (Inr (), s\<lparr>slab_live := slab_live s - {index}, slab_free := slab_free s @ [index]\<rparr>))"

definition address_of :: "Slab \<Rightarrow> int \<Rightarrow> pyerror + int" where
  "address_of s index =
     (if \<not> (0 \<le> index \<and> index < slab_capacity s) then Inl IndexError
      else Inr (base_ptr (slab_region s) + index * stride s))"

datatype slab_op = SlabAllocate | SlabFree int

fun slab_exec :: "slab_op \<Rightarrow> (Slab, unit) py" where
  "slab_exec SlabAllocate s = (case slab_allocate s of (Inl e, s') \<Rightarrow> (Inl e, s') | (Inr _, s') \<Rightarrow> (Inr (), s'))"
| "slab_exec (SlabFree i) s = slab_release i s"

section \<open>Invariants\<close>

definition region_ok :: "MemoryRegion \<Rightarrow> bool" where
  "region_ok r \<longleftrightarrow> mk_region r = Inr r"

definition arena_inv :: "Arena \<Rightarrow> bool" where
  "arena_inv a \<longleftrightarrow>
     region_ok (arena_region a) \<and> backed (arena_region a) \<and>
     0 \<le> arena_requested a \<and> arena_requested a \<le> arena_offset a \<and>
     arena_offset a \<le> arena_high_water a \<and> arena_high_water a \<le> nbytes (arena_region a)"

definition slab_inv :: "Slab \<Rightarrow> bool" where
  "slab_inv s \<longleftrightarrow>
     region_ok (slab_region s) \<and>
     0 < object_bytes s \<and> object_bytes s \<le> stride s \<and>
     slab_capacity s * stride s \<le> nbytes (slab_region s) \<and>
     distinct (slab_free s) \<and> set (slab_free s) \<inter> slab_live s = {} \<and>
     set (slab_free s) \<union> slab_live s = {0..<slab_capacity s}"

definition disjoint_regions :: "MemoryRegion \<Rightarrow> MemoryRegion \<Rightarrow> bool" where
  "disjoint_regions r q \<longleftrightarrow> end_ptr r \<le> base_ptr q \<or> end_ptr q \<le> base_ptr r"

section \<open>Lemmas on the arithmetic\<close>

lemma power_of_two_guard: "al AND (al - 1) = (0::int) \<Longrightarrow> al \<noteq> 0 \<Longrightarrow> 0 < al"
  using and_negative_int_iff [of al "al - 1"] by linarith

lemma aligned_after_padding: "(b + (- b) mod al) mod al = (0::int)"
  by (simp add: mod_add_right_eq)

lemma div_ceil_spec:
  assumes "0 < b"
  obtains q where "div_ceil a b = Inr q" "a \<le> q * b" "(q - 1) * b < a"
proof
  have "b * ((- a) div b) + (- a) mod b = - a" by (rule mult_div_mod_eq)
  moreover have "0 \<le> (- a) mod b" "(- a) mod b < b" using assms by simp_all
  moreover have "- ((- a) div b) * b = - (b * ((- a) div b))"
    "(- ((- a) div b) - 1) * b = - (b * ((- a) div b)) - b"
    by (simp_all only: mult.commute [of b] left_diff_distrib mult_1 mult_minus_left)
  ultimately show "a \<le> - ((- a) div b) * b" "(- ((- a) div b) - 1) * b < a"
    by linarith+
qed (use assms in \<open>simp add: div_ceil_def\<close>)

lemma align_down_spec:
  assumes "0 < al" "0 \<le> v"
  shows "align_down v al = Inr (al * (v div al))"
  using assms by (simp add: align_down_def minus_mod_eq_mult_div)

lemma align_up_spec:
  assumes "0 < al" "0 \<le> v"
  shows "align_up v al = Inr (al * ((v + al - 1) div al))"
  using assms by (simp add: align_up_def)

lemma align_up_le_iff:
  assumes "0 < (al::int)"
  shows "al * ((v + al - 1) div al) \<le> w \<longleftrightarrow> v \<le> al * (w div al)"
  using assms int_le_div_iff [of al "(v + al - 1) div al" w] int_ceil_le_iff [of al v "w div al"]
  by (simp add: mult.commute)

lemma mk_region_Inr: "mk_region r = Inr q \<Longrightarrow> q = r \<and> region_ok r"
  by (auto simp: mk_region_def region_ok_def split: if_splits)

lemma region_ok_pos: "region_ok r \<Longrightarrow> 0 < nbytes r"
  by (auto simp: mk_region_def region_ok_def split: if_splits)

lemma region_slice_ok:
  assumes "region_ok r" "0 \<le> off" "0 < n" "off + n \<le> nbytes r"
  shows "region_slice r off n = Inr (r\<lparr>base_ptr := base_ptr r + off, nbytes := n, alignment := 1\<rparr>)"
  using assms by (auto simp: region_slice_def mk_region_def region_ok_def split: if_splits)

section \<open>The arena\<close>

text \<open>One successful allocation: where the new range lies and what the arena becomes.\<close>

lemma arena_allocate_Inr:
  assumes "arena_inv a" "arena_allocate n al a = (Inr r, a')"
  shows "arena_inv a'" "0 < al" "base_ptr r mod al = 0" "nbytes r = n" "0 < n"
    "arena_region a' = arena_region a"
    "base_ptr (arena_region a) + arena_offset a \<le> base_ptr r"
    "end_ptr r = base_ptr (arena_region a) + arena_offset a'"
proof -
  let ?b = "base_ptr (arena_region a) + arena_offset a"
  from assms(2) have al: "al \<noteq> 0" "al AND (al - 1) = 0" and n: "0 < n"
    and fit: "arena_offset a + (- ?b) mod al + n \<le> nbytes (arena_region a)"
    by (auto simp: arena_allocate_def first_aligned_offset_def Let_def split: if_splits sum.splits)
  from al show al0: "0 < al" by (intro power_of_two_guard)
  then have pad: "0 \<le> (- ?b) mod al" by simp
  have inv: "region_ok (arena_region a)" "0 \<le> arena_offset a"
    using assms(1) by (auto simp: arena_inv_def)
  let ?off = "arena_offset a + (- ?b) mod al"
  have slice: "region_slice (arena_region a) ?off n =
      Inr ((arena_region a)\<lparr>base_ptr := base_ptr (arena_region a) + ?off, nbytes := n, alignment := 1\<rparr>)"
    using inv pad n fit by (intro region_slice_ok) auto
  then have r: "r = (arena_region a)\<lparr>base_ptr := base_ptr (arena_region a) + ?off, nbytes := n, alignment := 1\<rparr>"
    and a': "a' = a\<lparr>arena_offset := ?off + n, arena_requested := arena_requested a + n,
        arena_high_water := max (arena_high_water a) (?off + n), arena_num_allocs := arena_num_allocs a + 1\<rparr>"
    using assms(2) al n fit
    by (auto simp: arena_allocate_def first_aligned_offset_def Let_def split: if_splits)
  show "arena_inv a'" using assms(1) fit pad n by (auto simp: a' arena_inv_def)
  show "base_ptr r mod al = 0"
    using aligned_after_padding [of ?b al] by (simp add: r add.assoc)
  show "nbytes r = n" "0 < n" "arena_region a' = arena_region a" "?b \<le> base_ptr r"
    "end_ptr r = base_ptr (arena_region a) + arena_offset a'"
    using n pad by (simp_all add: r a' end_ptr_def)
qed

text \<open>An allocation that raises leaves the arena as it was.\<close>

lemma arena_allocate_Inl:
  assumes "arena_inv a" "arena_allocate n al a = (Inl e, a')"
  shows "a' = a"
proof (rule ccontr)
  let ?b = "base_ptr (arena_region a) + arena_offset a"
  let ?off = "arena_offset a + (- ?b) mod al"
  assume "a' \<noteq> a"
  with assms(2) have al: "al \<noteq> 0" "al AND (al - 1) = 0" and n: "0 < n"
    and fit: "?off + n \<le> nbytes (arena_region a)" and res: "region_slice (arena_region a) ?off n = Inl e"
    by (auto simp: arena_allocate_def first_aligned_offset_def Let_def split: if_splits sum.splits)
  from al have "0 < al" by (intro power_of_two_guard)
  then have "0 \<le> ?off" using assms(1) by (simp add: arena_inv_def)
  with assms(1) n fit region_slice_ok [of "arena_region a" ?off n] res show False by (simp add: arena_inv_def)
qed

text \<open>What the client holds lies below the bump offset, in the order of the calls.\<close>

definition arena_client_inv :: "MemoryRegion \<Rightarrow> Arena \<times> (int \<times> int \<times> MemoryRegion) list \<Rightarrow> bool" where
  "arena_client_inv r = (\<lambda>(a, live).
     arena_inv a \<and> arena_region a = r \<and> arena_generation a = arena_num_resets a + 1 \<and>
     arena_requested a = (\<Sum>(n, al, q)\<leftarrow>live. n) \<and>
     (\<forall>(n, al, q)\<in>set live. nbytes q = n \<and> 0 < n \<and> 0 < al \<and> base_ptr q mod al = 0 \<and>
        base_ptr r \<le> base_ptr q \<and> end_ptr q \<le> base_ptr r + arena_offset a) \<and>
     sorted_wrt (\<lambda>x y. end_ptr (snd (snd x)) \<le> base_ptr (snd (snd y))) live)"

lemma arena_allocate_counts:
  assumes "arena_allocate n al a = (Inr r, a')"
  shows "arena_generation a' = arena_generation a" "arena_num_resets a' = arena_num_resets a"
    "arena_requested a' = arena_requested a + n"
  using assms by (auto simp: arena_allocate_def Let_def split: if_splits sum.splits)

lemma arena_exec_inv:
  assumes "arena_client_inv r s"
  shows "arena_client_inv r (snd (arena_exec x s))"
proof -
  obtain a live where s: "s = (a, live)" by force
  have inv: "arena_inv a" using assms by (simp add: s arena_client_inv_def)
  show ?thesis
  proof (cases x)
    case (ArenaAllocate n al)
    show ?thesis
    proof (cases "arena_allocate n al a")
      case (Pair res a')
      show ?thesis
      proof (cases res)
        case (Inl e)
        with Pair arena_allocate_Inl [OF inv Pair [unfolded Inl]] assms show ?thesis by (simp add: s ArenaAllocate)
      next
        case (Inr q)
        note run = Pair [unfolded Inr]
        note one = arena_allocate_Inr [OF inv run] and counts = arena_allocate_counts [OF run]
        have "arena_offset a \<le> arena_offset a'" "base_ptr (arena_region a) \<le> base_ptr q"
          using one(4,5,7,8) inv by (simp_all add: end_ptr_def arena_inv_def)
        with assms one counts run show ?thesis
          by (auto simp: s ArenaAllocate arena_client_inv_def sorted_wrt_append dest: order_trans)
      qed
    qed
  next
    case ArenaReset
    with assms show ?thesis
      by (auto simp: s arena_client_inv_def arena_inv_def arena_reset_def)
  qed
qed

interpretation arena: guarded_system arena_exec "\<lambda>_ _. True" "arena_client_inv r" for r
  by unfold_locales (rule arena_exec_inv)

lemma Arena_init_inv: "region_ok r \<Longrightarrow> Arena_init r = Inr a \<Longrightarrow> arena_client_inv r (a, [])"
  by (auto simp: Arena_init_def arena_client_inv_def arena_inv_def split: if_splits dest: region_ok_pos)

section \<open>The slab\<close>

lemma slab_allocate_cases:
  assumes "slab_inv s"
  shows "slab_free s = [] \<and> slab_allocate s = (Inl MemoryError, s) \<or>
    (\<exists>i. slab_free s = butlast (slab_free s) @ [i] \<and> 0 \<le> i \<and> i < slab_capacity s \<and> i \<notin> slab_live s \<and>
       slab_allocate s =
         (Inr (i, (slab_region s)\<lparr>base_ptr := base_ptr (slab_region s) + i * stride s,
                                   nbytes := object_bytes s, alignment := 1\<rparr>),
          s\<lparr>slab_free := butlast (slab_free s), slab_live := insert i (slab_live s)\<rparr>))"
proof (cases "slab_free s = []")
  case True
  then show ?thesis by (simp add: slab_allocate_def)
next
  case False
  define i where "i = last (slab_free s)"
  have free: "slab_free s = butlast (slab_free s) @ [i]" using False by (simp add: i_def)
  have "i \<in> set (slab_free s)" using False by (simp add: i_def)
  with assms have i: "0 \<le> i" "i < slab_capacity s" "i \<notin> slab_live s"
    by (auto simp: slab_inv_def)
  have st: "0 < object_bytes s" "object_bytes s \<le> stride s"
    "slab_capacity s * stride s \<le> nbytes (slab_region s)" "region_ok (slab_region s)"
    using assms by (auto simp: slab_inv_def)
  have "(i + 1) * stride s \<le> slab_capacity s * stride s"
    using i st by (intro mult_right_mono) auto
  then have "i * stride s + object_bytes s \<le> nbytes (slab_region s)" "0 \<le> i * stride s"
    using st i by (auto simp: algebra_simps)
  then have "region_slice (slab_region s) (i * stride s) (object_bytes s) =
      Inr ((slab_region s)\<lparr>base_ptr := base_ptr (slab_region s) + i * stride s,
                            nbytes := object_bytes s, alignment := 1\<rparr>)"
    using st by (intro region_slice_ok) auto
  then have "slab_allocate s =
         (Inr (i, (slab_region s)\<lparr>base_ptr := base_ptr (slab_region s) + i * stride s,
                                   nbytes := object_bytes s, alignment := 1\<rparr>),
          s\<lparr>slab_free := butlast (slab_free s), slab_live := insert i (slab_live s)\<rparr>)"
    using False by (simp add: slab_allocate_def Let_def i_def)
  with i free show ?thesis by blast
qed

lemma slab_exec_inv: "slab_inv s \<Longrightarrow> slab_inv (snd (slab_exec x s))"
proof (cases x)
  case SlabAllocate
  assume inv: "slab_inv s"
  from slab_allocate_cases [OF inv] show ?thesis
  proof (elim disjE exE conjE)
    fix i assume free: "slab_free s = butlast (slab_free s) @ [i]"
      and res: "slab_allocate s = (Inr (i, (slab_region s)\<lparr>base_ptr := base_ptr (slab_region s) + i * stride s,
                                   nbytes := object_bytes s, alignment := 1\<rparr>),
          s\<lparr>slab_free := butlast (slab_free s), slab_live := insert i (slab_live s)\<rparr>)"
    have "distinct (butlast (slab_free s) @ [i])" "set (butlast (slab_free s) @ [i]) \<inter> slab_live s = {}"
      "set (butlast (slab_free s) @ [i]) \<union> slab_live s = {0..<slab_capacity s}"
      using inv free by (simp_all add: slab_inv_def)
    with inv show ?thesis by (auto simp: SlabAllocate res slab_inv_def)
  qed (use inv SlabAllocate in simp)
next
  case (SlabFree i)
  assume "slab_inv s"
  then show ?thesis by (auto simp: SlabFree slab_release_def slab_inv_def)
qed

interpretation slab: guarded_system slab_exec "\<lambda>_ _. True" slab_inv
  by unfold_locales (rule slab_exec_inv)

lemma Slab_init_inv: "region_ok r \<Longrightarrow> Slab_init r ob al = Inr s \<Longrightarrow> slab_inv s"
proof -
  assume r: "region_ok r" and s: "Slab_init r ob al = Inr s"
  then have ob: "0 < ob" and al: "0 < al"
    by (auto simp: Slab_init_def split: if_splits intro: power_of_two_guard)
  define st where "st = al * ((ob + al - 1) div al)"
  have st: "ob \<le> st" using align_up_le_iff [of al ob st] al by (auto simp: st_def)
  have up: "align_up ob al = Inr st" using ob al by (simp add: align_up_spec st_def)
  have cap: "nbytes r div st \<noteq> 0" and s': "s = \<lparr>slab_region = r, object_bytes = ob, stride = st,
      slab_capacity = nbytes r div st, slab_free = rev [0..nbytes r div st - 1], slab_live = {}\<rparr>"
    using s by (auto simp: Slab_init_def up Let_def split: if_splits)
  have "nbytes r div st * st \<le> nbytes r"
    using st ob int_le_div_iff [of st "nbytes r div st" "nbytes r"] by simp
  with r ob st show "slab_inv s"
    by (auto simp: s' slab_inv_def)
qed

section \<open>Properties\<close>

text \<open>
  \<open>align_up\<close> is the least multiple of the alignment that is at least the value,
  \<open>align_down\<close> the greatest one that is at most the value, and \<open>div_ceil\<close> the smallest
  quotient whose product reaches the dividend.
\<close>

lemma alignment_least_multiple:
  assumes "0 < al" "0 \<le> v"
  shows "\<exists>u d q. align_up v al = Inr u \<and> align_down v al = Inr d \<and> div_ceil v al = Inr q \<and>
    al dvd u \<and> v \<le> u \<and> (\<forall>w. al dvd w \<and> v \<le> w \<longrightarrow> u \<le> w) \<and>
    al dvd d \<and> d \<le> v \<and> (\<forall>w. al dvd w \<and> w \<le> v \<longrightarrow> w \<le> d) \<and>
    (\<forall>p. v \<le> p * al \<longleftrightarrow> q \<le> p)"
proof -
  let ?u = "al * ((v + al - 1) div al)" and ?d = "al * (v div al)"
  have up: "?u \<le> w \<longleftrightarrow> v \<le> al * (w div al)" for w by (rule align_up_le_iff [OF assms(1)])
  have u1: "v \<le> ?u" using up [of ?u] assms(1) by simp
  have u2: "?u \<le> w" if "al dvd w \<and> v \<le> w" for w using that up [of w] by simp
  have d1: "?d \<le> v" using int_le_div_iff [of al "v div al" v] assms(1) by (simp add: mult.commute)
  have d2: "w \<le> ?d" if "al dvd w \<and> w \<le> v" for w
  proof -
    from that obtain k where k: "w = k * al" "k * al \<le> v" by (metis dvd_def mult.commute)
    then have "k \<le> v div al" using assms(1) by (simp add: int_le_div_iff)
    with assms(1) k show ?thesis by (simp add: mult.commute)
  qed
  obtain q where q: "div_ceil v al = Inr q" "v \<le> q * al" "(q - 1) * al < v"
    by (rule div_ceil_spec [OF assms(1)])
  have q': "v \<le> p * al \<longleftrightarrow> q \<le> p" for p
  proof
    assume "v \<le> p * al"
    with q(3) have "(q - 1) * al < p * al" by simp
    with assms(1) show "q \<le> p" by simp
  next
    assume "q \<le> p"
    with assms(1) have "q * al \<le> p * al" by simp
    with q(2) show "v \<le> p * al" by simp
  qed
  show ?thesis
    by (intro exI conjI allI impI)
       (rule align_up_spec [OF assms] align_down_spec [OF assms] q(1) dvd_triv_left u1 u2 d1 d2 q' | assumption)+
qed

text \<open>
  C13. The bump arena between resets.  After any sequence of allocations (some of which may
  raise) and resets, every range handed out since the last reset has the requested size and
  alignment and lies inside the arena's region, and no two of them overlap.  The bytes
  requested are the sum of their sizes and at most the bytes in use, which never exceed the
  high-water mark, nor that the capacity; and the generation counts the resets.
\<close>

theorem arena_allocations_disjoint:
  assumes "region_ok r" "Arena_init r = Inr a0" "run_ops arena_exec ops (a0, []) = (a, live)"
  shows "(\<forall>(n, al, q)\<in>set live. nbytes q = n \<and> base_ptr q mod al = 0 \<and> region_contains r (base_ptr q) (nbytes q)) \<and>
    (\<forall>i j. i < j \<and> j < length live \<longrightarrow> disjoint_regions (snd (snd (live ! i))) (snd (snd (live ! j)))) \<and>
    arena_requested a = (\<Sum>(n, al, q)\<leftarrow>live. n) \<and> arena_requested a \<le> arena_offset a \<and>
    arena_offset a \<le> arena_high_water a \<and> arena_high_water a \<le> nbytes r \<and>
    arena_generation a = arena_num_resets a + 1"
proof -
  have "arena_client_inv r (run_ops arena_exec ops (a0, []))"
    by (rule arena.run_inv [OF Arena_init_inv [OF assms(1,2)] legal_run_always])
  then have I: "arena_inv a" "arena_region a = r" "arena_generation a = arena_num_resets a + 1"
    "arena_requested a = (\<Sum>(n, al, q)\<leftarrow>live. n)"
    and each: "\<forall>(n, al, q)\<in>set live. nbytes q = n \<and> 0 < n \<and> 0 < al \<and> base_ptr q mod al = 0 \<and>
        base_ptr r \<le> base_ptr q \<and> end_ptr q \<le> base_ptr r + arena_offset a"
    and order: "sorted_wrt (\<lambda>x y. end_ptr (snd (snd x)) \<le> base_ptr (snd (snd y))) live"
    unfolding assms(3) by (simp_all add: arena_client_inv_def)
  have hw: "arena_requested a \<le> arena_offset a" "arena_offset a \<le> arena_high_water a" "arena_high_water a \<le> nbytes r"
    using I(1,2) by (auto simp: arena_inv_def)
  have "\<forall>(n, al, q)\<in>set live. nbytes q = n \<and> base_ptr q mod al = 0 \<and> region_contains r (base_ptr q) (nbytes q)"
    using each hw by (fastforce simp: region_contains_def end_ptr_def)
  moreover have "\<forall>i j. i < j \<and> j < length live \<longrightarrow> disjoint_regions (snd (snd (live ! i))) (snd (snd (live ! j)))"
    using order by (auto simp: disjoint_regions_def sorted_wrt_iff_nth_less)
  ultimately show ?thesis using I(3,4) hw by simp
qed

definition sample_region :: MemoryRegion where
  "sample_region = \<lparr>region_id = 1, base_ptr = 4096, nbytes = 4096, region_tier = DEVICE,
     region_owner = WORKSPACE, region_device = 0, alignment = 256, backed = True, class_bytes = 0\<rparr>"

definition sample_arena_ops :: "arena_op list" where
  "sample_arena_ops =
     [ArenaAllocate 100 256, ArenaAllocate 9000 64, ArenaReset, ArenaAllocate 7 64, ArenaAllocate 1000 512, ArenaAllocate 5 3]"

theorem arena_allocations_disjoint_witness:
  "\<exists>a0 a live. Arena_init sample_region = Inr a0 \<and> run_ops arena_exec sample_arena_ops (a0, []) = (a, live) \<and>
     map fst live = [7, 1000] \<and> arena_num_resets a = 1 \<and>
     disjoint_regions (snd (snd (live ! 0))) (snd (snd (live ! 1)))"
proof -
  have ok: "region_ok sample_region" by code_simp
  have "\<exists>a0 a live. Arena_init sample_region = Inr a0 \<and> run_ops arena_exec sample_arena_ops (a0, []) = (a, live) \<and>
     map fst live = [7, 1000] \<and> arena_num_resets a = 1"
    by (simp add: sample_arena_ops_def sample_region_def Arena_init_def arena_allocate_def first_aligned_offset_def
        region_slice_def mk_region_def Let_def arena_reset_def)
  then obtain a0 a live where run: "Arena_init sample_region = Inr a0"
     "run_ops arena_exec sample_arena_ops (a0, []) = (a, live)" "map fst live = [7, 1000]" "arena_num_resets a = 1"
    by (elim exE conjE)
  have "length live = 2" using arg_cong [OF run(3), of length] by simp
  with arena_allocations_disjoint [OF ok run(1,2)] have "disjoint_regions (snd (snd (live ! 0))) (snd (snd (live ! 1)))"
    by simp
  with run show ?thesis by (intro exI [of _ a0] exI [of _ a] exI [of _ live] conjI)
qed

text \<open>
  C14. After any sequence of slab allocations and frees (double frees included, which
  raise), the slots are split between free and live, \<open>address_of\<close> places every two live
  objects in non-overlapping byte ranges inside the slab's region, and the next
  \<open>allocate\<close> either raises because every slot is live or returns a slot that is not.
\<close>

theorem slab_objects_disjoint:
  assumes r: "region_ok r" "Slab_init r ob al = Inr s0" and s: "s = run_ops slab_exec ops s0"
  shows "set (slab_free s) \<union> slab_live s = {0..<slab_capacity s} \<and> set (slab_free s) \<inter> slab_live s = {} \<and>
    (\<forall>i\<in>slab_live s. \<exists>p. address_of s i = Inr p \<and> region_contains (slab_region s) p (object_bytes s)) \<and>
    (\<forall>i\<in>slab_live s. \<forall>j\<in>slab_live s. \<forall>p q. i < j \<and> address_of s i = Inr p \<and> address_of s j = Inr q
        \<longrightarrow> p + object_bytes s \<le> q) \<and>
    (case slab_allocate s of
       (Inl e, _) \<Rightarrow> e = MemoryError \<and> slab_live s = {0..<slab_capacity s}
     | (Inr (i, q), s') \<Rightarrow> i \<notin> slab_live s \<and> address_of s i = Inr (base_ptr q) \<and> i \<in> slab_live s')"
proof -
  have inv: "slab_inv s" unfolding s by (rule slab.run_inv [OF Slab_init_inv [OF r] legal_run_always])
  then have st: "0 < object_bytes s" "object_bytes s \<le> stride s" "0 < stride s"
    "slab_capacity s * stride s \<le> nbytes (slab_region s)"
    and parts: "set (slab_free s) \<union> slab_live s = {0..<slab_capacity s}" "set (slab_free s) \<inter> slab_live s = {}"
    by (auto simp: slab_inv_def)
  have gap: "i * stride s + object_bytes s \<le> j * stride s" if "i < j" for i j
  proof -
    have "(i + 1) * stride s \<le> j * stride s" using that st by (intro mult_right_mono) auto
    with st show ?thesis by (simp add: algebra_simps)
  qed
  have live: "0 \<le> i \<and> i < slab_capacity s" if "i \<in> slab_live s" for i
    using that parts(1) by auto
  have inside: "region_contains (slab_region s) (base_ptr (slab_region s) + i * stride s) (object_bytes s)"
    if "i \<in> slab_live s" for i
    using live [OF that] gap [of i "slab_capacity s"] st by (auto simp: region_contains_def end_ptr_def)
  have "case slab_allocate s of
       (Inl e, _) \<Rightarrow> e = MemoryError \<and> slab_live s = {0..<slab_capacity s}
     | (Inr (i, q), s') \<Rightarrow> i \<notin> slab_live s \<and> address_of s i = Inr (base_ptr q) \<and> i \<in> slab_live s'"
    using slab_allocate_cases [OF inv] parts(1) by (elim disjE exE conjE) (simp_all add: address_of_def)
  moreover have "\<forall>i\<in>slab_live s. \<exists>p. address_of s i = Inr p \<and> region_contains (slab_region s) p (object_bytes s)"
    using inside live by (simp add: address_of_def)
  moreover have "\<forall>i\<in>slab_live s. \<forall>j\<in>slab_live s. \<forall>p q. i < j \<and> address_of s i = Inr p \<and> address_of s j = Inr q
        \<longrightarrow> p + object_bytes s \<le> q"
    using gap by (auto simp: address_of_def add.assoc split: if_splits)
  ultimately show ?thesis using parts by blast
qed

theorem slab_objects_disjoint_witness:
  "\<exists>s0 s. Slab_init sample_region 100 64 = Inr s0 \<and>
     s = run_ops slab_exec [SlabAllocate, SlabAllocate, SlabFree 0, SlabFree 0, SlabAllocate] s0 \<and>
     set (slab_free s) \<inter> slab_live s = {}"
proof -
  have ok: "region_ok sample_region" by code_simp
  have "\<exists>s0. Slab_init sample_region 100 64 = Inr s0"
    by (simp add: sample_region_def Slab_init_def align_up_def Let_def)
  then obtain s0 where init: "Slab_init sample_region 100 64 = Inr s0" ..
  note run = slab_objects_disjoint
    [OF ok init refl, of "[SlabAllocate, SlabAllocate, SlabFree 0, SlabFree 0, SlabAllocate]"]
  from init run [THEN conjunct2, THEN conjunct1] show ?thesis by blast
qed

end
