(* ===== verification/Page_Allocator.thy ===== *)
theory Page_Allocator
  imports Byte_Regions
begin

text \<open>
  The fixed-size KV page allocator: \<open>handles.py\<close> (\<open>KVPageHandle\<close>),
  \<open>memory/state.py\<close> (\<open>PageAllocationState\<close>), \<open>memory/metadata.py\<close> (\<open>PageMetadata\<close>)
  and \<open>memory/allocator.py\<close> (\<open>PageAllocator\<close>, every public operation).

  The list \<open>self._pages\<close> of mutable metadata objects is a list of records addressed by
  index; a Python reference to one of its elements is that index, so two handles of the
  same page alias here as they do in the code.  The index of a handle and a page
  generation are naturals (the handle constructor rejects negative ones); counters and
  epochs are \<open>int\<close>, so that "never negative" is something to prove.  \<open>heapq\<close> on a list
  is a list kept in lexicographic order: the code only reads its least element, pops it,
  pushes, and iterates over it without using the order.  The allocator's lock makes each
  public call one step.
\<close>

section \<open>Page metadata\<close>

datatype PageAllocationState = FREE | RESERVED | LIVE | RECLAIM_PENDING | PERMANENT

datatype PageResidency = DEVICE_RESIDENT | HOST_RESIDENT | UNMAPPED

record KVPageHandle =
  index :: nat
  handle_generation :: nat

definition MAX_HANDLE_GENERATION :: nat where
  "MAX_HANDLE_GENERATION = 2 ^ 63 - 1"

definition mk_handle :: "nat \<Rightarrow> nat \<Rightarrow> KVPageHandle" where
  "mk_handle i g = \<lparr>index = i, handle_generation = g\<rparr>"

text \<open>
  The validation of a handle's constructor.  The two places where the allocator makes a
  handle use \<open>mk_handle\<close>, because there it cannot fail: the slot has just started a
  generation between 1 and the maximum (\<open>new_generation_valid\<close> below).
\<close>

definition validate_index_generation :: "int \<Rightarrow> int \<Rightarrow> pyerror + unit" where
  "validate_index_generation i g =
     (if i < 0 then Inl ValueError
      else if g \<le> 0 then Inl ValueError
      else if g > int MAX_HANDLE_GENERATION then Inl ValueError
      else Inr ())"

definition KVPageHandle_init :: "int \<Rightarrow> int \<Rightarrow> pyerror + KVPageHandle" where
  "KVPageHandle_init i g = ebind (validate_index_generation i g) (\<lambda>_. Inr (mk_handle (nat i) (nat g)))"

record PageMetadata =
  generation :: nat
  physical_id :: nat
  allocation_state :: PageAllocationState
  residency :: PageResidency
  request_refs :: int
  cache_refs :: int
  reservation_refs :: int
  inflight_refs :: int
  pin_refs :: int
  valid_tokens :: int
  last_access_epoch :: int
  pending_free_epoch :: "int option"

definition is_pinned :: "PageMetadata \<Rightarrow> bool" where
  "is_pinned m \<longleftrightarrow> pin_refs m > 0"

definition is_evictable :: "PageMetadata \<Rightarrow> bool" where
  "is_evictable m \<longleftrightarrow>
     allocation_state m = LIVE \<and> \<not> is_pinned m \<and> request_refs m = 0 \<and>
     reservation_refs m = 0 \<and> cache_refs m > 0"

definition can_mutate :: "PageMetadata \<Rightarrow> bool" where
  "can_mutate m \<longleftrightarrow>
     request_refs m = 1 \<and> cache_refs m = 0 \<and> reservation_refs m \<le> 1 \<and> \<not> is_pinned m"

definition ownership_refs :: "PageMetadata \<Rightarrow> int" where
  "ownership_refs m = request_refs m + cache_refs m + reservation_refs m + pin_refs m"

definition total_refs :: "PageMetadata \<Rightarrow> int" where
  "total_refs m = ownership_refs m + inflight_refs m"

definition is_shared :: "PageMetadata \<Rightarrow> bool" where
  "is_shared m \<longleftrightarrow> request_refs m + cache_refs m > 1"

definition pin :: "PageMetadata \<Rightarrow> PageMetadata" where
  "pin m = m\<lparr>pin_refs := pin_refs m + 1\<rparr>"

definition unpin :: "PageMetadata \<Rightarrow> pyerror + PageMetadata" where
  "unpin m = (if pin_refs m \<le> 0 then Inl ValueError else Inr (m\<lparr>pin_refs := pin_refs m - 1\<rparr>))"

section \<open>The allocator's state\<close>

record PageAllocator =
  total_pages :: nat
  page_size :: int
  pages :: "PageMetadata list"
  ready_free :: "nat list"
  reclaim_heap :: "(int \<times> nat \<times> nat) list"
  current_epoch :: int
  reclaimed_pages_total :: int

definition fresh_page :: "nat \<Rightarrow> PageMetadata" where
  "fresh_page i =
     \<lparr>generation = 0, physical_id = i, allocation_state = FREE, residency = DEVICE_RESIDENT,
      request_refs = 0, cache_refs = 0, reservation_refs = 0, inflight_refs = 0, pin_refs = 0,
      valid_tokens = 0, last_access_epoch = 0, pending_free_epoch = None\<rparr>"

definition PageAllocator_init :: "int \<Rightarrow> int \<Rightarrow> pyerror + PageAllocator" where
  "PageAllocator_init n psize =
     (if n \<le> 0 then Inl ValueError
      else if psize \<le> 0 then Inl ValueError
      else Inr \<lparr>total_pages = nat n, page_size = psize,
                pages = map fresh_page [0..<nat n], ready_free = [0..<nat n],
                reclaim_heap = [], current_epoch = 0, reclaimed_pages_total = 0\<rparr>)"

text \<open>\<open>meta.<field> = ...\<close> on the object at index \<open>i\<close>.\<close>

definition upd_page :: "nat \<Rightarrow> (PageMetadata \<Rightarrow> PageMetadata) \<Rightarrow> PageAllocator \<Rightarrow> PageAllocator" where
  "upd_page i f a = a\<lparr>pages := (pages a)[i := f (pages a ! i)]\<rparr>"

text \<open>\<open>_get_meta\<close> and its two refinements return a reference: the page's index.\<close>

definition get_meta :: "PageAllocator \<Rightarrow> KVPageHandle \<Rightarrow> pyerror + nat" where
  "get_meta a h =
     (if \<not> index h < total_pages a then Inl InvalidHandleError
      else let m = pages a ! index h in
           if generation m \<noteq> handle_generation h \<or> allocation_state m = FREE
           then Inl InvalidHandleError
           else Inr (index h))"

definition require_state :: "PageAllocator \<Rightarrow> PageAllocationState \<Rightarrow> KVPageHandle \<Rightarrow> pyerror + nat" where
  "require_state a expected h =
     ebind (get_meta a h) (\<lambda>i.
       if allocation_state (pages a ! i) \<noteq> expected then Inl InvalidStateTransitionError else Inr i)"

definition require_live_or_reserved :: "PageAllocator \<Rightarrow> KVPageHandle \<Rightarrow> pyerror + nat" where
  "require_live_or_reserved a h =
     ebind (get_meta a h) (\<lambda>i.
       if allocation_state (pages a ! i) = RESERVED \<or> allocation_state (pages a ! i) = LIVE
       then Inr i else Inl InvalidStateTransitionError)"

text \<open>\<open>_validate_epoch\<close>.\<close>

definition validate_epoch :: "int \<Rightarrow> pyerror + unit" where
  "validate_epoch e = require (0 \<le> e) ValueError"

definition reset_for_new_generation :: "nat \<Rightarrow> (PageAllocator, unit) py" where
  "reset_for_new_generation i a =
     (if allocation_state (pages a ! i) \<noteq> FREE then (Inl InvariantViolationError, a)
      else if generation (pages a ! i) \<ge> MAX_HANDLE_GENERATION then (Inl InvariantViolationError, a)
      else (Inr (), upd_page i (\<lambda>m. m\<lparr>generation := generation m + 1,
              request_refs := 0, cache_refs := 0, reservation_refs := 0, inflight_refs := 0,
              pin_refs := 0, valid_tokens := 0, pending_free_epoch := None,
              last_access_epoch := current_epoch a\<rparr>) a))"

definition make_free :: "nat \<Rightarrow> (PageAllocator, unit) py" where
  "make_free i a =
     (let m = pages a ! i in
      if allocation_state m = FREE then (Inl InvariantViolationError, a)
      else if total_refs m \<noteq> 0 then (Inl InvariantViolationError, a)
      else (Inr (), (upd_page i (\<lambda>m. m\<lparr>allocation_state := FREE, valid_tokens := 0,
              pending_free_epoch := None, last_access_epoch := current_epoch a\<rparr>) a)
              \<lparr>ready_free := ready_free a @ [physical_id m]\<rparr>))"

text \<open>\<open>previous or safe_epoch\<close>: both \<open>None\<close> and \<open>0\<close> are falsy.\<close>

definition required_epoch :: "int option \<Rightarrow> int \<Rightarrow> int" where
  "required_epoch previous safe =
     max (case previous of None \<Rightarrow> safe | Some p \<Rightarrow> if p = 0 then safe else p) safe"

definition mark_for_reclaim_if_unowned :: "int \<Rightarrow> nat \<Rightarrow> PageAllocator \<Rightarrow> PageAllocator" where
  "mark_for_reclaim_if_unowned safe i a =
     (if ownership_refs (pages a ! i) \<noteq> 0 then a
      else let e = required_epoch (pending_free_epoch (pages a ! i)) safe;
               a1 = upd_page i (\<lambda>m. m\<lparr>pending_free_epoch := Some e\<rparr>) a
           in if inflight_refs (pages a ! i) \<noteq> 0 then a1
              else (upd_page i (\<lambda>m. m\<lparr>allocation_state := RECLAIM_PENDING\<rparr>) a1)
                     \<lparr>reclaim_heap := insort (e, physical_id (pages a ! i), generation (pages a ! i))
                                            (reclaim_heap a)\<rparr>)"

text \<open>
  The \<open>while\<close> loop of \<open>_reclaim_completed_locked\<close>.  Nothing is pushed while it runs, so
  it is a recursion on the heap; \<open>n\<close> is the local \<open>reclaimed\<close>.
\<close>

fun reclaim_loop :: "int \<Rightarrow> (int \<times> nat \<times> nat) list \<Rightarrow> int \<Rightarrow> (PageAllocator, int) py" where
  "reclaim_loop completed [] n a = (Inr n, a\<lparr>reclaim_heap := []\<rparr>)"
| "reclaim_loop completed ((epoch, i, g) # heap) n a =
     (if epoch > completed then (Inr n, a\<lparr>reclaim_heap := (epoch, i, g) # heap\<rparr>)
      else let m = pages a ! i; a0 = a\<lparr>reclaim_heap := heap\<rparr> in
        if generation m \<noteq> g then reclaim_loop completed heap n a0
        else if allocation_state m \<noteq> RECLAIM_PENDING then reclaim_loop completed heap n a0
        else if pending_free_epoch m \<noteq> Some epoch then reclaim_loop completed heap n a0
        else if total_refs m \<noteq> 0 then (Inl InvariantViolationError, a0)
        else (case make_free i a0 of
                (Inl e, a1) \<Rightarrow> (Inl e, a1)
              | (Inr _, a1) \<Rightarrow>
                  reclaim_loop completed heap (n + 1)
                    (a1\<lparr>reclaimed_pages_total := reclaimed_pages_total a1 + 1\<rparr>)))"

definition reclaim_completed_locked :: "int \<Rightarrow> (PageAllocator, int) py" where
  "reclaim_completed_locked completed a = reclaim_loop completed (reclaim_heap a) 0 a"

text \<open>\<open>tuple(dict.fromkeys(pages))\<close>: first occurrences, in order.\<close>

fun unique_pages :: "KVPageHandle list \<Rightarrow> KVPageHandle list" where
  "unique_pages [] = []"
| "unique_pages (h # hs) = h # unique_pages (filter (\<lambda>h'. h' \<noteq> h) hs)"

section \<open>Public operations\<close>

definition reserve_permanent_page :: "(PageAllocator, KVPageHandle) py" where
  "reserve_permanent_page a =
     (case ready_free a of
        [] \<Rightarrow> (Inl InvalidStateTransitionError, a)
      | i # rest \<Rightarrow>
          andthen (reset_for_new_generation i) (\<lambda>_ a1.
            let a2 = upd_page i (\<lambda>m. m\<lparr>allocation_state := PERMANENT, valid_tokens := page_size a1\<rparr>) a1
            in (Inr (mk_handle i (generation (pages a2 ! i))), a2))
          (a\<lparr>ready_free := rest\<rparr>))"

text \<open>The loop of \<open>allocate\<close> over the indices already popped from the free queue.\<close>

fun allocate_loop :: "nat list \<Rightarrow> (PageAllocator, KVPageHandle list) py" where
  "allocate_loop [] a = (Inr [], a)"
| "allocate_loop (i # is) a =
     (case reset_for_new_generation i a of
        (Inl e, a1) \<Rightarrow> (Inl e, a1)
      | (Inr _, a1) \<Rightarrow>
          let a2 = upd_page i (\<lambda>m. m\<lparr>allocation_state := RESERVED, reservation_refs := 1\<rparr>) a1 in
          (case allocate_loop is a2 of
             (Inl e, a3) \<Rightarrow> (Inl e, a3)
           | (Inr hs, a3) \<Rightarrow> (Inr (mk_handle i (generation (pages a2 ! i)) # hs), a3)))"

definition allocate :: "int \<Rightarrow> (PageAllocator, KVPageHandle list option) py" where
  "allocate num_pages a =
     (if num_pages < 0 then (Inl ValueError, a)
      else if num_pages = 0 then (Inr (Some []), a)
      else andthen (reclaim_completed_locked (current_epoch a)) (\<lambda>_ a1.
             if int (length (ready_free a1)) < num_pages then (Inr None, a1)
             else andthen (allocate_loop (take (nat num_pages) (ready_free a1)))
                    (\<lambda>hs a2. (Inr (Some hs), a2))
                    (a1\<lparr>ready_free := drop (nat num_pages) (ready_free a1)\<rparr>)) a)"

definition commit_one :: "nat \<Rightarrow> PageAllocator \<Rightarrow> PageAllocator" where
  "commit_one i = upd_page i (\<lambda>m. m\<lparr>reservation_refs := 0,
      request_refs := request_refs m + 1, allocation_state := LIVE\<rparr>)"

definition commit_reserved :: "KVPageHandle list \<Rightarrow> (PageAllocator, unit) py" where
  "commit_reserved hs a =
     (case traverse (require_state a RESERVED) hs of
        Inl e \<Rightarrow> (Inl e, a)
      | Inr is \<Rightarrow>
          if \<exists>i\<in>set is. reservation_refs (pages a ! i) \<noteq> 1 then (Inl InvariantViolationError, a)
          else (Inr (), fold commit_one is a))"

fun check_rollback :: "PageAllocator \<Rightarrow> nat list \<Rightarrow> pyerror + unit" where
  "check_rollback a [] = Inr ()"
| "check_rollback a (i # is) =
     (if inflight_refs (pages a ! i) \<noteq> 0 then Inl InvalidStateTransitionError
      else if reservation_refs (pages a ! i) \<noteq> 1 then Inl InvariantViolationError
      else check_rollback a is)"

definition validate_rollback_reserved :: "PageAllocator \<Rightarrow> KVPageHandle list \<Rightarrow> pyerror + nat list" where
  "validate_rollback_reserved a hs =
     ebind (traverse (require_state a RESERVED) hs) (\<lambda>is.
       ebind (check_rollback a is) (\<lambda>_. Inr is))"

fun check_release :: "PageAllocator \<Rightarrow> KVPageHandle list \<Rightarrow> pyerror + unit" where
  "check_release a [] = Inr ()"
| "check_release a (h # hs) =
     (case require_state a LIVE h of
        Inl e \<Rightarrow> Inl e
      | Inr i \<Rightarrow> if request_refs (pages a ! i) \<le> 0 then Inl InvariantViolationError
                 else check_release a hs)"

definition rollback_one :: "nat \<Rightarrow> (PageAllocator, unit) py" where
  "rollback_one i a = make_free i (upd_page i (\<lambda>m. m\<lparr>reservation_refs := 0\<rparr>) a)"

definition rollback_reserved :: "KVPageHandle list \<Rightarrow> (PageAllocator, unit) py" where
  "rollback_reserved hs a =
     (case validate_rollback_reserved a hs of
        Inl e \<Rightarrow> (Inl e, a)
      | Inr is \<Rightarrow> for_each rollback_one is a)"

definition abandon_one :: "int \<Rightarrow> nat \<Rightarrow> PageAllocator \<Rightarrow> PageAllocator" where
  "abandon_one safe i a =
     mark_for_reclaim_if_unowned safe i (upd_page i (\<lambda>m. m\<lparr>reservation_refs := 0\<rparr>) a)"

definition abandon_reserved :: "KVPageHandle list \<Rightarrow> int \<Rightarrow> (PageAllocator, unit) py" where
  "abandon_reserved hs safe a =
     (case validate_epoch safe of
        Inl e \<Rightarrow> (Inl e, a)
      | Inr _ \<Rightarrow>
          (case traverse (require_state a RESERVED) hs of
             Inl e \<Rightarrow> (Inl e, a)
           | Inr is \<Rightarrow>
               if \<exists>i\<in>set is. reservation_refs (pages a ! i) \<noteq> 1 then (Inl InvariantViolationError, a)
               else (Inr (), fold (abandon_one safe) is a)))"

definition mark_inflight :: "KVPageHandle list \<Rightarrow> (PageAllocator, unit) py" where
  "mark_inflight hs a =
     (case traverse (require_live_or_reserved a) (unique_pages hs) of
        Inl e \<Rightarrow> (Inl e, a)
      | Inr is \<Rightarrow> (Inr (), fold (\<lambda>i. upd_page i (\<lambda>m. m\<lparr>inflight_refs := inflight_refs m + 1\<rparr>)) is a))"

definition unmark_one :: "nat \<Rightarrow> PageAllocator \<Rightarrow> PageAllocator" where
  "unmark_one i a =
     (let a1 = upd_page i (\<lambda>m. m\<lparr>inflight_refs := inflight_refs m - 1\<rparr>) a in
      if ownership_refs (pages a1 ! i) = 0
      then (case pending_free_epoch (pages a1 ! i) of
              None \<Rightarrow> a1
            | Some e \<Rightarrow> mark_for_reclaim_if_unowned e i a1)
      else a1)"

definition unmark_inflight :: "KVPageHandle list \<Rightarrow> (PageAllocator, unit) py" where
  "unmark_inflight hs a =
     (case traverse (require_live_or_reserved a) (unique_pages hs) of
        Inl e \<Rightarrow> (Inl e, a)
      | Inr is \<Rightarrow>
          if \<exists>i\<in>set is. inflight_refs (pages a ! i) \<le> 0 then (Inl InvariantViolationError, a)
          else (Inr (), fold unmark_one is a))"

definition set_valid_tokens :: "KVPageHandle \<Rightarrow> int \<Rightarrow> (PageAllocator, unit) py" where
  "set_valid_tokens h v a =
     (if \<not> (0 \<le> v \<and> v \<le> page_size a) then (Inl ValueError, a)
      else case require_live_or_reserved a h of
        Inl e \<Rightarrow> (Inl e, a)
      | Inr i \<Rightarrow> (Inr (), upd_page i (\<lambda>m. m\<lparr>valid_tokens := v\<rparr>) a))"

definition acquire_request_ref :: "KVPageHandle \<Rightarrow> (PageAllocator, unit) py" where
  "acquire_request_ref h a =
     (case require_state a LIVE h of
        Inl e \<Rightarrow> (Inl e, a)
      | Inr i \<Rightarrow> (Inr (), upd_page i (\<lambda>m. m\<lparr>request_refs := request_refs m + 1\<rparr>) a))"

definition release_request_ref :: "KVPageHandle \<Rightarrow> int \<Rightarrow> (PageAllocator, unit) py" where
  "release_request_ref h safe a =
     (case validate_epoch safe of
        Inl e \<Rightarrow> (Inl e, a)
      | Inr _ \<Rightarrow>
          (case require_state a LIVE h of
             Inl e \<Rightarrow> (Inl e, a)
           | Inr i \<Rightarrow>
               if request_refs (pages a ! i) \<le> 0 then (Inl InvariantViolationError, a)
               else (Inr (), mark_for_reclaim_if_unowned safe i
                       (upd_page i (\<lambda>m. m\<lparr>request_refs := request_refs m - 1\<rparr>) a))))"

definition acquire_cache_ref :: "KVPageHandle \<Rightarrow> (PageAllocator, unit) py" where
  "acquire_cache_ref h a =
     (case require_state a LIVE h of
        Inl e \<Rightarrow> (Inl e, a)
      | Inr i \<Rightarrow> (Inr (), upd_page i (\<lambda>m. m\<lparr>cache_refs := cache_refs m + 1\<rparr>) a))"

definition release_cache_ref :: "KVPageHandle \<Rightarrow> int \<Rightarrow> (PageAllocator, unit) py" where
  "release_cache_ref h safe a =
     (case validate_epoch safe of
        Inl e \<Rightarrow> (Inl e, a)
      | Inr _ \<Rightarrow>
          (case require_state a LIVE h of
             Inl e \<Rightarrow> (Inl e, a)
           | Inr i \<Rightarrow>
               if cache_refs (pages a ! i) \<le> 0 then (Inl InvariantViolationError, a)
               else (Inr (), mark_for_reclaim_if_unowned safe i
                       (upd_page i (\<lambda>m. m\<lparr>cache_refs := cache_refs m - 1\<rparr>) a))))"

definition pin_page :: "KVPageHandle \<Rightarrow> (PageAllocator, unit) py" where
  "pin_page h a =
     (case require_state a LIVE h of
        Inl e \<Rightarrow> (Inl e, a)
      | Inr i \<Rightarrow> (Inr (), upd_page i pin a))"

definition unpin_page :: "KVPageHandle \<Rightarrow> int \<Rightarrow> (PageAllocator, unit) py" where
  "unpin_page h safe a =
     (case validate_epoch safe of
        Inl e \<Rightarrow> (Inl e, a)
      | Inr _ \<Rightarrow>
          (case require_state a LIVE h of
             Inl e \<Rightarrow> (Inl e, a)
           | Inr i \<Rightarrow>
               (case unpin (pages a ! i) of
                  Inl _ \<Rightarrow> (Inl InvariantViolationError, a)
                | Inr m \<Rightarrow> (Inr (), mark_for_reclaim_if_unowned safe i (upd_page i (\<lambda>_. m) a)))))"

definition advance_epoch :: "int \<Rightarrow> (PageAllocator, int) py" where
  "advance_epoch completed a =
     (case validate_epoch completed of
        Inl e \<Rightarrow> (Inl e, a)
      | Inr _ \<Rightarrow>
          if completed < current_epoch a then (Inl ValueError, a)
          else reclaim_completed_locked completed (a\<lparr>current_epoch := completed\<rparr>))"

definition reclaim_completed :: "(PageAllocator, int) py" where
  "reclaim_completed a = reclaim_completed_locked (current_epoch a) a"

definition available_pages :: "PageAllocator \<Rightarrow> int" where
  "available_pages a = int (length (ready_free a))"

definition page_physical_id :: "PageAllocator \<Rightarrow> KVPageHandle \<Rightarrow> pyerror + nat" where
  "page_physical_id a h = ebind (get_meta a h) (\<lambda>i. Inr (physical_id (pages a ! i)))"

definition page_meta :: "PageAllocator \<Rightarrow> KVPageHandle \<Rightarrow> pyerror + PageMetadata" where
  "page_meta a h = ebind (get_meta a h) (\<lambda>i. Inr (pages a ! i))"

section \<open>Reports and the debug check\<close>

record AllocatorSnapshot =
  snap_total_pages :: int
  usable_pages :: int
  free_pages :: int
  reserved_pages :: int
  live_pages :: int
  reclaim_pending_pages :: int
  permanent_pages :: int
  request_owned_pages :: int
  cache_owned_pages :: int
  pinned_pages :: int
  shared_pages :: int
  inflight_pages :: int
  evictable_pages :: int
  snap_reclaimed_total :: int

definition count_pages :: "(PageMetadata \<Rightarrow> bool) \<Rightarrow> PageAllocator \<Rightarrow> int" where
  "count_pages P a = int (length (filter P (pages a)))"

definition snapshot :: "PageAllocator \<Rightarrow> AllocatorSnapshot" where
  "snapshot a =
     \<lparr>snap_total_pages = int (total_pages a),
      usable_pages = int (total_pages a) - count_pages (\<lambda>m. allocation_state m = PERMANENT) a,
      free_pages = count_pages (\<lambda>m. allocation_state m = FREE) a,
      reserved_pages = count_pages (\<lambda>m. allocation_state m = RESERVED) a,
      live_pages = count_pages (\<lambda>m. allocation_state m = LIVE) a,
      reclaim_pending_pages = count_pages (\<lambda>m. allocation_state m = RECLAIM_PENDING) a,
      permanent_pages = count_pages (\<lambda>m. allocation_state m = PERMANENT) a,
      request_owned_pages = count_pages (\<lambda>m. request_refs m > 0) a,
      cache_owned_pages = count_pages (\<lambda>m. cache_refs m > 0) a,
      pinned_pages = count_pages is_pinned a,
      shared_pages = count_pages is_shared a,
      inflight_pages = count_pages (\<lambda>m. inflight_refs m > 0) a,
      evictable_pages = count_pages is_evictable a,
      snap_reclaimed_total = reclaimed_pages_total a\<rparr>"

text \<open>The \<open>for index, meta in enumerate(self._pages)\<close> body of \<open>assert_invariants\<close>.\<close>

definition deferred_in_flight :: "PageMetadata \<Rightarrow> bool" where
  "deferred_in_flight m \<longleftrightarrow> inflight_refs m > 0 \<and> pending_free_epoch m \<noteq> None"

definition check_page :: "PageAllocator \<Rightarrow> nat \<times> PageMetadata \<Rightarrow> pyerror + unit" where
  "check_page a = (\<lambda>(i, m).
     if request_refs m < 0 \<or> cache_refs m < 0 \<or> reservation_refs m < 0 \<or>
        inflight_refs m < 0 \<or> pin_refs m < 0 then Inl InvariantViolationError
     else if \<not> (0 \<le> valid_tokens m \<and> valid_tokens m \<le> page_size a) then Inl InvariantViolationError
     else if allocation_state m = FREE \<and> i \<notin> set (ready_free a) then Inl InvariantViolationError
     else if allocation_state m = FREE \<and>
             (total_refs m \<noteq> 0 \<or> valid_tokens m \<noteq> 0 \<or> pending_free_epoch m \<noteq> None)
       then Inl InvariantViolationError
     else if allocation_state m \<noteq> FREE \<and> i \<in> set (ready_free a) then Inl InvariantViolationError
     else (case allocation_state m of
             RESERVED \<Rightarrow>
               if reservation_refs m \<noteq> 0 \<and> reservation_refs m \<noteq> 1 then Inl InvariantViolationError
               else if pin_refs m \<noteq> 0 then Inl InvariantViolationError
               else if reservation_refs m = 0 \<and> \<not> deferred_in_flight m then Inl InvariantViolationError
               else Inr ()
           | LIVE \<Rightarrow>
               if reservation_refs m \<noteq> 0 then Inl InvariantViolationError
               else if ownership_refs m = 0 \<and> \<not> deferred_in_flight m then Inl InvariantViolationError
               else Inr ()
           | RECLAIM_PENDING \<Rightarrow>
               if total_refs m \<noteq> 0 then Inl InvariantViolationError
               else if pending_free_epoch m = None then Inl InvariantViolationError
               else Inr ()
           | PERMANENT \<Rightarrow>
               if pending_free_epoch m \<noteq> None then Inl InvariantViolationError else Inr ()
           | FREE \<Rightarrow> Inr ()))"

definition valid_reclaim_entry :: "PageAllocator \<Rightarrow> int \<times> nat \<times> nat \<Rightarrow> bool" where
  "valid_reclaim_entry a = (\<lambda>(epoch, i, g).
     i < total_pages a \<and> generation (pages a ! i) = g \<and>
     allocation_state (pages a ! i) = RECLAIM_PENDING \<and> pending_free_epoch (pages a ! i) = Some epoch)"

definition assert_invariants :: "PageAllocator \<Rightarrow> pyerror + unit" where
  "assert_invariants a =
     (let entries = filter (valid_reclaim_entry a) (reclaim_heap a);
          pending = count_pages (\<lambda>m. allocation_state m = RECLAIM_PENDING) a;
          snap = snapshot a
      in if \<not> distinct (ready_free a) then Inl InvariantViolationError
         else if int (length entries) \<noteq> pending \<or> int (length (remdups entries)) \<noteq> pending
         then Inl InvariantViolationError
         else ebind (traverse (check_page a) (enumerate 0 (pages a))) (\<lambda>_.
           if free_pages snap + reserved_pages snap + live_pages snap + reclaim_pending_pages snap
              + permanent_pages snap \<noteq> int (total_pages a)
           then Inl InvariantViolationError else Inr ()))"

section \<open>The operations as one datatype\<close>

datatype page_op =
    Op_Reserve_Permanent
  | Op_Allocate int
  | Op_Commit "KVPageHandle list"
  | Op_Rollback "KVPageHandle list"
  | Op_Abandon "KVPageHandle list" int
  | Op_Mark "KVPageHandle list"
  | Op_Unmark "KVPageHandle list"
  | Op_Set_Valid KVPageHandle int
  | Op_Acquire_Request KVPageHandle
  | Op_Release_Request KVPageHandle int
  | Op_Acquire_Cache KVPageHandle
  | Op_Release_Cache KVPageHandle int
  | Op_Pin KVPageHandle
  | Op_Unpin KVPageHandle int
  | Op_Advance int
  | Op_Reclaim

fun page_exec :: "page_op \<Rightarrow> (PageAllocator, unit) py" where
  "page_exec Op_Reserve_Permanent = discard reserve_permanent_page"
| "page_exec (Op_Allocate n) = discard (allocate n)"
| "page_exec (Op_Commit hs) = commit_reserved hs"
| "page_exec (Op_Rollback hs) = rollback_reserved hs"
| "page_exec (Op_Abandon hs e) = abandon_reserved hs e"
| "page_exec (Op_Mark hs) = mark_inflight hs"
| "page_exec (Op_Unmark hs) = unmark_inflight hs"
| "page_exec (Op_Set_Valid h v) = set_valid_tokens h v"
| "page_exec (Op_Acquire_Request h) = acquire_request_ref h"
| "page_exec (Op_Release_Request h e) = release_request_ref h e"
| "page_exec (Op_Acquire_Cache h) = acquire_cache_ref h"
| "page_exec (Op_Release_Cache h e) = release_cache_ref h e"
| "page_exec (Op_Pin h) = pin_page h"
| "page_exec (Op_Unpin h e) = unpin_page h e"
| "page_exec (Op_Advance e) = discard (advance_epoch e)"
| "page_exec Op_Reclaim = discard reclaim_completed"

text \<open>
  What a caller owes the allocator: a batch that commits, rolls back or abandons a
  reservation names each page once, and no page has used up its generations.
\<close>

definition gen_room :: "PageAllocator \<Rightarrow> bool" where
  "gen_room a \<longleftrightarrow> (\<forall>m\<in>set (pages a). generation m < MAX_HANDLE_GENERATION)"

fun page_legal :: "page_op \<Rightarrow> PageAllocator \<Rightarrow> bool" where
  "page_legal Op_Reserve_Permanent a = gen_room a"
| "page_legal (Op_Allocate n) a = gen_room a"
| "page_legal (Op_Commit hs) a = distinct hs"
| "page_legal (Op_Rollback hs) a = distinct hs"
| "page_legal (Op_Abandon hs e) a = distinct hs"
| "page_legal _ a = True"

lemma new_generation_valid:
  assumes "reset_for_new_generation i a = (Inr (), b)" "i < length (pages a)"
  shows "KVPageHandle_init (int i) (int (generation (pages b ! i))) = Inr (mk_handle i (generation (pages b ! i)))"
  using assms
  by (auto simp: reset_for_new_generation_def KVPageHandle_init_def validate_index_generation_def upd_page_def
      split: if_splits)

end
