(* ===== verification/Page_Invariant.thy ===== *)
theory Page_Invariant
  imports Page_Allocator
begin

text \<open>
  The invariant of the page allocator and the page lifecycle its documentation draws
  (\<open>FREE -> RESERVED -> LIVE -> RECLAIM_PENDING -> FREE\<close> with the side branches).  Every
  public operation keeps the invariant and moves each page along one edge of that
  lifecycle; the debug check \<open>assert_invariants\<close> therefore never fires.
\<close>

section \<open>Invariant\<close>

definition refs_ok :: "int \<Rightarrow> PageMetadata \<Rightarrow> bool" where
  "refs_ok psize m \<longleftrightarrow>
     0 \<le> request_refs m \<and> 0 \<le> cache_refs m \<and> 0 \<le> reservation_refs m \<and> 0 \<le> inflight_refs m \<and>
     0 \<le> pin_refs m \<and> 0 \<le> valid_tokens m \<and> valid_tokens m \<le> psize \<and>
     (case allocation_state m of
        FREE \<Rightarrow> total_refs m = 0 \<and> valid_tokens m = 0 \<and> pending_free_epoch m = None
      | RESERVED \<Rightarrow> reservation_refs m \<le> 1 \<and> request_refs m = 0 \<and> cache_refs m = 0 \<and> pin_refs m = 0
      | LIVE \<Rightarrow> reservation_refs m = 0
      | RECLAIM_PENDING \<Rightarrow> total_refs m = 0 \<and> pending_free_epoch m \<noteq> None
      | PERMANENT \<Rightarrow> total_refs m = 0 \<and> pending_free_epoch m = None)"

definition page_ok :: "int \<Rightarrow> PageMetadata \<Rightarrow> bool" where
  "page_ok psize m \<longleftrightarrow>
     refs_ok psize m \<and>
     (allocation_state m \<in> {RESERVED, LIVE} \<and> ownership_refs m = 0 \<longrightarrow> deferred_in_flight m)"

definition alloc_inv :: "PageAllocator \<Rightarrow> bool" where
  "alloc_inv a \<longleftrightarrow>
     length (pages a) = total_pages a \<and> 0 < page_size a \<and>
     (\<forall>i<total_pages a. physical_id (pages a ! i) = i \<and> page_ok (page_size a) (pages a ! i)) \<and>
     distinct (ready_free a) \<and>
     set (ready_free a) = {i. i < total_pages a \<and> allocation_state (pages a ! i) = FREE} \<and>
     sorted (reclaim_heap a) \<and> distinct (reclaim_heap a) \<and>
     set (reclaim_heap a) = {x. valid_reclaim_entry a x}"

lemma alloc_invD:
  assumes "alloc_inv a"
  shows "length (pages a) = total_pages a" "0 < page_size a"
    "i < total_pages a \<Longrightarrow> physical_id (pages a ! i) = i"
    "i < total_pages a \<Longrightarrow> page_ok (page_size a) (pages a ! i)"
    "distinct (ready_free a)"
    "i \<in> set (ready_free a) \<longleftrightarrow> i < total_pages a \<and> allocation_state (pages a ! i) = FREE"
    "sorted (reclaim_heap a)" "distinct (reclaim_heap a)"
    "x \<in> set (reclaim_heap a) \<longleftrightarrow> valid_reclaim_entry a x"
  using assms by (auto simp: alloc_inv_def)

lemma alloc_invI:
  assumes "length (pages b) = total_pages b" "0 < page_size b"
    "\<And>i. i < total_pages b \<Longrightarrow> physical_id (pages b ! i) = i \<and> page_ok (page_size b) (pages b ! i)"
    "distinct (ready_free b)"
    "set (ready_free b) = {i. i < total_pages b \<and> allocation_state (pages b ! i) = FREE}"
    "sorted (reclaim_heap b)" "distinct (reclaim_heap b)"
    "set (reclaim_heap b) = {x. valid_reclaim_entry b x}"
  shows "alloc_inv b"
  using assms unfolding alloc_inv_def by blast

section \<open>Elementary updates\<close>

lemma upd_page_simps [simp]:
  "pages (upd_page i f a) = (pages a)[i := f (pages a ! i)]"
  "total_pages (upd_page i f a) = total_pages a" "page_size (upd_page i f a) = page_size a"
  "ready_free (upd_page i f a) = ready_free a" "reclaim_heap (upd_page i f a) = reclaim_heap a"
  "current_epoch (upd_page i f a) = current_epoch a"
  "reclaimed_pages_total (upd_page i f a) = reclaimed_pages_total a"
  by (simp_all add: upd_page_def)

text \<open>What \<open>_mark_for_reclaim_if_unowned\<close> does to the page it is given.\<close>

definition marked :: "int \<Rightarrow> PageMetadata \<Rightarrow> PageMetadata" where
  "marked safe m =
     (if ownership_refs m \<noteq> 0 then m
      else let m' = m\<lparr>pending_free_epoch := Some (required_epoch (pending_free_epoch m) safe)\<rparr>
           in if inflight_refs m \<noteq> 0 then m' else m'\<lparr>allocation_state := RECLAIM_PENDING\<rparr>)"

lemma marked_simps [simp]:
  "physical_id (marked e m) = physical_id m" "generation (marked e m) = generation m"
  "ownership_refs (marked e m) = ownership_refs m" "total_refs (marked e m) = total_refs m"
  by (simp_all add: marked_def ownership_refs_def total_refs_def Let_def)

lemma mark_simps [simp]:
  "i < length (pages a) \<Longrightarrow>
     pages (mark_for_reclaim_if_unowned e i a) = (pages a)[i := marked e (pages a ! i)]"
  "total_pages (mark_for_reclaim_if_unowned e i a) = total_pages a"
  "page_size (mark_for_reclaim_if_unowned e i a) = page_size a"
  "ready_free (mark_for_reclaim_if_unowned e i a) = ready_free a"
  "current_epoch (mark_for_reclaim_if_unowned e i a) = current_epoch a"
  by (simp_all add: mark_for_reclaim_if_unowned_def marked_def Let_def)

lemma mark_heap:
  "reclaim_heap (mark_for_reclaim_if_unowned e i a) =
     (if ownership_refs (pages a ! i) = 0 \<and> inflight_refs (pages a ! i) = 0
      then insort (required_epoch (pending_free_epoch (pages a ! i)) e,
                   physical_id (pages a ! i), generation (pages a ! i)) (reclaim_heap a)
      else reclaim_heap a)"
  by (simp add: mark_for_reclaim_if_unowned_def Let_def)

lemma required_epoch_ge:
  "safe \<le> required_epoch p safe" "p = Some e \<Longrightarrow> 0 \<le> e \<Longrightarrow> 0 \<le> safe \<Longrightarrow> e \<le> required_epoch p safe"
  by (auto simp: required_epoch_def split: option.splits)

text \<open>Updates that move pages among the states \<open>RESERVED\<close>, \<open>LIVE\<close> and \<open>PERMANENT\<close>.\<close>

lemma alloc_inv_pagewise:
  assumes inv: "alloc_inv a"
    and same: "total_pages b = total_pages a" "page_size b = page_size a" "ready_free b = ready_free a"
      "reclaim_heap b = reclaim_heap a" "length (pages b) = length (pages a)"
    and upd: "\<And>i. i < total_pages a \<Longrightarrow>
        pages b ! i = pages a ! i \<or>
        allocation_state (pages a ! i) \<in> {RESERVED, LIVE} \<and>
        allocation_state (pages b ! i) \<in> {RESERVED, LIVE} \<and>
        physical_id (pages b ! i) = i \<and> page_ok (page_size a) (pages b ! i)"
  shows "alloc_inv b"
proof -
  note D = alloc_invD [OF inv]
  have ok: "physical_id (pages b ! i) = i \<and> page_ok (page_size a) (pages b ! i)"
    if "i < total_pages a" for i using upd [OF that] D(3,4) [OF that] by metis
  have free: "allocation_state (pages b ! i) = FREE \<longleftrightarrow> allocation_state (pages a ! i) = FREE"
    if "i < total_pages a" for i using upd [OF that] by auto
  have "valid_reclaim_entry b x = valid_reclaim_entry a x" for x
    using upd [of "fst (snd x)"] by (auto simp: valid_reclaim_entry_def same)
  then show ?thesis
    using D(1,2,5,7,8) ok free by (auto simp: alloc_inv_def same D(6,9))
qed

text \<open>The owner of a page lets go of it: the page is deferred, queued, or still owned.\<close>

lemma alloc_inv_mark:
  assumes inv: "alloc_inv a" and i: "i < total_pages a"
    and st: "allocation_state (pages a ! i) \<in> {RESERVED, LIVE}"
    and f: "allocation_state (f (pages a ! i)) = allocation_state (pages a ! i)"
      "physical_id (f (pages a ! i)) = physical_id (pages a ! i)"
      "refs_ok (page_size a) (f (pages a ! i))"
  shows "alloc_inv (mark_for_reclaim_if_unowned e i (upd_page i f a))"
proof -
  note D = alloc_invD [OF inv]
  let ?a1 = "upd_page i f a" and ?m = "f (pages a ! i)"
  let ?b = "mark_for_reclaim_if_unowned e i ?a1"
  have len: "i < length (pages a)" using i D by simp
  have pb: "pages ?b = (pages a)[i := marked e ?m]" using len by simp
  show ?thesis
  proof (cases "ownership_refs ?m = 0 \<and> inflight_refs ?m = 0")
    case False
    have "page_ok (page_size a) (marked e ?m)"
      using f st False
      by (auto simp: page_ok_def refs_ok_def marked_def deferred_in_flight_def Let_def
          ownership_refs_def total_refs_def)
    moreover have "allocation_state (marked e ?m) = allocation_state ?m"
      using False by (auto simp: marked_def)
    ultimately show ?thesis
      using f st len D(3) [OF i] pb False
      by (intro alloc_inv_pagewise [OF inv]) (auto simp: nth_list_update mark_heap)
  next
    case True
    let ?x = "(required_epoch (pending_free_epoch ?m) e, i, generation ?m)"
    have hp: "reclaim_heap ?b = insort ?x (reclaim_heap a)"
      using True f(2) D(3) [OF i] len by (simp add: mark_heap)
    have ok: "page_ok (page_size a) (marked e ?m)" "physical_id (marked e ?m) = i"
      using f st True D(3) [OF i]
      by (auto simp: page_ok_def refs_ok_def marked_def Let_def ownership_refs_def total_refs_def)
    have rp: "allocation_state (marked e ?m) = RECLAIM_PENDING"
      "pending_free_epoch (marked e ?m) = Some (required_epoch (pending_free_epoch ?m) e)"
      using True by (simp_all add: marked_def Let_def)
    have old: "(e', i, g') \<notin> set (reclaim_heap a)" for e' g'
      using st by (auto simp: D(9) valid_reclaim_entry_def)
    have "valid_reclaim_entry ?b x \<longleftrightarrow> x = ?x \<or> valid_reclaim_entry a x" for x
    proof (cases "fst (snd x) = i")
      case True
      then have "\<not> valid_reclaim_entry a x" using old D(9) by (metis prod.collapse)
      with True show ?thesis using rp i len pb by (auto simp: valid_reclaim_entry_def)
    next
      case False
      then show ?thesis using pb by (auto simp: valid_reclaim_entry_def)
    qed
    then have entries: "set (reclaim_heap ?b) = {x. valid_reclaim_entry ?b x}"
      unfolding hp set_insort_key using D(9) by blast
    have free: "set (ready_free a) = {j. j < total_pages a \<and> allocation_state (pages ?b ! j) = FREE}"
      unfolding pb using rp st len by (auto simp: D(6) nth_list_update)
    have pages_ok: "physical_id (pages ?b ! j) = j \<and> page_ok (page_size a) (pages ?b ! j)"
      if "j < total_pages a" for j
      unfolding pb using ok D(3,4) [OF that] len by (auto simp: nth_list_update)
    have heap: "sorted (reclaim_heap ?b)" "distinct (reclaim_heap ?b)"
      unfolding hp using D(7,8) old by (simp_all add: sorted_insort distinct_insort)
    have len': "length (pages ?b) = total_pages a" unfolding pb using D(1) by simp
    have same: "total_pages ?b = total_pages a" "page_size ?b = page_size a" "ready_free ?b = ready_free a"
      by simp_all
    show ?thesis
      by (rule alloc_invI, unfold same) (rule len' D(2,5) pages_ok free heap entries | assumption)+
  qed
qed

section \<open>Resolving handles\<close>

lemma get_meta_Inr:
  "get_meta a h = Inr i \<longleftrightarrow>
     i = index h \<and> i < total_pages a \<and> generation (pages a ! i) = handle_generation h \<and>
     allocation_state (pages a ! i) \<noteq> FREE"
  by (auto simp: get_meta_def Let_def)

lemma require_state_Inr:
  "require_state a st h = Inr i \<longleftrightarrow>
     i = index h \<and> i < total_pages a \<and> generation (pages a ! i) = handle_generation h \<and>
     allocation_state (pages a ! i) \<noteq> FREE \<and> allocation_state (pages a ! i) = st"
  by (auto simp: require_state_def get_meta_Inr ebind_Inr_iff)

lemma require_live_or_reserved_Inr:
  "require_live_or_reserved a h = Inr i \<longleftrightarrow>
     i = index h \<and> i < total_pages a \<and> generation (pages a ! i) = handle_generation h \<and>
     allocation_state (pages a ! i) \<in> {RESERVED, LIVE}"
  by (auto simp: require_live_or_reserved_def get_meta_Inr ebind_Inr_iff)

text \<open>A batch that resolves is the list of its indices; distinct handles name distinct pages.\<close>

lemma resolved_batch:
  fixes hs :: "KVPageHandle list" and a :: PageAllocator
  assumes "traverse r hs = Inr is"
    and r: "\<And>h i. r h = Inr i \<Longrightarrow>
      i = index h \<and> i < total_pages a \<and> generation (pages a ! i) = handle_generation h \<and> P (pages a ! i)"
  shows "is = map index hs" "\<forall>i\<in>set is. i < total_pages a \<and> P (pages a ! i)"
    "distinct hs \<Longrightarrow> distinct is"
proof -
  have all: "list_all2 (\<lambda>h i. r h = Inr i) hs is" using assms(1) by (simp add: traverse_Inr_iff)
  then have "list_all2 (\<lambda>h i. i = index h) hs is"
    by (rule list_all2_mono) (drule r, elim conjE, assumption)
  then show map: "is = map index hs"
    by (induction rule: list_all2_induct) simp_all
  from all have res: "\<forall>h\<in>set hs. r h = Inr (index h)"
    unfolding map by (simp add: list_all2_conv_all_nth all_set_conv_all_nth)
  show "\<forall>i\<in>set is. i < total_pages a \<and> P (pages a ! i)"
  proof
    fix i assume "i \<in> set is"
    then obtain h where "h \<in> set hs" "i = index h" by (auto simp: map)
    with res have "r h = Inr i" by simp
    from r [OF this] show "i < total_pages a \<and> P (pages a ! i)" by (elim conjE) (rule conjI)
  qed
  show "distinct is" if "distinct hs"
  proof -
    have "inj_on index (set hs)"
    proof (rule inj_onI)
      fix x y assume "x \<in> set hs" "y \<in> set hs" and eq: "index x = index y"
      with res have "r x = Inr (index x)" "r y = Inr (index y)" by blast+
      from this [THEN r] eq have "handle_generation x = handle_generation y" by simp
      with eq show "x = y" by (simp add: KVPageHandle.equality)
    qed
    with that show ?thesis by (simp add: map distinct_map)
  qed
qed

lemma unique_pages_set: "set (unique_pages hs) = set hs"
  by (induction hs rule: unique_pages.induct) auto

lemma unique_pages_distinct: "distinct (unique_pages hs)"
  by (induction hs rule: unique_pages.induct) (simp_all add: unique_pages_set)

section \<open>Batches\<close>

text \<open>A loop over distinct pages whose body rewrites only the page it is given.\<close>

lemma fold_pages_length:
  assumes "\<And>i a. length (pages (f i a)) = length (pages a)"
  shows "length (pages (fold f is a)) = length (pages a)"
  by (rule fold_fixpoint) (rule assms)

lemma fold_pages:
  assumes body: "\<And>i a. i < length (pages a) \<Longrightarrow> pages (f i a) = (pages a)[i := g (pages a ! i)]"
  shows "distinct is \<Longrightarrow> \<forall>i\<in>set is. i < length (pages a) \<Longrightarrow> j < length (pages a) \<Longrightarrow>
       pages (fold f is a) ! j = (if j \<in> set is then g (pages a ! j) else pages a ! j)"
proof (induction "is" arbitrary: a)
  case (Cons i "is")
  then have step: "pages (f i a) = (pages a)[i := g (pages a ! i)]" by (simp add: body)
  have "pages (fold f is (f i a)) ! j = (if j \<in> set is then g (pages (f i a) ! j) else pages (f i a) ! j)"
    using Cons.prems by (intro Cons.IH) (simp_all add: step)
  with Cons.prems show ?case by (auto simp: step nth_list_update)
qed simp

lemma fold_distinct_inv:
  assumes step: "\<And>i a. I a \<Longrightarrow> i < length (pages a) \<Longrightarrow> Q (pages a ! i) \<Longrightarrow> I (f i a)"
    and body: "\<And>i a. i < length (pages a) \<Longrightarrow> pages (f i a) = (pages a)[i := g (pages a ! i)]"
  shows "distinct is \<Longrightarrow> I a \<Longrightarrow> \<forall>i\<in>set is. i < length (pages a) \<and> Q (pages a ! i) \<Longrightarrow> I (fold f is a)"
proof (induction "is" arbitrary: a)
  case (Cons i "is")
  then have i: "i < length (pages a)" "Q (pages a ! i)" "I a" by auto
  then have "I (f i a)" by (intro step)
  moreover have "\<forall>k\<in>set is. k < length (pages (f i a)) \<and> Q (pages (f i a) ! k)"
    using Cons.prems i(1) by (auto simp: body nth_list_update)
  ultimately show ?case using Cons.prems(1) by (simp add: Cons.IH)
qed simp

section \<open>Freeing and reclaiming\<close>

definition freed :: "int \<Rightarrow> PageMetadata \<Rightarrow> PageMetadata" where
  "freed now m = m\<lparr>allocation_state := FREE, valid_tokens := 0, pending_free_epoch := None,
                   last_access_epoch := now\<rparr>"

lemma freed_simps [simp]:
  "physical_id (freed e m) = physical_id m" "generation (freed e m) = generation m"
  "allocation_state (freed e m) = FREE" "pending_free_epoch (freed e m) = None"
  "total_refs (freed e m) = total_refs m"
  by (simp_all add: freed_def ownership_refs_def total_refs_def)

lemma make_free_ok:
  assumes "allocation_state (pages a ! i) \<noteq> FREE" "total_refs (pages a ! i) = 0"
    "physical_id (pages a ! i) = i"
  shows "make_free i a = (Inr (), (upd_page i (freed (current_epoch a)) a)\<lparr>ready_free := ready_free a @ [i]\<rparr>)"
  using assms by (simp add: make_free_def freed_def Let_def upd_page_def)

text \<open>Popping the head of the reclaim heap and freeing its page.\<close>

lemma alloc_inv_pop:
  assumes inv: "alloc_inv a" and heap: "reclaim_heap a = (e, i, g) # heap"
  shows "alloc_inv (a\<lparr>reclaim_heap := heap, pages := (pages a)[i := freed (current_epoch a) (pages a ! i)],
                     ready_free := ready_free a @ [i], reclaimed_pages_total := n\<rparr>)"
    (is "alloc_inv ?b")
proof -
  note D = alloc_invD [OF inv]
  have x: "valid_reclaim_entry a (e, i, g)" using D(9) heap by (metis list.set_intros(1))
  then have i: "i < total_pages a" "allocation_state (pages a ! i) = RECLAIM_PENDING"
    "generation (pages a ! i) = g" "pending_free_epoch (pages a ! i) = Some e"
    by (auto simp: valid_reclaim_entry_def)
  have ok: "page_ok (page_size a) (freed (current_epoch a) (pages a ! i))"
    using D(2) D(4) [OF i(1)] i(2)
    by (auto simp: page_ok_def refs_ok_def freed_def total_refs_def ownership_refs_def)
  have "(e', i, g') \<notin> set heap" for e' g'
  proof
    assume "(e', i, g') \<in> set heap"
    then have "valid_reclaim_entry a (e', i, g')" using D(9) heap by (metis list.set_intros(2))
    with i have "(e', i, g') = (e, i, g)" by (simp add: valid_reclaim_entry_def)
    with D(8) heap \<open>(e', i, g') \<in> set heap\<close> show False by simp
  qed
  moreover have "x \<in> set heap \<longleftrightarrow> valid_reclaim_entry a x" if "fst (snd x) \<noteq> i" for x
    using that D(9) [of x] heap by auto
  ultimately have entries: "x \<in> set heap \<longleftrightarrow> valid_reclaim_entry ?b x" for x
    using i D(1) by (cases "fst (snd x) = i") (auto simp: valid_reclaim_entry_def)
  then have "set heap = {x. valid_reclaim_entry ?b x}" by blast
  moreover have "distinct (ready_free a @ [i])" using i D(5) by (simp add: D(6))
  moreover have "set (ready_free a @ [i]) = {j. j < total_pages a \<and> allocation_state (pages ?b ! j) = FREE}"
    using i D(1) by (auto simp: D(6) nth_list_update)
  moreover have "physical_id (pages ?b ! j) = j \<and> page_ok (page_size a) (pages ?b ! j)"
    if "j < total_pages a" for j
    using ok i D(1) D(3,4) [OF that] by (auto simp: nth_list_update)
  moreover have "sorted heap" "distinct heap" using D(7,8) heap by simp_all
  ultimately show ?thesis using D(1,2) by (simp add: alloc_inv_def)
qed

definition reclaimable :: "int \<Rightarrow> PageMetadata \<Rightarrow> bool" where
  "reclaimable completed m \<longleftrightarrow>
     allocation_state m = RECLAIM_PENDING \<and>
     (case pending_free_epoch m of None \<Rightarrow> False | Some e \<Rightarrow> e \<le> completed)"

text \<open>
  The reclaim loop frees exactly the pages that are due; its \<open>continue\<close> branches and its
  \<open>raise\<close> are never taken.
\<close>

definition due :: "int \<Rightarrow> PageAllocator \<Rightarrow> (int \<times> nat \<times> nat) list" where
  "due completed a = takeWhile (\<lambda>x. fst x \<le> completed) (reclaim_heap a)"

definition reclaimed_to :: "int \<Rightarrow> PageAllocator \<Rightarrow> PageAllocator \<Rightarrow> bool" where
  "reclaimed_to completed a b \<longleftrightarrow>
     alloc_inv b \<and> length (pages b) = length (pages a) \<and> total_pages b = total_pages a \<and>
     page_size b = page_size a \<and> current_epoch b = current_epoch a \<and>
     ready_free b = ready_free a @ map (fst \<circ> snd) (due completed a) \<and>
     (\<forall>j<total_pages a. pages b ! j =
        (if reclaimable completed (pages a ! j) then freed (current_epoch a) (pages a ! j)
         else pages a ! j))"

lemma nothing_due:
  assumes "alloc_inv a" "due completed a = []"
  shows "reclaimed_to completed a a"
proof -
  note D = alloc_invD [OF assms(1)]
  have "\<not> reclaimable completed (pages a ! j)" if "j < total_pages a" for j
  proof
    assume r: "reclaimable completed (pages a ! j)"
    then obtain e where e: "pending_free_epoch (pages a ! j) = Some e" "e \<le> completed"
      by (auto simp: reclaimable_def split: option.splits)
    then have mem: "(e, j, generation (pages a ! j)) \<in> set (reclaim_heap a)"
      using that r D(9) by (auto simp: valid_reclaim_entry_def reclaimable_def)
    then obtain x heap where heap: "reclaim_heap a = x # heap" by (cases "reclaim_heap a") auto
    with mem D(7) have "fst x \<le> e" by (auto simp: less_eq_prod_def)
    with heap e assms(2) show False by (simp add: due_def split: if_splits)
  qed
  with assms show ?thesis by (simp add: reclaimed_to_def)
qed

lemma reclaim_step:
  assumes inv: "alloc_inv a" and heap: "reclaim_heap a = (e, i, g) # heap" and e: "e \<le> completed"
    and a1: "a1 = a\<lparr>reclaim_heap := heap, pages := (pages a)[i := freed (current_epoch a) (pages a ! i)],
                  ready_free := ready_free a @ [i],
                  reclaimed_pages_total := reclaimed_pages_total a + 1\<rparr>"
  shows "reclaim_loop completed ((e, i, g) # heap) n a = reclaim_loop completed heap (n + 1) a1"
    "alloc_inv a1" "reclaimed_to completed a1 b \<Longrightarrow> reclaimed_to completed a b"
proof -
  note D = alloc_invD [OF inv]
  have valid: "valid_reclaim_entry a (e, i, g)" using D(9) heap by (metis list.set_intros(1))
  then have i: "i < total_pages a" "allocation_state (pages a ! i) = RECLAIM_PENDING"
    "generation (pages a ! i) = g" "pending_free_epoch (pages a ! i) = Some e"
    by (auto simp: valid_reclaim_entry_def)
  have refs: "total_refs (pages a ! i) = 0" using D(4) [OF i(1)] i(2) by (simp add: page_ok_def refs_ok_def)
  show "reclaim_loop completed ((e, i, g) # heap) n a = reclaim_loop completed heap (n + 1) a1"
    using e i refs D(3) [OF i(1)] by (simp add: Let_def make_free_ok) (simp add: upd_page_def a1)
  show "alloc_inv a1" unfolding a1 by (rule alloc_inv_pop [OF inv heap])
  assume b: "reclaimed_to completed a1 b"
  have "pages b ! j = (if reclaimable completed (pages a ! j) then freed (current_epoch a) (pages a ! j)
               else pages a ! j)" if "j < total_pages a" for j
  proof (cases "j = i")
    case True
    with b that D(1) have "pages b ! j = freed (current_epoch a) (pages a ! j)"
      by (simp add: reclaimed_to_def a1 reclaimable_def)
    with True i e show ?thesis by (simp add: reclaimable_def)
  next
    case False
    with b that D(1) show ?thesis by (simp add: reclaimed_to_def a1)
  qed
  moreover have "due completed a = (e, i, g) # due completed a1" using heap e by (simp add: due_def a1)
  ultimately show "reclaimed_to completed a b" using b by (simp add: reclaimed_to_def a1)
qed

lemma reclaim_loop_spec:
  assumes "alloc_inv a" "reclaim_heap a = heap"
  shows "\<exists>b. reclaim_loop completed heap n a = (Inr (n + int (length (due completed a))), b)
         \<and> reclaimed_to completed a b"
  using assms
proof (induction heap arbitrary: a n)
  case Nil
  then have "a\<lparr>reclaim_heap := []\<rparr> = a" "due completed a = []" by (simp_all add: due_def)
  with nothing_due [OF Nil(1)] show ?case by simp
next
  case (Cons x heap)
  obtain e i g where x: "x = (e, i, g)" by (metis prod.collapse)
  show ?case
  proof (cases "e \<le> completed")
    case True
    define a1 where "a1 = a\<lparr>reclaim_heap := heap,
        pages := (pages a)[i := freed (current_epoch a) (pages a ! i)],
        ready_free := ready_free a @ [i], reclaimed_pages_total := reclaimed_pages_total a + 1\<rparr>"
    note step = reclaim_step [OF Cons.prems(1) _ True a1_def]
    have heap1: "reclaim_heap a1 = heap" by (simp add: a1_def)
    obtain b where "reclaim_loop completed heap (n + 1) a1 = (Inr (n + 1 + int (length (due completed a1))), b)"
      "reclaimed_to completed a1 b"
      using Cons.IH [OF step(2) heap1] Cons.prems(2) x by metis
    moreover have "due completed a = (e, i, g) # due completed a1"
      using Cons.prems(2) x True by (simp add: due_def a1_def)
    ultimately show ?thesis
      using step(1,3) Cons.prems(2) x by auto
  next
    case False
    then have "due completed a = []" using Cons.prems(2) x by (simp add: due_def)
    moreover have "a\<lparr>reclaim_heap := (e, i, g) # heap\<rparr> = a" using Cons.prems(2) x by simp
    ultimately show ?thesis using False Cons.prems(1) by (auto simp: x intro: nothing_due)
  qed
qed

lemma reclaim_completed_locked_spec:
  assumes "alloc_inv a"
  obtains b where "reclaim_completed_locked completed a = (Inr (int (length (due completed a))), b)"
    "reclaimed_to completed a b"
  using reclaim_loop_spec [OF assms refl, of completed 0] by (auto simp: reclaim_completed_locked_def)

end
