(* ===== verification/Page_Lifecycle.thy ===== *)
theory Page_Lifecycle
  imports Page_Invariant
begin

text \<open>
  The documented page lifecycle as a step relation on one page's metadata, and the proof
  that every public operation of the allocator keeps the invariant and moves every page
  along it: by at most one edge, except that one \<open>allocate\<close> may take a page that is due for
  reclamation through \<open>FREE\<close> into a new reservation.  The interface \<open>guarded_system\<close> is
  discharged here for the allocator.
\<close>

section \<open>The lifecycle of a page\<close>

text \<open>
  The edges of the state machine in the docstring of \<open>PageAllocator\<close>, with what each of
  them requires of the page and does to its generation.  \<open>idle\<close> and \<open>in_use\<close> are the calls
  that leave the lifecycle state alone.
\<close>

inductive page_step :: "int \<Rightarrow> PageMetadata \<Rightarrow> PageMetadata \<Rightarrow> bool" for completed where
  idle: "page_step completed m m"
| in_use: "\<lbrakk>allocation_state m \<in> {RESERVED, LIVE}; allocation_state m' = allocation_state m;
            generation m' = generation m\<rbrakk> \<Longrightarrow> page_step completed m m'"
| start: "\<lbrakk>allocation_state m = FREE; allocation_state m' \<in> {RESERVED, PERMANENT};
           generation m' = Suc (generation m)\<rbrakk> \<Longrightarrow> page_step completed m m'"
| commit: "\<lbrakk>allocation_state m = RESERVED; reservation_refs m = 1; allocation_state m' = LIVE;
            request_refs m' = 1; generation m' = generation m\<rbrakk> \<Longrightarrow> page_step completed m m'"
| rollback: "\<lbrakk>allocation_state m = RESERVED; inflight_refs m = 0; allocation_state m' = FREE;
              generation m' = generation m\<rbrakk> \<Longrightarrow> page_step completed m m'"
| defer_free: "\<lbrakk>allocation_state m \<in> {RESERVED, LIVE}; allocation_state m' = RECLAIM_PENDING;
            total_refs m' = 0; generation m' = generation m\<rbrakk> \<Longrightarrow> page_step completed m m'"
| reclaim: "\<lbrakk>reclaimable completed m; total_refs m = 0; allocation_state m' = FREE;
             generation m' = generation m\<rbrakk> \<Longrightarrow> page_step completed m m'"

text \<open>
  \<open>allocate\<close> reclaims before it takes pages, so a page it reclaims can be handed out by the
  same call: two edges, through \<open>FREE\<close>.
\<close>

definition reclaim_then_start :: "int \<Rightarrow> PageMetadata \<Rightarrow> PageMetadata \<Rightarrow> bool" where
  "reclaim_then_start completed m m' \<longleftrightarrow>
     allocation_state m = RECLAIM_PENDING \<and> allocation_state m' = RESERVED \<and>
     (\<exists>m1. allocation_state m1 = FREE \<and> page_step completed m m1 \<and> page_step completed m1 m')"

definition page_move :: "int \<Rightarrow> PageMetadata \<Rightarrow> PageMetadata \<Rightarrow> bool" where
  "page_move completed m m' \<longleftrightarrow> page_step completed m m' \<or> reclaim_then_start completed m m'"

definition advances :: "PageAllocator \<Rightarrow> PageAllocator \<Rightarrow> bool" where
  "advances a b \<longleftrightarrow>
     alloc_inv b \<and> total_pages b = total_pages a \<and> page_size b = page_size a \<and>
     current_epoch a \<le> current_epoch b \<and>
     (\<forall>i<total_pages a. page_step (current_epoch b) (pages a ! i) (pages b ! i))"

definition moves :: "PageAllocator \<Rightarrow> PageAllocator \<Rightarrow> bool" where
  "moves a b \<longleftrightarrow>
     alloc_inv b \<and> total_pages b = total_pages a \<and> page_size b = page_size a \<and>
     current_epoch a \<le> current_epoch b \<and>
     (\<forall>i<total_pages a. page_move (current_epoch b) (pages a ! i) (pages b ! i))"

lemma advances_moves: "advances a b \<Longrightarrow> moves a b"
  by (simp add: advances_def moves_def page_move_def)

lemma advances_inv: "advances a b \<Longrightarrow> alloc_inv b"
  by (simp add: advances_def)

lemma moves_inv: "moves a b \<Longrightarrow> alloc_inv b"
  by (simp add: moves_def)

lemma advances_refl: "alloc_inv a \<Longrightarrow> advances a a"
  by (simp add: advances_def page_step.idle)

section \<open>Operations on one page\<close>

lemma advances_upd:
  assumes "alloc_inv a" "i < total_pages a" "allocation_state (pages a ! i) \<in> {RESERVED, LIVE}"
    and "allocation_state (f (pages a ! i)) = allocation_state (pages a ! i)"
    and "physical_id (f (pages a ! i)) = physical_id (pages a ! i)"
    and "generation (f (pages a ! i)) = generation (pages a ! i)"
    and "page_ok (page_size a) (f (pages a ! i))"
  shows "advances a (upd_page i f a)"
proof -
  have "alloc_inv (upd_page i f a)"
    using assms alloc_invD(1,3) [OF assms(1)]
    by (intro alloc_inv_pagewise [OF assms(1)]) (auto simp: nth_list_update)
  moreover have "page_step c (pages a ! j) (pages (upd_page i f a) ! j)" if "j < total_pages a" for j c
    using that assms alloc_invD(1) [OF assms(1)]
    by (cases "j = i") (auto intro: page_step.idle page_step.in_use)
  ultimately show ?thesis by (simp add: advances_def)
qed

lemma page_step_marked:
  assumes "allocation_state m \<in> {RESERVED, LIVE}" "allocation_state m' = allocation_state m"
    "generation m' = generation m" "refs_ok psize m'"
  shows "page_step c m (marked e m')"
proof (cases "ownership_refs m' = 0 \<and> inflight_refs m' = 0")
  case True
  then show ?thesis
    using assms by (intro page_step.defer_free) (simp_all add: marked_def Let_def total_refs_def ownership_refs_def)
next
  case False
  then show ?thesis
    using assms by (intro page_step.in_use) (auto simp: marked_def Let_def)
qed

lemma advances_mark:
  assumes "alloc_inv a" "i < total_pages a" "allocation_state (pages a ! i) \<in> {RESERVED, LIVE}"
    and "allocation_state (f (pages a ! i)) = allocation_state (pages a ! i)"
    and "physical_id (f (pages a ! i)) = physical_id (pages a ! i)"
    and "generation (f (pages a ! i)) = generation (pages a ! i)"
    and "refs_ok (page_size a) (f (pages a ! i))"
  shows "advances a (mark_for_reclaim_if_unowned e i (upd_page i f a))"
proof -
  have len: "i < length (pages a)" using assms(1,2) by (simp add: alloc_invD)
  have "page_step c (pages a ! j) (pages (mark_for_reclaim_if_unowned e i (upd_page i f a)) ! j)" for j c
    using len assms page_step_marked by (cases "j = i") (auto intro: page_step.idle)
  moreover have "alloc_inv (mark_for_reclaim_if_unowned e i (upd_page i f a))"
    using assms by (intro alloc_inv_mark)
  ultimately show ?thesis by (simp add: advances_def)
qed

lemmas refs_defs = page_ok_def refs_ok_def total_refs_def ownership_refs_def deferred_in_flight_def

lemma set_valid_tokens_advances: "alloc_inv a \<Longrightarrow> advances a (snd (set_valid_tokens h v a))"
  unfolding set_valid_tokens_def
  by (auto simp: require_live_or_reserved_Inr advances_refl refs_defs split: sum.split
      dest: alloc_invD(4) intro!: advances_upd)

lemma acquire_request_ref_advances: "alloc_inv a \<Longrightarrow> advances a (snd (acquire_request_ref h a))"
  unfolding acquire_request_ref_def
  by (auto simp: require_state_Inr advances_refl refs_defs split: sum.split
      dest: alloc_invD(4) intro!: advances_upd)

lemma acquire_cache_ref_advances: "alloc_inv a \<Longrightarrow> advances a (snd (acquire_cache_ref h a))"
  unfolding acquire_cache_ref_def
  by (auto simp: require_state_Inr advances_refl refs_defs split: sum.split
      dest: alloc_invD(4) intro!: advances_upd)

lemma pin_page_advances: "alloc_inv a \<Longrightarrow> advances a (snd (pin_page h a))"
  unfolding pin_page_def
  by (auto simp: require_state_Inr advances_refl refs_defs pin_def split: sum.split
      dest: alloc_invD(4) intro!: advances_upd)

lemma release_request_ref_advances: "alloc_inv a \<Longrightarrow> advances a (snd (release_request_ref h e a))"
  unfolding release_request_ref_def
  by (auto simp: require_state_Inr advances_refl refs_defs split: sum.split
      dest: alloc_invD(4) intro!: advances_mark)

lemma release_cache_ref_advances: "alloc_inv a \<Longrightarrow> advances a (snd (release_cache_ref h e a))"
  unfolding release_cache_ref_def
  by (auto simp: require_state_Inr advances_refl refs_defs split: sum.split
      dest: alloc_invD(4) intro!: advances_mark)

lemma unpin_page_advances: "alloc_inv a \<Longrightarrow> advances a (snd (unpin_page h e a))"
  unfolding unpin_page_def
  by (auto simp: require_state_Inr advances_refl refs_defs unpin_def split: sum.split if_splits
      dest: alloc_invD(4) intro!: advances_mark)

section \<open>Batch operations\<close>

text \<open>
  A batch loop whose body rewrites one page, keeps the invariant on pages satisfying \<open>Q\<close> and
  makes one lifecycle step there.
\<close>

lemma advances_fold:
  assumes inv: "alloc_inv a" and "distinct is"
    and Q: "\<forall>i\<in>set is. i < total_pages a \<and> Q (page_size a) (pages a ! i)"
    and body: "\<And>i a. i < length (pages a) \<Longrightarrow> pages (f i a) = (pages a)[i := g (pages a ! i)]"
    and frame: "\<And>i a. total_pages (f i a) = total_pages a" "\<And>i a. page_size (f i a) = page_size a"
      "\<And>i a. current_epoch (f i a) = current_epoch a"
    and keep: "\<And>i a. alloc_inv a \<Longrightarrow> i < total_pages a \<Longrightarrow> Q (page_size a) (pages a ! i) \<Longrightarrow> alloc_inv (f i a)"
    and step: "\<And>psize m c. Q psize m \<Longrightarrow> page_ok psize m \<Longrightarrow> page_step c m (g m)"
  shows "advances a (fold f is a)"
proof -
  note D = alloc_invD [OF inv]
  let ?I = "\<lambda>b. alloc_inv b \<and> page_size b = page_size a"
  have "?I (fold f is a)"
  proof (rule fold_distinct_inv [where Q = "Q (page_size a)" and g = g])
    show "?I (f i b)" if "?I b" "i < length (pages b)" "Q (page_size a) (pages b ! i)" for i b
      using that keep [of b i] by (auto simp: frame alloc_invD(1))
  qed (use body inv \<open>distinct is\<close> Q D(1) in auto)
  moreover have "page_step c (pages a ! j) (pages (fold f is a) ! j)" if "j < total_pages a" for c j
  proof -
    have "pages (fold f is a) ! j = (if j \<in> set is then g (pages a ! j) else pages a ! j)"
      by (rule fold_pages [OF body]) (use \<open>distinct is\<close> Q D(1) that in auto)
    with that Q D(4) [of j] step show ?thesis by (auto intro: page_step.idle)
  qed
  moreover have "total_pages (fold f is a) = total_pages a" "page_size (fold f is a) = page_size a"
    "current_epoch (fold f is a) = current_epoch a"
    by (rule fold_fixpoint, rule frame)+
  ultimately show ?thesis by (simp add: advances_def)
qed

lemma page_ok_commit:
  assumes "page_ok psize m" "allocation_state m = RESERVED"
  shows "page_ok psize (m\<lparr>reservation_refs := 0, request_refs := request_refs m + 1, allocation_state := LIVE\<rparr>)"
  using assms by (simp add: refs_defs)

lemma commit_reserved_advances:
  assumes inv: "alloc_inv a" and "distinct hs"
  shows "advances a (snd (commit_reserved hs a))"
proof (cases "traverse (require_state a RESERVED) hs")
  case (Inl e)
  then show ?thesis using inv by (simp add: commit_reserved_def advances_refl)
next
  case (Inr "is")
  note batch = resolved_batch [OF Inr, where P = "\<lambda>m. allocation_state m = RESERVED" and a = a]
  have B: "\<forall>i\<in>set is. i < total_pages a \<and> allocation_state (pages a ! i) = RESERVED" "distinct is"
    using batch(2,3) assms(2) by (auto simp: require_state_Inr)
  show ?thesis
  proof (cases "\<exists>i\<in>set is. reservation_refs (pages a ! i) \<noteq> 1")
    case False
    have "advances a (fold commit_one is a)"
    proof (rule advances_fold [where Q = "\<lambda>_ m. allocation_state m = RESERVED \<and> reservation_refs m = 1"
          and g = "\<lambda>m. m\<lparr>reservation_refs := 0, request_refs := request_refs m + 1, allocation_state := LIVE\<rparr>"])
      show "alloc_inv (commit_one i b)"
        if "alloc_inv b" "i < total_pages b"
          "allocation_state (pages b ! i) = RESERVED \<and> reservation_refs (pages b ! i) = 1" for i b
        using that alloc_invD(1,3) [OF that(1)] that(2) page_ok_commit [OF alloc_invD(4) [OF that(1,2)]]
        by (intro alloc_inv_pagewise [OF that(1)]) (auto simp: commit_one_def nth_list_update)
      show "page_step c m (m\<lparr>reservation_refs := 0, request_refs := request_refs m + 1, allocation_state := LIVE\<rparr>)"
        if "allocation_state m = RESERVED \<and> reservation_refs m = 1" "page_ok psize m" for psize m c
        using that by (intro page_step.commit) (auto simp: refs_defs)
    qed (use inv B False in \<open>auto simp: commit_one_def\<close>)
    with False Inr show ?thesis by (simp add: commit_reserved_def)
  qed (use Inr inv in \<open>simp add: commit_reserved_def advances_refl\<close>)
qed

lemma abandon_reserved_advances:
  assumes inv: "alloc_inv a" and "distinct hs"
  shows "advances a (snd (abandon_reserved hs e a))"
proof (cases "0 \<le> e \<and> (\<exists>is. traverse (require_state a RESERVED) hs = Inr is \<and>
                 (\<forall>i\<in>set is. reservation_refs (pages a ! i) = 1))")
  case False
  then show ?thesis using inv
    by (auto simp: abandon_reserved_def validate_epoch_def require_def advances_refl split: sum.splits)
next
  case True
  then obtain "is" where tr: "traverse (require_state a RESERVED) hs = Inr is"
    and one: "\<forall>i\<in>set is. reservation_refs (pages a ! i) = 1" by blast
  note batch = resolved_batch [OF tr, where P = "\<lambda>m. allocation_state m = RESERVED" and a = a]
  have B: "\<forall>i\<in>set is. i < total_pages a \<and> allocation_state (pages a ! i) = RESERVED" "distinct is"
    using batch(2,3) assms(2) by (auto simp: require_state_Inr)
  have "advances a (fold (abandon_one e) is a)"
  proof (rule advances_fold [where Q = "\<lambda>_ m. allocation_state m = RESERVED"
        and g = "\<lambda>m. marked e (m\<lparr>reservation_refs := 0\<rparr>)"])
    show "alloc_inv (abandon_one e i b)"
      if "alloc_inv b" "i < total_pages b" "allocation_state (pages b ! i) = RESERVED" for i b
      unfolding abandon_one_def using that alloc_invD(4) [OF that(1,2)]
      by (intro alloc_inv_mark) (auto simp: refs_defs)
    show "page_step c m (marked e (m\<lparr>reservation_refs := 0\<rparr>))"
      if "allocation_state m = RESERVED" "page_ok psize m" for psize m c
      using that by (intro page_step_marked [where psize = psize]) (auto simp: refs_defs)
  qed (use inv B in \<open>auto simp: abandon_one_def\<close>)
  with True tr one show ?thesis by (simp add: abandon_reserved_def validate_epoch_def require_def)
qed

lemma mark_inflight_advances:
  assumes inv: "alloc_inv a"
  shows "advances a (snd (mark_inflight hs a))"
proof (cases "traverse (require_live_or_reserved a) (unique_pages hs)")
  case (Inl e)
  then show ?thesis using inv by (simp add: mark_inflight_def advances_refl)
next
  case (Inr "is")
  note batch = resolved_batch [OF Inr, where P = "\<lambda>m. allocation_state m \<in> {RESERVED, LIVE}" and a = a]
  have B: "\<forall>i\<in>set is. i < total_pages a \<and> allocation_state (pages a ! i) \<in> {RESERVED, LIVE}" "distinct is"
    using batch(2,3) unique_pages_distinct by (auto simp: require_live_or_reserved_Inr)
  have "advances a (fold (\<lambda>i. upd_page i (\<lambda>m. m\<lparr>inflight_refs := inflight_refs m + 1\<rparr>)) is a)"
  proof (rule advances_fold [where Q = "\<lambda>_ m. allocation_state m \<in> {RESERVED, LIVE}"
        and g = "\<lambda>m. m\<lparr>inflight_refs := inflight_refs m + 1\<rparr>"])
    show "alloc_inv (upd_page i (\<lambda>m. m\<lparr>inflight_refs := inflight_refs m + 1\<rparr>) b)"
      if "alloc_inv b" "i < total_pages b" "allocation_state (pages b ! i) \<in> {RESERVED, LIVE}" for i b
      using that alloc_invD(4) [OF that(1,2)] by (intro advances_upd [THEN advances_inv]) (auto simp: refs_defs)
    show "page_step c m (m\<lparr>inflight_refs := inflight_refs m + 1\<rparr>)"
      if "allocation_state m \<in> {RESERVED, LIVE}" for m c
      using that by (intro page_step.in_use) auto
  qed (use inv B in auto)
  with Inr show ?thesis by (simp add: mark_inflight_def)
qed

text \<open>The page part of one turn of the \<open>unmark_inflight\<close> loop.\<close>

definition unmarked :: "PageMetadata \<Rightarrow> PageMetadata" where
  "unmarked m =
     (let m1 = m\<lparr>inflight_refs := inflight_refs m - 1\<rparr> in
      if ownership_refs m1 = 0
      then (case pending_free_epoch m1 of None \<Rightarrow> m1 | Some e \<Rightarrow> marked e m1) else m1)"

lemma unmark_one_simps:
  "i < length (pages a) \<Longrightarrow> pages (unmark_one i a) = (pages a)[i := unmarked (pages a ! i)]"
  "total_pages (unmark_one i a) = total_pages a" "page_size (unmark_one i a) = page_size a"
  "current_epoch (unmark_one i a) = current_epoch a"
  by (simp_all add: unmark_one_def unmarked_def Let_def split: option.split)

lemma unmark_inflight_advances:
  assumes inv: "alloc_inv a"
  shows "advances a (snd (unmark_inflight hs a))"
proof (cases "\<exists>is. traverse (require_live_or_reserved a) (unique_pages hs) = Inr is \<and>
                   (\<forall>i\<in>set is. inflight_refs (pages a ! i) > 0)")
  case False
  then show ?thesis using inv
    by (auto simp: unmark_inflight_def advances_refl not_le split: sum.splits)
next
  case True
  then obtain "is" where tr: "traverse (require_live_or_reserved a) (unique_pages hs) = Inr is"
    and pos: "\<forall>i\<in>set is. inflight_refs (pages a ! i) > 0" by blast
  note batch = resolved_batch [OF tr, where P = "\<lambda>m. allocation_state m \<in> {RESERVED, LIVE}" and a = a]
  have B: "\<forall>i\<in>set is. i < total_pages a \<and> allocation_state (pages a ! i) \<in> {RESERVED, LIVE}" "distinct is"
    using batch(2,3) unique_pages_distinct by (auto simp: require_live_or_reserved_Inr)
  let ?Q = "\<lambda>_::int. \<lambda>m. allocation_state m \<in> {RESERVED, LIVE} \<and> inflight_refs m > 0"
  let ?dec = "\<lambda>m. m\<lparr>inflight_refs := inflight_refs m - 1\<rparr>"
  have dec: "refs_ok psize (?dec m)" "ownership_refs (?dec m) = ownership_refs m"
    if "?Q psize m" "page_ok psize m" for psize m
    using that by (auto simp: refs_defs)
  have "advances a (fold unmark_one is a)"
  proof (rule advances_fold [where Q = ?Q and g = unmarked])
    show "alloc_inv (unmark_one i b)" if "alloc_inv b" "i < total_pages b" "?Q (page_size b) (pages b ! i)" for i b
    proof (cases "ownership_refs (pages b ! i) = 0")
      case True
      with that alloc_invD(4) [OF that(1,2)] obtain e where e: "pending_free_epoch (pages b ! i) = Some e"
        by (auto simp: page_ok_def deferred_in_flight_def)
      have "alloc_inv (mark_for_reclaim_if_unowned e i (upd_page i ?dec b))"
        using that dec alloc_invD(4) [OF that(1,2)] by (intro alloc_inv_mark) auto
      with e True that alloc_invD(1) [OF that(1)] show ?thesis
        by (simp add: unmark_one_def Let_def ownership_refs_def)
    next
      case False
      then have "unmark_one i b = upd_page i ?dec b"
        using that alloc_invD(1) [OF that(1)] by (simp add: unmark_one_def Let_def ownership_refs_def)
      moreover have "page_ok (page_size b) (?dec (pages b ! i))"
        using that dec alloc_invD(4) [OF that(1,2)] False by (auto simp: page_ok_def)
      ultimately show ?thesis
        using that alloc_invD(1,3) [OF that(1)] that(2)
        by (intro alloc_inv_pagewise [OF that(1)]) (auto simp: nth_list_update)
    qed
    show "page_step c m (unmarked m)" if "?Q psize m" "page_ok psize m" for psize m c
      using that dec [OF that] page_step_marked [of m "?dec m" psize c]
      by (auto simp: unmarked_def Let_def split: option.split intro: page_step.in_use)
  qed (use inv B pos in \<open>auto simp: unmark_one_simps\<close>)
  with tr pos show ?thesis by (auto simp: unmark_inflight_def not_le [symmetric])
qed

section \<open>Rollback\<close>

definition rolled_back :: "nat \<Rightarrow> PageAllocator \<Rightarrow> PageAllocator" where
  "rolled_back i a =
     (upd_page i (\<lambda>m. freed (current_epoch a) (m\<lparr>reservation_refs := 0\<rparr>)) a)
       \<lparr>ready_free := ready_free a @ [i]\<rparr>"

lemma rollback_one_ok:
  assumes inv: "alloc_inv a" and i: "i < total_pages a"
    and st: "allocation_state (pages a ! i) = RESERVED" "inflight_refs (pages a ! i) = 0"
  shows "rollback_one i a = (Inr (), rolled_back i a)" "alloc_inv (rolled_back i a)"
proof -
  note D = alloc_invD [OF inv]
  let ?b = "rolled_back i a"
  have len: "i < length (pages a)" using D(1) i by simp
  show "rollback_one i a = (Inr (), ?b)"
    using st len D(3,4) [OF i]
    by (simp add: rollback_one_def make_free_ok refs_defs rolled_back_def upd_page_def)
  have pb: "pages ?b = (pages a)[i := freed (current_epoch a) ((pages a ! i)\<lparr>reservation_refs := 0\<rparr>)]"
    by (simp add: rolled_back_def)
  have same: "total_pages ?b = total_pages a" "page_size ?b = page_size a"
    "ready_free ?b = ready_free a @ [i]" "reclaim_heap ?b = reclaim_heap a"
    by (simp_all add: rolled_back_def)
  have ok: "physical_id (pages ?b ! j) = j \<and> page_ok (page_size a) (pages ?b ! j)"
    if "j < total_pages a" for j
    unfolding pb using D(3,4) [OF that] st len
    by (auto simp: nth_list_update refs_defs freed_def)
  have dist: "distinct (ready_free a @ [i])" using st D(5) by (simp add: D(6))
  have free: "set (ready_free a @ [i]) = {j. j < total_pages a \<and> allocation_state (pages ?b ! j) = FREE}"
    unfolding pb using i len by (auto simp: D(6) nth_list_update)
  have "valid_reclaim_entry ?b x = valid_reclaim_entry a x" for x
    using st len by (cases "fst (snd x) = i") (auto simp: valid_reclaim_entry_def same pb)
  then have heap: "set (reclaim_heap a) = {x. valid_reclaim_entry ?b x}" using D(9) by blast
  have len': "length (pages ?b) = total_pages a" unfolding pb using D(1) by simp
  show "alloc_inv ?b"
    by (rule alloc_invI, unfold same) (rule len' D(2,7,8) ok dist free heap | assumption)+
qed

lemma rolled_back_simps:
  "pages (rolled_back i a) = (pages a)[i := freed (current_epoch a) ((pages a ! i)\<lparr>reservation_refs := 0\<rparr>)]"
  "total_pages (rolled_back i a) = total_pages a" "page_size (rolled_back i a) = page_size a"
  "current_epoch (rolled_back i a) = current_epoch a"
  "ready_free (rolled_back i a) = ready_free a @ [i]" "reclaim_heap (rolled_back i a) = reclaim_heap a"
  by (simp_all add: rolled_back_def)

definition can_roll_back :: "PageAllocator \<Rightarrow> nat \<Rightarrow> bool" where
  "can_roll_back a i \<longleftrightarrow>
     i < total_pages a \<and> allocation_state (pages a ! i) = RESERVED \<and> inflight_refs (pages a ! i) = 0"

lemma can_roll_back_other: "k \<noteq> i \<Longrightarrow> can_roll_back (rolled_back i a) k = can_roll_back a k"
  by (simp add: can_roll_back_def rolled_back_simps)

lemma for_each_rollback:
  assumes "alloc_inv a" "distinct is" "\<forall>i\<in>set is. can_roll_back a i"
  shows "for_each rollback_one is a = (Inr (), fold rolled_back is a) \<and>
    alloc_inv (fold rolled_back is a) \<and> total_pages (fold rolled_back is a) = total_pages a \<and>
    page_size (fold rolled_back is a) = page_size a \<and>
    current_epoch (fold rolled_back is a) = current_epoch a \<and>
    ready_free (fold rolled_back is a) = ready_free a @ is \<and>
    (\<forall>j<total_pages a. pages (fold rolled_back is a) ! j =
       (if j \<in> set is then freed (current_epoch a) ((pages a ! j)\<lparr>reservation_refs := 0\<rparr>) else pages a ! j))"
  using assms
proof (induction "is" arbitrary: a)
  case (Cons i "is")
  have i: "i < total_pages a" "allocation_state (pages a ! i) = RESERVED" "inflight_refs (pages a ! i) = 0"
    using Cons.prems by (auto simp: can_roll_back_def)
  note step = rollback_one_ok [OF Cons.prems(1) i]
  have "\<forall>k\<in>set is. can_roll_back (rolled_back i a) k"
    using Cons.prems(2,3) by (metis can_roll_back_other distinct.simps(2) list.set_intros(2))
  with Cons.prems(2) have IH: "for_each rollback_one is (rolled_back i a) = (Inr (), fold rolled_back is (rolled_back i a)) \<and>
    alloc_inv (fold rolled_back is (rolled_back i a)) \<and> total_pages (fold rolled_back is (rolled_back i a)) = total_pages a \<and>
    page_size (fold rolled_back is (rolled_back i a)) = page_size a \<and>
    current_epoch (fold rolled_back is (rolled_back i a)) = current_epoch a \<and>
    ready_free (fold rolled_back is (rolled_back i a)) = (ready_free a @ [i]) @ is \<and>
    (\<forall>j<total_pages a. pages (fold rolled_back is (rolled_back i a)) ! j =
       (if j \<in> set is then freed (current_epoch a) ((pages (rolled_back i a) ! j)\<lparr>reservation_refs := 0\<rparr>)
        else pages (rolled_back i a) ! j))"
    using Cons.IH [OF step(2)] by (simp add: rolled_back_simps)
  have "pages (fold rolled_back is (rolled_back i a)) ! j =
      (if j \<in> set (i # is) then freed (current_epoch a) ((pages a ! j)\<lparr>reservation_refs := 0\<rparr>) else pages a ! j)"
    if "j < total_pages a" for j
    using IH that i Cons.prems(2) alloc_invD(1) [OF Cons.prems(1)]
    by (cases "j = i") (simp_all add: rolled_back_simps)
  with IH step(1) show ?case by simp
qed simp

lemma check_rollback_Inr:
  "check_rollback a is = Inr () \<longleftrightarrow>
     (\<forall>i\<in>set is. inflight_refs (pages a ! i) = 0 \<and> reservation_refs (pages a ! i) = 1)"
  by (induction "is") auto

lemma validate_rollback_Inr:
  assumes "validate_rollback_reserved a hs = Inr is"
  shows "is = map index hs" "distinct hs \<Longrightarrow> distinct is"
    "\<forall>i\<in>set is. i < total_pages a \<and> allocation_state (pages a ! i) = RESERVED \<and>
       inflight_refs (pages a ! i) = 0 \<and> reservation_refs (pages a ! i) = 1"
proof -
  have tr: "traverse (require_state a RESERVED) hs = Inr is" and ok: "check_rollback a is = Inr ()"
    using assms by (auto simp: validate_rollback_reserved_def ebind_Inr_iff)
  note batch = resolved_batch [OF tr, where P = "\<lambda>m. allocation_state m = RESERVED" and a = a]
  show "is = map index hs" "distinct hs \<Longrightarrow> distinct is" using batch(1,3) by (auto simp: require_state_Inr)
  show "\<forall>i\<in>set is. i < total_pages a \<and> allocation_state (pages a ! i) = RESERVED \<and>
       inflight_refs (pages a ! i) = 0 \<and> reservation_refs (pages a ! i) = 1"
    using batch(2) ok by (auto simp: require_state_Inr check_rollback_Inr)
qed

lemma rollback_reserved_advances:
  assumes inv: "alloc_inv a" and "distinct hs"
  shows "advances a (snd (rollback_reserved hs a))"
proof (cases "validate_rollback_reserved a hs")
  case (Inl e)
  then show ?thesis using inv by (simp add: rollback_reserved_def advances_refl)
next
  case (Inr "is")
  note V = validate_rollback_Inr [OF Inr]
  have "distinct is" "\<forall>i\<in>set is. can_roll_back a i" using V assms(2) by (auto simp: can_roll_back_def)
  note F = for_each_rollback [OF inv this]
  have "page_step c (pages a ! j) (pages (fold rolled_back is a) ! j)" if "j < total_pages a" for c j
    using F V(3) that by (auto intro: page_step.idle page_step.rollback)
  with F show ?thesis by (simp add: rollback_reserved_def Inr advances_def)
qed

section \<open>Reclamation and epochs\<close>

lemma reclaimable_refs: "alloc_inv a \<Longrightarrow> i < total_pages a \<Longrightarrow> reclaimable c (pages a ! i) \<Longrightarrow> total_refs (pages a ! i) = 0"
  using alloc_invD(4) [of a i] by (simp add: reclaimable_def page_ok_def refs_ok_def)

lemma reclaimed_advances:
  assumes inv: "alloc_inv a" and r: "reclaimed_to (current_epoch a) a b"
  shows "advances a b"
proof -
  have "page_step (current_epoch a) (pages a ! j) (pages b ! j)" if "j < total_pages a" for j
    using r that reclaimable_refs [OF inv that]
    by (auto simp: reclaimed_to_def intro: page_step.idle page_step.reclaim)
  with r show ?thesis by (simp add: advances_def reclaimed_to_def)
qed

lemma alloc_inv_epoch: "alloc_inv a \<Longrightarrow> alloc_inv (a\<lparr>current_epoch := e\<rparr>)"
  by (simp add: alloc_inv_def valid_reclaim_entry_def)

lemma reclaim_completed_advances:
  assumes inv: "alloc_inv a"
  shows "advances a (snd (reclaim_completed a))"
proof -
  obtain b where "reclaim_completed_locked (current_epoch a) a = (Inr (int (length (due (current_epoch a) a))), b)"
    "reclaimed_to (current_epoch a) a b"
    by (rule reclaim_completed_locked_spec [OF inv])
  with reclaimed_advances [OF inv] show ?thesis by (simp add: reclaim_completed_def)
qed

lemma advance_epoch_advances:
  assumes inv: "alloc_inv a"
  shows "advances a (snd (advance_epoch e a))"
proof (cases "0 \<le> e \<and> current_epoch a \<le> e")
  case False
  then show ?thesis using inv
    by (auto simp: advance_epoch_def validate_epoch_def require_def advances_refl)
next
  case True
  let ?a = "a\<lparr>current_epoch := e\<rparr>"
  have inv': "alloc_inv ?a" using inv by (rule alloc_inv_epoch)
  obtain b where b: "reclaim_completed_locked e ?a = (Inr (int (length (due e ?a))), b)" "reclaimed_to e ?a b"
    by (rule reclaim_completed_locked_spec [OF inv'])
  have "advances ?a b" using reclaimed_advances [OF inv'] b(2) by simp
  with True b(1) show ?thesis
    by (simp add: advance_epoch_def validate_epoch_def require_def advances_def)
qed

section \<open>Allocation\<close>

text \<open>A free page at the start of a new lifetime, as \<open>allocate\<close> leaves it.\<close>

definition started :: "int \<Rightarrow> PageMetadata \<Rightarrow> PageMetadata" where
  "started now m = m\<lparr>generation := generation m + 1, request_refs := 0, cache_refs := 0,
     inflight_refs := 0, pin_refs := 0, valid_tokens := 0, pending_free_epoch := None,
     last_access_epoch := now, allocation_state := RESERVED, reservation_refs := 1\<rparr>"

text \<open>Pages leave the front of the free queue for a state that is neither free nor pending.\<close>

lemma alloc_inv_take:
  assumes inv: "alloc_inv a" and queue: "ready_free a = is @ rest"
    and same: "total_pages b = total_pages a" "page_size b = page_size a" "ready_free b = rest"
      "reclaim_heap b = reclaim_heap a" "length (pages b) = length (pages a)"
    and taken: "\<And>i. i < total_pages a \<Longrightarrow>
      pages b ! i = (if i \<in> set is then h (pages a ! i) else pages a ! i)"
    and h: "\<And>m. allocation_state m = FREE \<Longrightarrow> page_ok (page_size a) m \<Longrightarrow>
      page_ok (page_size a) (h m) \<and> physical_id (h m) = physical_id m \<and>
      allocation_state (h m) \<notin> {FREE, RECLAIM_PENDING}"
  shows "alloc_inv b"
proof -
  note D = alloc_invD [OF inv]
  have was_free: "i < total_pages a \<and> allocation_state (pages a ! i) = FREE" if "i \<in> set is" for i
    using that D(6) [of i] queue by simp
  have disj: "i \<notin> set rest" if "i \<in> set is" for i using that D(5) queue by auto
  have ok: "physical_id (pages b ! i) = i \<and> page_ok (page_size a) (pages b ! i)" if "i < total_pages a" for i
    using taken [OF that] D(3,4) [OF that] h was_free by auto
  have st: "allocation_state (pages b ! i) = FREE \<longleftrightarrow> i \<in> set rest" if "i < total_pages a" for i
    using taken [OF that] D(4,6) [of i] that h was_free disj queue by (cases "i \<in> set is") auto
  have free: "set rest = {i. i < total_pages a \<and> allocation_state (pages b ! i) = FREE}"
    using st D(6) queue by auto
  have "valid_reclaim_entry b x = valid_reclaim_entry a x" for x
  proof (cases "fst (snd x) < total_pages a")
    case True
    then show ?thesis
      using taken [OF True] was_free [of "fst (snd x)"] h D(4) [OF True]
      by (cases "fst (snd x) \<in> set is") (auto simp: valid_reclaim_entry_def same)
  qed (auto simp: valid_reclaim_entry_def same)
  then have heap: "set (reclaim_heap a) = {x. valid_reclaim_entry b x}" using D(9) by blast
  have "distinct rest" "length (pages b) = total_pages a" using D(1,5) queue same by auto
  then show ?thesis
    by (intro alloc_invI, unfold same) (rule D(2,7,8) ok free heap | assumption)+
qed

lemma started_ok:
  assumes "allocation_state m = FREE" "page_ok psize m" "0 < psize"
  shows "page_ok psize (started now m) \<and> physical_id (started now m) = physical_id m \<and>
    allocation_state (started now m) \<notin> {FREE, RECLAIM_PENDING}"
  using assms by (simp add: started_def refs_defs)

lemma allocate_loop_ok:
  assumes "distinct is"
    "\<forall>i\<in>set is. i < length (pages a) \<and> allocation_state (pages a ! i) = FREE \<and>
       generation (pages a ! i) < MAX_HANDLE_GENERATION"
  shows "allocate_loop is a =
    (Inr (map (\<lambda>i. mk_handle i (Suc (generation (pages a ! i)))) is),
     fold (\<lambda>i. upd_page i (started (current_epoch a))) is a)"
  using assms
proof (induction "is" arbitrary: a)
  case (Cons i "is")
  let ?a1 = "upd_page i (started (current_epoch a)) a"
  have i: "i < length (pages a)" "allocation_state (pages a ! i) = FREE"
    "\<not> MAX_HANDLE_GENERATION \<le> generation (pages a ! i)" using Cons.prems by auto
  obtain a0 where r: "reset_for_new_generation i a = (Inr (), a0)"
    "upd_page i (\<lambda>m. m\<lparr>allocation_state := RESERVED, reservation_refs := 1\<rparr>) a0 = ?a1"
    using i by (simp add: reset_for_new_generation_def started_def upd_page_def)
  have other: "i \<noteq> k" if "k \<in> set is" for k using that Cons.prems(1) by auto
  then have "allocate_loop is ?a1 =
    (Inr (map (\<lambda>k. mk_handle k (Suc (generation (pages ?a1 ! k)))) is),
     fold (\<lambda>i. upd_page i (started (current_epoch ?a1))) is ?a1)"
    using Cons.prems by (intro Cons.IH) auto
  moreover have "map (\<lambda>k. mk_handle k (Suc (generation (pages ?a1 ! k)))) is =
    map (\<lambda>k. mk_handle k (Suc (generation (pages a ! k)))) is"
    using other by simp
  ultimately have "allocate_loop is ?a1 =
    (Inr (map (\<lambda>k. mk_handle k (Suc (generation (pages a ! k)))) is),
     fold (\<lambda>i. upd_page i (started (current_epoch a))) is ?a1)" by (simp del: map_eq_conv)
  moreover have "generation (pages ?a1 ! i) = Suc (generation (pages a ! i))"
    using i by (simp add: started_def)
  ultimately show ?case using r by (simp add: Let_def del: upd_page_simps)
qed simp

text \<open>A batch with a page that has used up its generations fails at the first such page.\<close>

lemma allocate_loop_fails:
  assumes "distinct is" "\<forall>i\<in>set is. i < length (pages a) \<and> allocation_state (pages a ! i) = FREE"
    "\<exists>i\<in>set is. MAX_HANDLE_GENERATION \<le> generation (pages a ! i)"
  shows "\<exists>j c. allocate_loop is a = (Inl InvariantViolationError, c) \<and> j \<in> set is \<and>
    MAX_HANDLE_GENERATION \<le> generation (pages a ! j) \<and> pages c ! j = pages a ! j \<and>
    ready_free c = ready_free a \<and> total_pages c = total_pages a \<and> length (pages c) = length (pages a)"
  using assms
proof (induction "is" arbitrary: a)
  case (Cons i "is")
  show ?case
  proof (cases "MAX_HANDLE_GENERATION \<le> generation (pages a ! i)")
    case True
    with Cons.prems(2) show ?thesis by (auto simp: reset_for_new_generation_def)
  next
    case False
    let ?a1 = "upd_page i (started (current_epoch a)) a"
    have i: "i < length (pages a)" "allocation_state (pages a ! i) = FREE" using Cons.prems(2) by auto
    obtain a0 where r: "reset_for_new_generation i a = (Inr (), a0)"
      "upd_page i (\<lambda>m. m\<lparr>allocation_state := RESERVED, reservation_refs := 1\<rparr>) a0 = ?a1"
      using i False by (simp add: reset_for_new_generation_def started_def upd_page_def)
    have other: "i \<noteq> k" if "k \<in> set is" for k using that Cons.prems(1) by auto
    have "\<exists>j c. allocate_loop is ?a1 = (Inl InvariantViolationError, c) \<and> j \<in> set is \<and>
      MAX_HANDLE_GENERATION \<le> generation (pages ?a1 ! j) \<and> pages c ! j = pages ?a1 ! j \<and>
      ready_free c = ready_free ?a1 \<and> total_pages c = total_pages ?a1 \<and> length (pages c) = length (pages ?a1)"
      using Cons.prems other False by (intro Cons.IH) auto
    then obtain j c where c: "allocate_loop is ?a1 = (Inl InvariantViolationError, c)" "j \<in> set is"
      "MAX_HANDLE_GENERATION \<le> generation (pages a ! j)" "pages c ! j = pages a ! j"
      "ready_free c = ready_free a" "total_pages c = total_pages a" "length (pages c) = length (pages a)"
      using other by auto
    then have "allocate_loop (i # is) a = (Inl InvariantViolationError, c)" using r by (simp add: Let_def)
    with c show ?thesis by auto
  qed
qed simp

text \<open>
  The three ways an allocation ends, after eligible pages have been reclaimed: too few
  pages, a full batch, and a batch that contains a page without a generation left, which
  raises after the batch has been taken from the free queue.
\<close>

lemma allocate_cases:
  assumes inv: "alloc_inv a" and n: "0 < n"
  obtains (short) b where "allocate n a = (Inr None, b)" "reclaimed_to (current_epoch a) a b"
      "int (length (ready_free b)) < n" "snd (reclaim_completed a) = b"
  | (full) b c "is" where "reclaimed_to (current_epoch a) a b" "is = take (nat n) (ready_free b)"
      "allocate n a = (Inr (Some (map (\<lambda>i. mk_handle i (Suc (generation (pages a ! i)))) is)), c)"
      "length is = nat n" "distinct is"
      "\<And>i. i \<in> set is \<Longrightarrow> i < total_pages a \<and> allocation_state (pages b ! i) = FREE"
      "\<And>j. j < total_pages a \<Longrightarrow>
         pages c ! j = (if j \<in> set is then started (current_epoch a) (pages b ! j) else pages b ! j)"
      "alloc_inv c" "total_pages c = total_pages a" "page_size c = page_size a"
      "current_epoch c = current_epoch a"
      "snd (reclaim_completed a) = b" "\<And>i. i \<in> set is \<Longrightarrow> generation (pages a ! i) < MAX_HANDLE_GENERATION"
  | (exhausted) b c "is" j where "reclaimed_to (current_epoch a) a b" "is = take (nat n) (ready_free b)"
      "allocate n a = (Inl InvariantViolationError, c)" "length is = nat n" "j \<in> set is" "j < total_pages a"
      "MAX_HANDLE_GENERATION \<le> generation (pages a ! j)" "allocation_state (pages c ! j) = FREE"
      "ready_free c = drop (nat n) (ready_free b)" "j \<notin> set (ready_free c)" "total_pages c = total_pages a"
      "length (pages c) = total_pages a" "snd (reclaim_completed a) = b"
proof -
  obtain b where b: "reclaim_completed_locked (current_epoch a) a = (Inr (int (length (due (current_epoch a) a))), b)"
    "reclaimed_to (current_epoch a) a b"
    by (rule reclaim_completed_locked_spec [OF inv])
  have B: "alloc_inv b" "total_pages b = total_pages a" "page_size b = page_size a"
    "current_epoch b = current_epoch a" using b(2) by (simp_all add: reclaimed_to_def)
  note D = alloc_invD [OF B(1)]
  have gen: "generation (pages b ! j) = generation (pages a ! j)" if "j < total_pages a" for j
    using b(2) that by (simp add: reclaimed_to_def)
  have fin: "snd (reclaim_completed a) = b" using b(1) by (simp add: reclaim_completed_def)
  show thesis
  proof (cases "int (length (ready_free b)) < n")
    case True
    with b n fin show thesis by (intro short) (simp_all add: allocate_def andthen_def)
  next
    case False
    define "is" where "is = take (nat n) (ready_free b)"
    let ?b' = "b\<lparr>ready_free := drop (nat n) (ready_free b)\<rparr>"
    define c where "c = fold (\<lambda>i. upd_page i (started (current_epoch a))) is ?b'"
    have free: "i < total_pages a \<and> allocation_state (pages b ! i) = FREE" if "i \<in> set is" for i
      using that D(6) [of i] B(2) by (auto simp: is_def dest: in_set_takeD)
    have dist: "distinct is" "length is = nat n" using D(5) False by (simp_all add: is_def)
    show thesis
    proof (cases "\<exists>i\<in>set is. MAX_HANDLE_GENERATION \<le> generation (pages a ! i)")
      case True
      have "\<exists>j c. allocate_loop is ?b' = (Inl InvariantViolationError, c) \<and> j \<in> set is \<and>
        MAX_HANDLE_GENERATION \<le> generation (pages ?b' ! j) \<and> pages c ! j = pages ?b' ! j \<and>
        ready_free c = ready_free ?b' \<and> total_pages c = total_pages ?b' \<and> length (pages c) = length (pages ?b')"
        using True dist free gen D(1) B(2) by (intro allocate_loop_fails) auto
      then obtain j c where J: "allocate_loop is ?b' = (Inl InvariantViolationError, c)" "j \<in> set is"
        "MAX_HANDLE_GENERATION \<le> generation (pages b ! j)" "pages c ! j = pages b ! j"
        "ready_free c = drop (nat n) (ready_free b)" "total_pages c = total_pages b" "length (pages c) = length (pages b)"
        by auto
      have "allocate n a = (Inl InvariantViolationError, c)"
        using n b(1) False J(1) by (simp add: allocate_def andthen_def is_def)
      moreover have "j \<notin> set (ready_free c)"
        using J(2,5) D(5) distinct_append [of "take (nat n) (ready_free b)" "drop (nat n) (ready_free b)"]
        by (auto simp: is_def)
      ultimately show thesis
        using b(2) J free [OF J(2)] gen B(2) D(1) dist(2) fin by (intro exhausted [of b "is" c j]) (simp_all add: is_def)
    next
      case roomy: False
      have loop: "allocate_loop is ?b' =
          (Inr (map (\<lambda>i. mk_handle i (Suc (generation (pages a ! i)))) is), c)"
      proof -
        have "\<forall>i\<in>set is. i < length (pages ?b') \<and> allocation_state (pages ?b' ! i) = FREE \<and>
           generation (pages ?b' ! i) < MAX_HANDLE_GENERATION"
          using free D(1) B(2) gen roomy by (auto simp: not_le)
        from allocate_loop_ok [OF dist(1) this] show ?thesis
          using free gen B(4) by (simp add: c_def)
      qed
      have pages: "pages c ! j = (if j \<in> set is then started (current_epoch a) (pages b ! j) else pages b ! j)"
        if "j < total_pages a" for j
        using fold_pages [of "\<lambda>i. upd_page i (started (current_epoch a))" "started (current_epoch a)" "is" ?b' j]
          dist free that D(1) B(2) by (simp add: c_def)
      have frame: "total_pages c = total_pages a" "page_size c = page_size a" "current_epoch c = current_epoch a"
        "ready_free c = drop (nat n) (ready_free b)" "reclaim_heap c = reclaim_heap b"
        "length (pages c) = length (pages b)"
        unfolding c_def by (subst fold_fixpoint; simp add: B)+
      have "alloc_inv c"
        by (rule alloc_inv_take [OF B(1), of "is" "drop (nat n) (ready_free b)" c "started (current_epoch a)"])
           (use frame B pages started_ok D(2) in \<open>auto simp: is_def\<close>)
      moreover have "allocate n a = (Inr (Some (map (\<lambda>i. mk_handle i (Suc (generation (pages a ! i)))) is)), c)"
        using n b(1) False loop by (simp add: allocate_def andthen_def is_def)
      ultimately show thesis
        using b(2) dist free pages frame fin roomy by (intro full [of b "is" c]) (simp_all add: is_def not_le)
    qed
  qed
qed

text \<open>With generations left on every page the third case does not arise.\<close>

lemma allocate_spec:
  assumes inv: "alloc_inv a" and room: "gen_room a" and n: "0 < n"
  obtains (short) b where "allocate n a = (Inr None, b)" "reclaimed_to (current_epoch a) a b"
      "int (length (ready_free b)) < n"
  | (full) b c "is" where "reclaimed_to (current_epoch a) a b" "is = take (nat n) (ready_free b)"
      "allocate n a = (Inr (Some (map (\<lambda>i. mk_handle i (Suc (generation (pages a ! i)))) is)), c)"
      "length is = nat n" "distinct is"
      "\<And>i. i \<in> set is \<Longrightarrow> i < total_pages a \<and> allocation_state (pages b ! i) = FREE"
      "\<And>j. j < total_pages a \<Longrightarrow>
         pages c ! j = (if j \<in> set is then started (current_epoch a) (pages b ! j) else pages b ! j)"
      "alloc_inv c" "total_pages c = total_pages a" "page_size c = page_size a"
      "current_epoch c = current_epoch a"
proof (cases rule: allocate_cases [OF inv n])
  case (1 b)
  then show thesis by (intro short)
next
  case (2 b c "is")
  show thesis by (rule full [of b "is" c]) (rule 2 | assumption)+
next
  case (3 b c "is" j)
  have "pages a ! j \<in> set (pages a)" using 3(6) alloc_invD(1) [OF inv] by simp
  with room 3(7) show thesis by (auto simp: gen_room_def)
qed

lemma reclaim_then_start_started:
  assumes "reclaimable c m" "total_refs m = 0"
  shows "reclaim_then_start c m (started now (freed c m))"
  unfolding reclaim_then_start_def
proof (intro conjI exI)
  show "page_step c m (freed c m)" using assms by (intro page_step.reclaim) simp_all
  show "page_step c (freed c m) (started now (freed c m))" by (intro page_step.start) (simp_all add: started_def)
qed (use assms in \<open>simp_all add: reclaimable_def started_def\<close>)

lemma allocate_moves:
  assumes inv: "alloc_inv a" and room: "gen_room a"
  shows "moves a (snd (allocate n a))"
proof (cases "0 < n")
  case False
  then show ?thesis using inv by (auto simp: allocate_def advances_refl advances_moves)
next
  case True
  show ?thesis
  proof (cases rule: allocate_spec [OF inv room True])
    case (1 b)
    then show ?thesis using reclaimed_advances [OF inv] by (simp add: advances_moves)
  next
    case (2 b c "is")
    have "page_move (current_epoch a) (pages a ! j) (pages c ! j)" if j: "j < total_pages a" for j
    proof -
      let ?m = "pages a ! j"
      have refs: "reclaimable (current_epoch a) ?m \<Longrightarrow> total_refs ?m = 0" by (rule reclaimable_refs [OF inv j])
      have b: "pages b ! j = (if reclaimable (current_epoch a) ?m then freed (current_epoch a) ?m else ?m)"
        using 2(1) j by (simp add: reclaimed_to_def)
      show ?thesis
      proof (cases "j \<in> set is")
        case True
        then have c: "pages c ! j = started (current_epoch a) (pages b ! j)" "allocation_state (pages b ! j) = FREE"
          using 2(6,7) [of j] j by simp_all
        show ?thesis
        proof (cases "reclaimable (current_epoch a) ?m")
          case True
          with refs b c show ?thesis by (simp add: page_move_def reclaim_then_start_started)
        next
          case False
          with b c show ?thesis by (simp add: page_move_def page_step.start started_def)
        qed
      next
        case False
        with 2(7) [OF j] b refs show ?thesis by (simp add: page_move_def page_step.idle page_step.reclaim)
      qed
    qed
    with 2 show ?thesis by (simp add: moves_def)
  qed
qed

lemma reserve_permanent_page_advances:
  assumes inv: "alloc_inv a" and room: "gen_room a"
  shows "advances a (snd (reserve_permanent_page a))"
proof (cases "ready_free a")
  case Nil
  then show ?thesis using inv by (simp add: reserve_permanent_page_def advances_refl)
next
  case (Cons i rest)
  note D = alloc_invD [OF inv]
  have i: "i < total_pages a" "allocation_state (pages a ! i) = FREE" using D(6) [of i] Cons by auto
  have g: "\<not> MAX_HANDLE_GENERATION \<le> generation (pages a ! i)"
    using room i D(1) by (auto simp: gen_room_def not_le)
  let ?h = "\<lambda>m. m\<lparr>generation := generation m + 1, request_refs := 0, cache_refs := 0,
     reservation_refs := 0, inflight_refs := 0, pin_refs := 0, pending_free_epoch := None,
     last_access_epoch := current_epoch a, allocation_state := PERMANENT, valid_tokens := page_size a\<rparr>"
  define b where "b = snd (reserve_permanent_page a)"
  have b: "b = (upd_page i ?h a)\<lparr>ready_free := rest\<rparr>"
    using i g D(1) Cons
    by (cases a) (simp add: b_def reserve_permanent_page_def andthen_def reset_for_new_generation_def
        upd_page_def Let_def)
  have "page_step c (pages a ! j) (pages b ! j)" if "j < total_pages a" for c j
    using i D(1) by (cases "j = i") (auto simp: b intro: page_step.idle page_step.start)
  moreover have "alloc_inv b"
    by (rule alloc_inv_take [OF inv, of "[i]" rest b ?h])
       (use Cons D(1,2) i in \<open>auto simp: b nth_list_update started_def refs_defs\<close>)
  ultimately show ?thesis by (fold b_def) (simp add: advances_def, simp add: b)
qed

section \<open>Every operation\<close>

lemma page_exec_advances:
  assumes "alloc_inv a" "page_legal x a" "\<forall>n. x \<noteq> Op_Allocate n"
  shows "advances a (snd (page_exec x a))"
  using assms
  by (cases x) (simp_all add: reserve_permanent_page_advances commit_reserved_advances
      rollback_reserved_advances abandon_reserved_advances mark_inflight_advances unmark_inflight_advances
      set_valid_tokens_advances acquire_request_ref_advances release_request_ref_advances
      acquire_cache_ref_advances release_cache_ref_advances pin_page_advances unpin_page_advances
      advance_epoch_advances reclaim_completed_advances)

lemma page_exec_moves:
  assumes "alloc_inv a" "page_legal x a"
  shows "moves a (snd (page_exec x a))"
proof (cases "\<exists>n. x = Op_Allocate n")
  case True
  with assms show ?thesis by (auto simp: allocate_moves)
next
  case False
  with page_exec_advances [OF assms] show ?thesis by (blast intro: advances_moves)
qed

interpretation page_alloc: guarded_system page_exec page_legal alloc_inv
  by unfold_locales (rule page_exec_moves [THEN moves_inv])

lemma PageAllocator_init_inv: "PageAllocator_init n psize = Inr a \<Longrightarrow> alloc_inv a"
  by (auto simp: PageAllocator_init_def alloc_inv_def fresh_page_def refs_defs valid_reclaim_entry_def
      split: if_splits)

end
