(* ===== verification/Page_Properties.thy ===== *)
theory Page_Properties
  imports Page_Lifecycle
begin

text \<open>
  What the page allocator promises its callers: the debug check passes in every reachable
  state, pages move only along the documented lifecycle, allocation hands out pages nobody
  uses, stale handles never come back to life, reclamation frees exactly what is due, and
  which calls that raise change something: an allocation that meets a page without a
  generation left, and a rollback that names a page twice.
\<close>

section \<open>The debug check\<close>

lemma card_pending_heap:
  assumes inv: "alloc_inv a"
  shows "length (reclaim_heap a) = length (filter (\<lambda>m. allocation_state m = RECLAIM_PENDING) (pages a))"
proof -
  note D = alloc_invD [OF inv]
  let ?I = "{i. i < length (pages a) \<and> allocation_state (pages a ! i) = RECLAIM_PENDING}"
  let ?f = "\<lambda>i. (the (pending_free_epoch (pages a ! i)), i, generation (pages a ! i))"
  have "pending_free_epoch (pages a ! i) \<noteq> None" if "i \<in> ?I" for i
    using that D(1) D(4) [of i] by (simp add: page_ok_def refs_ok_def)
  then have "set (reclaim_heap a) = ?f ` ?I"
    using D(1) by (force simp: D(9) valid_reclaim_entry_def)
  then have "card (set (reclaim_heap a)) = card ?I"
    by (simp add: card_image inj_on_def)
  with D(8) show ?thesis by (simp add: distinct_card length_filter_conv_card)
qed

lemma state_partition:
  "length (filter (\<lambda>m. allocation_state m = FREE) ms) + length (filter (\<lambda>m. allocation_state m = RESERVED) ms)
   + length (filter (\<lambda>m. allocation_state m = LIVE) ms)
   + length (filter (\<lambda>m. allocation_state m = RECLAIM_PENDING) ms)
   + length (filter (\<lambda>m. allocation_state m = PERMANENT) ms) = length ms"
proof (induction ms)
  case (Cons m ms)
  then show ?case by (cases "allocation_state m") simp_all
qed simp

lemma check_page_ok:
  assumes inv: "alloc_inv a" and i: "i < total_pages a"
  shows "check_page a (i, pages a ! i) = Inr ()"
  using alloc_invD(4,6) [OF inv, of i] i
  by (auto simp: check_page_def refs_defs split: PageAllocationState.splits)

lemma assert_invariants_ok:
  assumes inv: "alloc_inv a"
  shows "assert_invariants a = Inr ()"
proof -
  note D = alloc_invD [OF inv]
  have heap: "filter (valid_reclaim_entry a) (reclaim_heap a) = reclaim_heap a"
    by (simp add: filter_id_conv D(9))
  have "\<exists>us. traverse (check_page a) (enumerate 0 (pages a)) = Inr us"
    using check_page_ok [OF inv] D(1) by (intro traverse_total) (auto simp: in_set_enumerate_eq)
  then obtain us where "traverse (check_page a) (enumerate 0 (pages a)) = Inr us" ..
  moreover have "int (length (reclaim_heap a)) = count_pages (\<lambda>m. allocation_state m = RECLAIM_PENDING) a"
    using card_pending_heap [OF inv] by (simp add: count_pages_def)
  ultimately show ?thesis
    using D(1,5,8) state_partition [of "pages a"]
    by (simp add: assert_invariants_def Let_def heap distinct_remdups_id snapshot_def count_pages_def)
qed

section \<open>Stale handles\<close>

definition handle_resolves :: "PageAllocator \<Rightarrow> KVPageHandle \<Rightarrow> bool" where
  "handle_resolves a h = (case get_meta a h of Inl _ \<Rightarrow> False | Inr _ \<Rightarrow> True)"

definition page_reach :: "PageAllocator \<Rightarrow> PageAllocator \<Rightarrow> bool" where
  "page_reach a b \<longleftrightarrow> (\<exists>x. page_legal x a \<and> b = snd (page_exec x a))"

lemma page_step_generation:
  assumes "page_step c m m'"
  shows "generation m \<le> generation m'"
    "allocation_state m = FREE \<Longrightarrow> allocation_state m' \<noteq> FREE \<Longrightarrow> generation m < generation m'"
  using assms by (induction rule: page_step.induct) (auto simp: reclaimable_def)

lemma page_move_generation:
  assumes "page_move c m m'"
  shows "generation m \<le> generation m'"
    "allocation_state m = FREE \<Longrightarrow> allocation_state m' \<noteq> FREE \<Longrightarrow> generation m < generation m'"
  using assms page_step_generation [of c]
  by (auto simp: page_move_def reclaim_then_start_def intro: order_trans)

interpretation page_gens: generation_table
    "\<lambda>a i. if i < total_pages a then generation (pages a ! i) else 0"
    "\<lambda>a i. i < total_pages a \<and> allocation_state (pages a ! i) \<noteq> FREE"
    "\<lambda>a i g. handle_resolves a (mk_handle i g)" page_reach alloc_inv
proof (unfold_locales, goal_cases)
  case (1 a i g)
  then show ?case by (auto simp: handle_resolves_def get_meta_def mk_handle_def Let_def)
next
  case (2 a b)
  then show ?case by (auto simp: page_reach_def intro: page_exec_moves [THEN moves_inv])
next
  case (3 a b i)
  then have "moves a b" by (auto simp: page_reach_def intro: page_exec_moves)
  then show ?case by (auto simp: moves_def dest: page_move_generation(1))
next
  case (4 a b i)
  then have "moves a b" by (auto simp: page_reach_def intro: page_exec_moves)
  with 4 show ?case by (auto simp: moves_def dest: page_move_generation(2))
qed

lemma run_reaches: "legal_run page_exec page_legal xs a \<Longrightarrow> page_reach\<^sup>*\<^sup>* a (run_ops page_exec xs a)"
proof (induction xs arbitrary: a)
  case (Cons x xs)
  then have "page_reach a (snd (page_exec x a))" by (auto simp: page_reach_def)
  with Cons show ?case by (auto intro: converse_rtranclp_into_rtranclp)
qed simp

section \<open>Properties\<close>

text \<open>
  C1. The allocator's own debug check never fires: start from a freshly constructed
  allocator and issue any sequence of public operations (which may raise) whose batches
  name each reserved page at most once, taking pages only while they have generations left;
  \<open>assert_invariants\<close> then returns normally.  This
  covers the free queue, the reclaim heap, every reference count, the token bounds and the
  partition of the pages over the lifecycle states.
\<close>

theorem allocator_invariants_hold:
  assumes "PageAllocator_init n psize = Inr a" "legal_run page_exec page_legal ops a"
  shows "assert_invariants (run_ops page_exec ops a) = Inr ()"
  using assms by (intro assert_invariants_ok page_alloc.run_inv) (rule PageAllocator_init_inv)

text \<open>Evaluation compares generations as integers, whose numerals compute.\<close>

lemma below_max_generation: "g < MAX_HANDLE_GENERATION \<longleftrightarrow> int g < 9223372036854775807"
  by (simp add: MAX_HANDLE_GENERATION_def)

lemma gen_room_code [code]:
  "gen_room a \<longleftrightarrow> list_all (\<lambda>m. int (generation m) < 9223372036854775807) (pages a)"
  by (simp add: gen_room_def below_max_generation list_all_iff)

lemma reset_for_new_generation_code [code]:
  "reset_for_new_generation i a =
     (if allocation_state (pages a ! i) \<noteq> FREE then (Inl InvariantViolationError, a)
      else if \<not> int (generation (pages a ! i)) < 9223372036854775807 then (Inl InvariantViolationError, a)
      else (Inr (), upd_page i (\<lambda>m. m\<lparr>generation := generation m + 1,
              request_refs := 0, cache_refs := 0, reservation_refs := 0, inflight_refs := 0,
              pin_refs := 0, valid_tokens := 0, pending_free_epoch := None,
              last_access_epoch := current_epoch a\<rparr>) a))"
  by (simp add: reset_for_new_generation_def MAX_HANDLE_GENERATION_def)

definition sample_ops :: "page_op list" where
  "sample_ops =
     [Op_Allocate 2, Op_Mark [mk_handle 0 1, mk_handle 1 1], Op_Commit [mk_handle 0 1],
      Op_Abandon [mk_handle 1 1] 3, Op_Release_Request (mk_handle 0 1) 2,
      Op_Unmark [mk_handle 0 1, mk_handle 1 1], Op_Advance 2, Op_Allocate 2, Op_Rollback [mk_handle 2 1]]"

definition sample_allocator :: PageAllocator where
  "sample_allocator =
     \<lparr>total_pages = 3, page_size = 16, pages = map fresh_page [0..<3], ready_free = [0..<3],
      reclaim_heap = [], current_epoch = 0, reclaimed_pages_total = 0\<rparr>"

lemma sample_init: "PageAllocator_init 3 16 = Inr sample_allocator"
  by (simp add: PageAllocator_init_def sample_allocator_def)

lemma sample_legal: "legal_run page_exec page_legal sample_ops sample_allocator"
  by code_simp

theorem allocator_invariants_hold_witness:
  "assert_invariants (run_ops page_exec sample_ops sample_allocator) = Inr ()"
  by (rule allocator_invariants_hold [OF sample_init sample_legal])

text \<open>
  C3. Pages move along the documented lifecycle.  Take any public operation, with generations
  left on the pages when it takes some and a batch that names no handle twice.  It moves
  each page by at most one documented edge: a page leaves \<open>FREE\<close> only for a new generation,
  a reservation is rolled back only when no launched step uses it, a page is deferred only
  when nothing references it any more, and it is freed only when it is unreferenced and its
  safe epoch has completed.  The one exception is \<open>allocate\<close>, which may take a page along
  two edges: it reclaims a due page to \<open>FREE\<close> and reserves it for a new generation in the
  same call.  The completed epoch never moves backwards.
\<close>

theorem page_lifecycle_respected:
  assumes "alloc_inv a" "page_legal x a" "i < total_pages a" and b: "b = snd (page_exec x a)"
  shows "(page_step (current_epoch b) (pages a ! i) (pages b ! i) \<or>
      (\<exists>n mid. x = Op_Allocate n \<and>
         allocation_state (pages a ! i) = RECLAIM_PENDING \<and> page_step (current_epoch b) (pages a ! i) mid \<and>
         allocation_state mid = FREE \<and> page_step (current_epoch b) mid (pages b ! i) \<and>
         allocation_state (pages b ! i) = RESERVED)) \<and>
    current_epoch a \<le> current_epoch b"
proof (cases "\<exists>n. x = Op_Allocate n")
  case True
  then show ?thesis
    using page_exec_moves [OF assms(1,2)] assms(3)
    by (auto simp: b moves_def page_move_def reclaim_then_start_def)
next
  case False
  then show ?thesis using page_exec_advances [OF assms(1,2)] assms(3) by (simp add: b advances_def)
qed

theorem page_lifecycle_respected_witness:
  "\<exists>b. b = snd (page_exec (Op_Rollback [mk_handle 0 1]) (snd (allocate 2 sample_allocator))) \<and>
     page_step (current_epoch b) (pages (snd (allocate 2 sample_allocator)) ! 0) (pages b ! 0)"
proof -
  let ?a = "run_ops page_exec [Op_Allocate 2] sample_allocator"
  let ?b = "snd (page_exec (Op_Rollback [mk_handle 0 1]) ?a)"
  have inv: "alloc_inv ?a"
    by (rule page_alloc.run_inv [OF PageAllocator_init_inv [OF sample_init]]) code_simp
  have lt: "0 < total_pages ?a" by code_simp
  have legal: "page_legal (Op_Rollback [mk_handle 0 1]) ?a" by simp
  have "page_step (current_epoch ?b) (pages ?a ! 0) (pages ?b ! 0)"
    using page_lifecycle_respected [OF inv legal lt refl] by blast
  then show ?thesis by simp
qed

text \<open>
  C2. Memory safety of reuse, for a client that holds a handle.  Whatever operation runs
  next (with generations left on the pages it takes and a batch that names no handle
  twice), a handle of a \<open>LIVE\<close> page still resolves to that page afterwards, and a page that
  waits for epoch \<open>e\<close> is left exactly as it is unless epoch \<open>e\<close> has completed.
\<close>

theorem no_premature_reuse:
  assumes "alloc_inv a" "page_legal x a"
  shows "(require_state a LIVE h = Inr i \<longrightarrow> get_meta (snd (page_exec x a)) h = Inr i) \<and>
    (require_state a RECLAIM_PENDING h = Inr i \<and> pending_free_epoch (pages a ! i) = Some e \<and>
       current_epoch (snd (page_exec x a)) < e \<longrightarrow> pages (snd (page_exec x a)) ! i = pages a ! i)"
proof (intro conjI impI)
  note adv = page_exec_moves [OF assms]
  assume "require_state a LIVE h = Inr i"
  then have h: "i = index h" "i < total_pages a" "generation (pages a ! i) = handle_generation h"
    "allocation_state (pages a ! i) = LIVE" by (auto simp: require_state_Inr)
  with adv have "page_step (current_epoch (snd (page_exec x a))) (pages a ! i) (pages (snd (page_exec x a)) ! i)"
    by (auto simp: moves_def page_move_def reclaim_then_start_def)
  then show "get_meta (snd (page_exec x a)) h = Inr i"
    using h adv by (cases rule: page_step.cases) (auto simp: get_meta_Inr moves_def reclaimable_def)
next
  note adv = page_exec_moves [OF assms]
  assume "require_state a RECLAIM_PENDING h = Inr i \<and> pending_free_epoch (pages a ! i) = Some e \<and>
       current_epoch (snd (page_exec x a)) < e"
  then have h: "i < total_pages a" "allocation_state (pages a ! i) = RECLAIM_PENDING"
    "pending_free_epoch (pages a ! i) = Some e" "current_epoch (snd (page_exec x a)) < e"
    by (auto simp: require_state_Inr)
  with adv have "page_move (current_epoch (snd (page_exec x a))) (pages a ! i) (pages (snd (page_exec x a)) ! i)"
    by (simp add: moves_def)
  then show "pages (snd (page_exec x a)) ! i = pages a ! i"
    using h by (auto simp: page_move_def reclaim_then_start_def reclaimable_def elim!: page_step.cases)
qed

definition sample_live :: PageAllocator where
  "sample_live = run_ops page_exec (take 5 sample_ops) sample_allocator"

lemma sample_live_inv: "alloc_inv sample_live"
  unfolding sample_live_def
  by (rule page_alloc.run_inv [OF PageAllocator_init_inv [OF sample_init]]) code_simp

theorem no_premature_reuse_witness:
  "require_state sample_live LIVE (mk_handle 0 1) = Inr 0 \<and>
   get_meta (snd (page_exec (Op_Advance 1) sample_live)) (mk_handle 0 1) = Inr 0"
proof -
  have live: "require_state sample_live LIVE (mk_handle 0 1) = Inr 0" by code_simp
  moreover have "page_legal (Op_Advance 1) sample_live" by simp
  ultimately show ?thesis using no_premature_reuse [OF sample_live_inv, of "Op_Advance 1" "mk_handle 0 1" 0] by blast
qed

text \<open>
  C4. A handle that does not resolve now, of a generation the slot has already reached,
  never resolves again: no sequence of allocator operations makes a stale page handle
  name a page, however often the slot is reused.
\<close>

theorem stale_page_handle_stays_stale:
  assumes "alloc_inv a" "legal_run page_exec page_legal ops a" "i < total_pages a"
    "g \<le> generation (pages a ! i)" "\<not> handle_resolves a (mk_handle i g)"
  shows "\<not> handle_resolves (run_ops page_exec ops a) (mk_handle i g)"
  using page_gens.stale_forever [OF run_reaches [OF assms(2)] assms(1), of g i] assms(3-5) by simp

definition sample_done :: PageAllocator where
  "sample_done = run_ops page_exec sample_ops sample_allocator"

theorem stale_page_handle_stays_stale_witness:
  "\<not> handle_resolves (run_ops page_exec [Op_Allocate 1, Op_Advance 5] sample_done) (mk_handle 2 1)"
proof (rule stale_page_handle_stays_stale)
  show "alloc_inv sample_done"
    unfolding sample_done_def
    by (rule page_alloc.run_inv [OF PageAllocator_init_inv [OF sample_init] sample_legal])
qed code_simp+

section \<open>Allocation\<close>

definition available :: "PageAllocator \<Rightarrow> nat \<Rightarrow> bool" where
  "available a i \<longleftrightarrow> allocation_state (pages a ! i) = FREE \<or> reclaimable (current_epoch a) (pages a ! i)"

lemma available_unreferenced: "alloc_inv a \<Longrightarrow> i < total_pages a \<Longrightarrow> available a i \<Longrightarrow> total_refs (pages a ! i) = 0"
  using alloc_invD(4) [of a i] reclaimable_refs by (auto simp: available_def page_ok_def refs_ok_def)

lemma available_after_reclaim:
  assumes "alloc_inv a" "reclaimed_to (current_epoch a) a b" "i < total_pages a"
  shows "allocation_state (pages b ! i) = FREE \<longleftrightarrow> available a i"
  using assms by (auto simp: reclaimed_to_def available_def)

lemma ready_free_card:
  assumes "alloc_inv b"
  shows "length (ready_free b) = card {i. i < total_pages b \<and> allocation_state (pages b ! i) = FREE}"
proof -
  have "set (ready_free b) = {i. i < total_pages b \<and> allocation_state (pages b ! i) = FREE}"
    using assms by (simp add: alloc_inv_def)
  with distinct_card [OF alloc_invD(5) [OF assms]] show ?thesis by simp
qed

text \<open>
  C8. While pages have generations left, a successful \<open>allocate\<close> hands out exactly as many handles as asked for, of distinct
  pages.  Each of these pages was unreferenced and either free or past its safe epoch; its
  handle now resolves to a \<open>RESERVED\<close> page of a new generation with one reservation
  reference and nothing else.  Of the other pages a positive request changes exactly those
  past their safe epoch: they have been reclaimed and are free.
\<close>

theorem allocate_fresh_pages:
  assumes inv: "alloc_inv a" "gen_room a" and ok: "allocate n a = (Inr (Some hs), b)"
  shows "length hs = nat n \<and> distinct (map index hs) \<and>
    (\<forall>h\<in>set hs. index h < total_pages a \<and> available a (index h) \<and> total_refs (pages a ! index h) = 0 \<and>
       require_state b RESERVED h = Inr (index h) \<and>
       handle_generation h = Suc (generation (pages a ! index h)) \<and>
       reservation_refs (pages b ! index h) = 1 \<and> total_refs (pages b ! index h) = 1 \<and>
       valid_tokens (pages b ! index h) = 0) \<and>
    (0 < n \<longrightarrow> (\<forall>i<total_pages a. i \<notin> index ` set hs \<longrightarrow>
       pages b ! i = (if reclaimable (current_epoch a) (pages a ! i) then freed (current_epoch a) (pages a ! i)
                      else pages a ! i)))"
proof (cases "0 < n")
  case False
  with ok show ?thesis by (auto simp: allocate_def split: if_splits)
next
  case True
  show ?thesis
  proof (cases rule: allocate_spec [OF inv True])
    case (1 b)
    with ok show ?thesis by simp
  next
    case (2 b' c "is")
    have hs: "hs = map (\<lambda>i. mk_handle i (Suc (generation (pages a ! i)))) is" and c: "c = b"
      using 2(3) ok by auto
    have idx: "map index hs = is" by (simp add: hs mk_handle_def comp_def)
    have gen: "generation (pages b' ! i) = generation (pages a ! i)" if "i < total_pages a" for i
      using 2(1) that by (simp add: reclaimed_to_def)
    have each: "i < total_pages a \<and> available a i \<and> total_refs (pages a ! i) = 0 \<and>
       pages b ! i = started (current_epoch a) (pages b' ! i)" if "i \<in> set is" for i
      using 2(6,7) [of i] that available_after_reclaim [OF inv(1) 2(1)] available_unreferenced [OF inv(1)] c
      by auto
    have "\<forall>h\<in>set hs. index h < total_pages a \<and> available a (index h) \<and> total_refs (pages a ! index h) = 0 \<and>
       require_state b RESERVED h = Inr (index h) \<and>
       handle_generation h = Suc (generation (pages a ! index h)) \<and>
       reservation_refs (pages b ! index h) = 1 \<and> total_refs (pages b ! index h) = 1 \<and>
       valid_tokens (pages b ! index h) = 0"
      using each gen 2(9) c
      by (auto simp: hs mk_handle_def require_state_Inr started_def total_refs_def ownership_refs_def)
    moreover have "pages b ! i = (if reclaimable (current_epoch a) (pages a ! i) then freed (current_epoch a) (pages a ! i)
                      else pages a ! i)"
      if "i < total_pages a" "i \<notin> index ` set hs" for i
      using 2(1) 2(7) [OF that(1)] that idx c by (auto simp: reclaimed_to_def)
    moreover have "length hs = nat n" "distinct (map index hs)" using 2(4,5) idx by (simp_all add: hs)
    ultimately show ?thesis by blast
  qed
qed

lemma allocate_sample: "fst (allocate 2 sample_allocator) = Inr (Some [mk_handle 0 1, mk_handle 1 1])"
  by code_simp

theorem allocate_fresh_pages_witness:
  "\<exists>b. allocate 2 sample_allocator = (Inr (Some [mk_handle 0 1, mk_handle 1 1]), b) \<and>
     require_state b RESERVED (mk_handle 1 1) = Inr 1 \<and> available sample_allocator 1"
proof -
  have inv: "alloc_inv sample_allocator" by (rule PageAllocator_init_inv [OF sample_init])
  have room: "gen_room sample_allocator" by code_simp
  obtain b where b: "allocate 2 sample_allocator = (Inr (Some [mk_handle 0 1, mk_handle 1 1]), b)"
    using surjective_pairing [of "allocate 2 sample_allocator"] by (metis (no_types) allocate_sample)
  from allocate_fresh_pages [OF inv room b] b show ?thesis by (auto simp: mk_handle_def)
qed

text \<open>The pages an allocation takes: the front of the free queue once due pages are reclaimed.\<close>

definition allocation_batch :: "int \<Rightarrow> PageAllocator \<Rightarrow> nat list" where
  "allocation_batch n a = take (nat n) (ready_free (snd (reclaim_completed a)))"

definition used_up :: "PageAllocator \<Rightarrow> nat \<Rightarrow> bool" where
  "used_up a i \<longleftrightarrow> MAX_HANDLE_GENERATION \<le> generation (pages a ! i)"

lemma used_up_code [code]: "used_up a i \<longleftrightarrow> \<not> int (generation (pages a ! i)) < 9223372036854775807"
  by (simp add: used_up_def MAX_HANDLE_GENERATION_def not_less)

lemma available_card:
  assumes "alloc_inv a" "reclaimed_to (current_epoch a) a b"
  shows "length (ready_free b) = card {i. i < total_pages a \<and> available a i}"
proof -
  have "total_pages b = total_pages a" "alloc_inv b" using assms(2) by (simp_all add: reclaimed_to_def)
  with ready_free_card [of b] available_after_reclaim [OF assms] show ?thesis by (simp cong: conj_cong)
qed

text \<open>
  C9. What \<open>allocate\<close> returns, for every argument.  A negative count raises \<open>ValueError\<close>
  and zero gives the empty batch, both without touching the allocator.  For a positive
  count it returns \<open>None\<close> precisely when fewer pages than requested are free or reclaimable
  at the current epoch, and then no page has changed except by reclamation; it raises
  precisely when there are enough pages but one of the batch has used up its generations.
\<close>

theorem allocate_outcome:
  assumes inv: "alloc_inv a"
  shows "(n < 0 \<longrightarrow> allocate n a = (Inl ValueError, a)) \<and> (n = 0 \<longrightarrow> allocate n a = (Inr (Some []), a)) \<and>
    (0 < n \<longrightarrow>
      (fst (allocate n a) = Inr None \<longleftrightarrow> int (card {i. i < total_pages a \<and> available a i}) < n) \<and>
      ((\<exists>e. fst (allocate n a) = Inl e) \<longleftrightarrow>
         n \<le> int (card {i. i < total_pages a \<and> available a i}) \<and> (\<exists>i\<in>set (allocation_batch n a). used_up a i))) \<and>
    (fst (allocate n a) = Inr None \<longrightarrow> (\<forall>i<total_pages a.
       pages (snd (allocate n a)) ! i =
         (if reclaimable (current_epoch a) (pages a ! i) then freed (current_epoch a) (pages a ! i)
          else pages a ! i)))"
proof (cases "0 < n")
  case False
  then show ?thesis by (auto simp: allocate_def)
next
  case n: True
  note card = available_card [OF inv]
  show ?thesis
  proof (cases rule: allocate_cases [OF inv n])
    case (1 b)
    with card [OF 1(2)] n show ?thesis by (simp add: reclaimed_to_def)
  next
    case (2 b c "is")
    from 2(2,4) n have "n \<le> int (length (ready_free b))" by (simp add: min_def split: if_splits)
    moreover have "\<not> (\<exists>i\<in>set (allocation_batch n a). used_up a i)"
      using 2(13) by (auto simp: allocation_batch_def used_up_def 2(12) 2(2) [symmetric] not_le)
    ultimately show ?thesis using 2(3) card [OF 2(1)] n by simp
  next
    case (3 b c "is" j)
    from 3(2,4) n have "n \<le> int (length (ready_free b))" by (simp add: min_def split: if_splits)
    moreover have "\<exists>i\<in>set (allocation_batch n a). used_up a i"
      using 3(5,7) by (auto simp: allocation_batch_def used_up_def 3(13) 3(2) [symmetric])
    ultimately show ?thesis using 3(3) card [OF 3(1)] n by simp
  qed
qed

theorem allocate_outcome_witness:
  "(fst (allocate 4 sample_allocator) = Inr None \<longleftrightarrow>
      int (card {i. i < total_pages sample_allocator \<and> available sample_allocator i}) < 4) \<and>
   fst (allocate 4 sample_allocator) = Inr None \<and>
   allocate (- 1) sample_allocator = (Inl ValueError, sample_allocator)"
proof -
  have inv: "alloc_inv sample_allocator" by (rule PageAllocator_init_inv [OF sample_init])
  have "fst (allocate 4 sample_allocator) = Inr None" by code_simp
  with allocate_outcome [OF inv, of 4] allocate_outcome [OF inv, of "- 1"] show ?thesis by simp
qed

section \<open>Reclamation\<close>

lemma due_length:
  assumes inv: "alloc_inv a"
  shows "length (due e a) = card {i. i < total_pages a \<and> reclaimable e (pages a ! i)}"
proof -
  obtain b where b: "reclaimed_to e a b" using reclaim_loop_spec [OF inv refl, of e 0] by blast
  note D = alloc_invD [OF inv]
  have B: "alloc_inv b" "total_pages b = total_pages a" using b by (simp_all add: reclaimed_to_def)
  have "card {i. i < total_pages a \<and> allocation_state (pages b ! i) = FREE} =
      length (ready_free a) + length (due e a)"
    using ready_free_card [OF B(1)] b by (simp add: B reclaimed_to_def)
  moreover have "{i. i < total_pages a \<and> allocation_state (pages b ! i) = FREE} =
      {i. i < total_pages a \<and> allocation_state (pages a ! i) = FREE} \<union>
      {i. i < total_pages a \<and> reclaimable e (pages a ! i)}"
    using b by (auto simp: reclaimed_to_def)
  moreover have "card ({i. i < total_pages a \<and> allocation_state (pages a ! i) = FREE} \<union>
      {i. i < total_pages a \<and> reclaimable e (pages a ! i)}) =
      length (ready_free a) + card {i. i < total_pages a \<and> reclaimable e (pages a ! i)}"
    unfolding ready_free_card [OF inv] by (rule card_Un_disjoint) (auto simp: reclaimable_def)
  ultimately show ?thesis by simp
qed

text \<open>
  C10. \<open>advance_epoch\<close> to a later epoch returns the number of pages whose safe epoch has
  now completed, frees exactly these pages and leaves every other page as it was.  The
  stale-entry branches of the reclaim loop and its reference check are never taken.
\<close>

theorem advance_epoch_reclaims_due:
  assumes inv: "alloc_inv a" and e: "0 \<le> e" "current_epoch a \<le> e"
  shows "\<exists>b. advance_epoch e a = (Inr (int (card {i. i < total_pages a \<and> reclaimable e (pages a ! i)})), b) \<and>
    current_epoch b = e \<and>
    (\<forall>i<total_pages a. pages b ! i = (if reclaimable e (pages a ! i) then freed e (pages a ! i) else pages a ! i)) \<and>
    available_pages b = available_pages a + int (card {i. i < total_pages a \<and> reclaimable e (pages a ! i)})"
proof -
  let ?a = "a\<lparr>current_epoch := e\<rparr>"
  have inv': "alloc_inv ?a" using inv by (rule alloc_inv_epoch)
  obtain b where b: "reclaim_completed_locked e ?a = (Inr (int (length (due e ?a))), b)" "reclaimed_to e ?a b"
    by (rule reclaim_completed_locked_spec [OF inv'])
  have "length (due e ?a) = card {i. i < total_pages a \<and> reclaimable e (pages a ! i)}"
    using due_length [OF inv'] by simp
  with b e show ?thesis
    by (simp add: advance_epoch_def validate_epoch_def require_def reclaimed_to_def available_pages_def)
qed

definition sample_pending :: PageAllocator where
  "sample_pending = run_ops page_exec (take 6 sample_ops) sample_allocator"

theorem advance_epoch_reclaims_due_witness:
  "current_epoch sample_pending = 0 \<and>
   (\<exists>b. advance_epoch 2 sample_pending
     = (Inr (int (card {i. i < total_pages sample_pending \<and> reclaimable 2 (pages sample_pending ! i)})), b))"
proof -
  have "alloc_inv sample_pending"
    unfolding sample_pending_def
    by (rule page_alloc.run_inv [OF PageAllocator_init_inv [OF sample_init]]) code_simp
  moreover have "current_epoch sample_pending = 0" by code_simp
  ultimately show ?thesis using advance_epoch_reclaims_due [of sample_pending 2] by auto
qed

section \<open>Calls that raise\<close>

text \<open>
  A rollback whose batch has passed validation stops at the second mention of a page, which
  is free by then.
\<close>

lemma rollback_one_free:
  assumes "i < length (pages a)" "allocation_state (pages a ! i) = FREE"
  shows "fst (rollback_one i a) = Inl InvariantViolationError"
  using assms by (simp add: rollback_one_def make_free_def Let_def)

lemma rollback_grows: "length (ready_free a) \<le> length (ready_free (snd (for_each rollback_one is a)))"
proof (induction "is" arbitrary: a)
  case (Cons i "is")
  have one: "length (ready_free a) \<le> length (ready_free (snd (rollback_one i a)))"
    by (simp add: rollback_one_def make_free_def Let_def)
  show ?case
  proof (cases "rollback_one i a")
    case (Pair r b)
    with one Cons.IH [of b] show ?thesis by (cases r) auto
  qed
qed simp

lemma rollback_repeated:
  assumes "alloc_inv a" "\<forall>i\<in>set is. can_roll_back a i \<or> i < total_pages a \<and> allocation_state (pages a ! i) = FREE"
    "\<not> distinct is \<or> (\<exists>i\<in>set is. allocation_state (pages a ! i) = FREE)"
  shows "fst (for_each rollback_one is a) = Inl InvariantViolationError"
  using assms
proof (induction "is" arbitrary: a)
  case (Cons i "is")
  have len: "length (pages a) = total_pages a" by (rule alloc_invD(1) [OF Cons.prems(1)])
  show ?case
  proof (cases "can_roll_back a i")
    case True
    then have i: "i < total_pages a" "allocation_state (pages a ! i) = RESERVED" "inflight_refs (pages a ! i) = 0"
      by (simp_all add: can_roll_back_def)
    note step = rollback_one_ok [OF Cons.prems(1) i]
    have st: "allocation_state (pages (rolled_back i a) ! k) = (if k = i then FREE else allocation_state (pages a ! k))" for k
      using i len by (simp add: rolled_back_simps nth_list_update)
    have "fst (for_each rollback_one is (rolled_back i a)) = Inl InvariantViolationError"
    proof (rule Cons.IH [OF step(2)])
      show "\<forall>k\<in>set is. can_roll_back (rolled_back i a) k \<or>
          k < total_pages (rolled_back i a) \<and> allocation_state (pages (rolled_back i a) ! k) = FREE"
        using Cons.prems(2) i can_roll_back_other [of _ i a] st by (auto simp: rolled_back_simps(2))
      show "\<not> distinct is \<or> (\<exists>k\<in>set is. allocation_state (pages (rolled_back i a) ! k) = FREE)"
        using Cons.prems(3) i st by (auto split: if_splits)
    qed
    with step(1) show ?thesis by simp
  next
    case False
    with Cons.prems(2) len have "fst (rollback_one i a) = Inl InvariantViolationError"
      by (intro rollback_one_free) auto
    then show ?thesis by (cases "rollback_one i a") auto
  qed
qed simp

lemma rollback_reserved_repeated:
  assumes inv: "alloc_inv a" and v: "validate_rollback_reserved a hs = Inr is" and dup: "\<not> distinct hs"
  shows "fst (rollback_reserved hs a) = Inl InvariantViolationError" "snd (rollback_reserved hs a) \<noteq> a"
proof -
  note V = validate_rollback_Inr [OF v]
  have run: "rollback_reserved hs a = for_each rollback_one is a" by (simp add: rollback_reserved_def v)
  have rep: "\<not> distinct is" using dup by (simp add: V(1) distinct_map)
  have can: "\<forall>i\<in>set is. can_roll_back a i" using V(3) by (simp add: can_roll_back_def)
  from rep can show "fst (rollback_reserved hs a) = Inl InvariantViolationError"
    unfolding run by (intro rollback_repeated [OF inv]) auto
  from rep obtain i rest where "is": "is = i # rest" by (cases "is") auto
  with can have i: "i < total_pages a" "allocation_state (pages a ! i) = RESERVED" "inflight_refs (pages a ! i) = 0"
    by (simp_all add: can_roll_back_def)
  have "length (ready_free a) < length (ready_free (rolled_back i a))" by (simp add: rolled_back_simps)
  also have "\<dots> \<le> length (ready_free (snd (for_each rollback_one is a)))"
    using rollback_grows [of "rolled_back i a" rest] by (simp add: "is" rollback_one_ok(1) [OF inv i])
  finally show "snd (rollback_reserved hs a) \<noteq> a" unfolding run by auto
qed

lemma reserve_permanent_raises:
  assumes inv: "alloc_inv a" and err: "fst (reserve_permanent_page a) = Inl err"
  shows "snd (reserve_permanent_page a) \<noteq> a \<longleftrightarrow> (\<exists>i rest. ready_free a = i # rest \<and> used_up a i)"
proof (cases "ready_free a")
  case (Cons i rest)
  then have "allocation_state (pages a ! i) = FREE" using alloc_invD(6) [OF inv, of i] by auto
  with Cons err have "reserve_permanent_page a = (Inl InvariantViolationError, a\<lparr>ready_free := rest\<rparr>)" "used_up a i"
    by (auto simp: reserve_permanent_page_def andthen_def reset_for_new_generation_def used_up_def Let_def split: if_splits)
  moreover from this(1) Cons have "ready_free (snd (reserve_permanent_page a)) \<noteq> ready_free a" by simp
  then have "snd (reserve_permanent_page a) \<noteq> a" by metis
  ultimately show ?thesis using Cons by simp
qed (simp add: reserve_permanent_page_def)

lemma allocate_raises:
  assumes inv: "alloc_inv a" and err: "fst (allocate n a) = Inl err"
  shows "snd (allocate n a) \<noteq> a \<longleftrightarrow> (\<exists>i\<in>set (allocation_batch n a). used_up a i)"
proof (cases "0 < n")
  case False
  then show ?thesis by (auto simp: allocate_def allocation_batch_def)
next
  case True
  show ?thesis
  proof (cases rule: allocate_cases [OF inv True])
    case (3 b c "is" j)
    have "\<exists>i\<in>set (allocation_batch n a). used_up a i"
      using 3(5,7) by (auto simp: allocation_batch_def used_up_def 3(13) 3(2) [symmetric])
    moreover have "c \<noteq> a" using 3(6,8,10) alloc_invD(6) [OF inv, of j] by auto
    ultimately show ?thesis using 3(3) by simp
  qed (use err in simp_all)
qed

text \<open>
  C11. What a call that raises leaves behind, exactly.  It leaves the allocator as it found
  it, so that an invalid batch never leaves some of its pages changed, with three
  exceptions, in each of which the allocator does change: \<open>reserve_permanent_page\<close> when the
  first free page has used up its generations, \<open>allocate\<close> when a page of the batch has, and
  \<open>rollback_reserved\<close> of a batch that passes the validation and names a page twice.
\<close>

theorem failed_page_op_effect:
  assumes inv: "alloc_inv a" and err: "fst (page_exec x a) = Inl err"
  shows "snd (page_exec x a) \<noteq> a \<longleftrightarrow>
    (case x of
       Op_Reserve_Permanent \<Rightarrow> \<exists>i rest. ready_free a = i # rest \<and> used_up a i
     | Op_Allocate n \<Rightarrow> \<exists>i\<in>set (allocation_batch n a). used_up a i
     | Op_Rollback hs \<Rightarrow> (\<exists>is. validate_rollback_reserved a hs = Inr is) \<and> \<not> distinct hs
     | _ \<Rightarrow> False)"
proof (cases x)
  case Op_Reserve_Permanent
  then have "fst (reserve_permanent_page a) = Inl err" "snd (page_exec x a) = snd (reserve_permanent_page a)"
    using err by (auto simp: discard_def andthen_def split: prod.splits sum.splits)
  with reserve_permanent_raises [OF inv] Op_Reserve_Permanent show ?thesis by simp
next
  case (Op_Allocate n)
  then have "fst (allocate n a) = Inl err" "snd (page_exec x a) = snd (allocate n a)"
    using err by (auto simp: discard_def andthen_def split: prod.splits sum.splits)
  with allocate_raises [OF inv] Op_Allocate show ?thesis by simp
next
  case (Op_Rollback hs)
  show ?thesis
  proof (cases "validate_rollback_reserved a hs")
    case (Inr "is")
    show ?thesis
    proof (cases "distinct hs")
      case True
      have "for_each rollback_one is a = (Inr (), fold rolled_back is a)"
        using for_each_rollback [OF inv] validate_rollback_Inr [OF Inr] True by (auto simp: can_roll_back_def)
      with err Op_Rollback Inr show ?thesis by (simp add: rollback_reserved_def)
    next
      case False
      with rollback_reserved_repeated(2) [OF inv Inr] Inr Op_Rollback show ?thesis by simp
    qed
  qed (simp add: Op_Rollback rollback_reserved_def)
next
  case (Op_Advance e)
  show ?thesis
  proof (cases "0 \<le> e \<and> current_epoch a \<le> e")
    case True
    obtain b where "reclaim_completed_locked e (a\<lparr>current_epoch := e\<rparr>) =
        (Inr (int (length (due e (a\<lparr>current_epoch := e\<rparr>)))), b)"
      by (rule reclaim_completed_locked_spec [OF alloc_inv_epoch [OF inv]])
    with True err Op_Advance show ?thesis
      by (simp add: discard_def andthen_def advance_epoch_def validate_epoch_def require_def)
  qed (auto simp: Op_Advance discard_def andthen_def advance_epoch_def validate_epoch_def require_def)
next
  case Op_Reclaim
  obtain b where "reclaim_completed_locked (current_epoch a) a = (Inr (int (length (due (current_epoch a) a))), b)"
    by (rule reclaim_completed_locked_spec [OF inv])
  with err Op_Reclaim show ?thesis by (simp add: discard_def andthen_def reclaim_completed_def)
qed (use err in \<open>auto simp: commit_reserved_def abandon_reserved_def mark_inflight_def unmark_inflight_def
      set_valid_tokens_def acquire_request_ref_def release_request_ref_def acquire_cache_ref_def
      release_cache_ref_def pin_page_def unpin_page_def split: sum.splits if_splits\<close>)

theorem failed_page_op_effect_witness:
  "snd (page_exec (Op_Commit [mk_handle 0 1, mk_handle 1 1]) sample_live) = sample_live \<and>
   snd (page_exec (Op_Rollback [mk_handle 0 1, mk_handle 0 1]) (snd (allocate 2 sample_allocator)))
     \<noteq> snd (allocate 2 sample_allocator)"
proof -
  let ?a = "run_ops page_exec [Op_Allocate 2] sample_allocator"
  have inv: "alloc_inv ?a"
    by (rule page_alloc.run_inv [OF PageAllocator_init_inv [OF sample_init]]) code_simp
  have err: "fst (page_exec (Op_Rollback [mk_handle 0 1, mk_handle 0 1]) ?a) = Inl InvariantViolationError"
    and "validate_rollback_reserved ?a [mk_handle 0 1, mk_handle 0 1] = Inr [0, 0]" by code_simp+
  then have "snd (page_exec (Op_Rollback [mk_handle 0 1, mk_handle 0 1]) ?a) \<noteq> ?a"
    using failed_page_op_effect [OF inv err] by simp
  moreover have "fst (page_exec (Op_Commit [mk_handle 0 1, mk_handle 1 1]) sample_live) = Inl InvalidStateTransitionError"
    by code_simp
  then have "snd (page_exec (Op_Commit [mk_handle 0 1, mk_handle 1 1]) sample_live) = sample_live"
    using failed_page_op_effect [OF sample_live_inv] by fastforce
  ultimately show ?thesis by simp
qed

section \<open>Undoing an allocation\<close>

text \<open>
  C12. Rolling a fresh reservation back undoes the allocation: it always succeeds, the free
  queue holds again exactly the pages that were free or reclaimable before, and every
  handle of the batch is stale from then on.
\<close>

theorem rollback_undoes_allocate:
  assumes inv: "alloc_inv a" "gen_room a" and ok: "allocate n a = (Inr (Some hs), b)" and n: "0 < n"
  shows "\<exists>c. rollback_reserved hs b = (Inr (), c) \<and>
    set (ready_free c) = {i. i < total_pages a \<and> available a i} \<and>
    (\<forall>h\<in>set hs. get_meta c h = Inl InvalidHandleError)"
proof (cases rule: allocate_spec [OF inv n])
  case (1 b)
  with ok show ?thesis by simp
next
  case (2 b' c "is")
  have hs: "hs = map (\<lambda>i. mk_handle i (Suc (generation (pages a ! i)))) is" and c: "c = b"
    using 2(3) ok by auto
  have R: "require_state b RESERVED (mk_handle i (Suc (generation (pages a ! i)))) = Inr i \<and>
      reservation_refs (pages b ! i) = 1 \<and> inflight_refs (pages b ! i) = 0" if "i \<in> set is" for i
    using 2(1) 2(6,7) [of i] that 2(9) c
    by (auto simp: require_state_Inr mk_handle_def started_def reclaimed_to_def)
  then have "traverse (require_state b RESERVED) hs = Inr is"
    by (simp add: traverse_Inr_iff hs list_all2_map1 list_all2_same)
  moreover have "check_rollback b is = Inr ()" using R by (simp add: check_rollback_Inr)
  ultimately have V: "validate_rollback_reserved b hs = Inr is"
    by (simp add: validate_rollback_reserved_def)
  have can: "\<forall>i\<in>set is. can_roll_back b i" using R by (auto simp: can_roll_back_def require_state_Inr)
  let ?d = "fold rolled_back is b"
  have inv_b: "alloc_inv b" using 2(8) c by simp
  note F = for_each_rollback [OF inv_b 2(5) can]
  have tot: "total_pages b = total_pages a" using 2(9) c by simp
  have inv_d: "alloc_inv ?d" "total_pages ?d = total_pages a" using F tot by auto
  have "allocation_state (pages ?d ! i) = FREE \<longleftrightarrow> available a i" if "i < total_pages a" for i
    using F that tot 2(6,7) [of i] available_after_reclaim [OF inv(1) 2(1) that] c by auto
  then have "set (ready_free ?d) = {i. i < total_pages a \<and> available a i}"
    using inv_d alloc_invD(6) [OF inv_d(1)] by auto
  moreover have "get_meta ?d h = Inl InvalidHandleError" if "h \<in> set hs" for h
    using that F tot 2(6) inv_d(2) by (auto simp: hs get_meta_def mk_handle_def Let_def)
  moreover have "rollback_reserved hs b = (Inr (), ?d)" using F V by (simp add: rollback_reserved_def)
  ultimately show ?thesis by blast
qed

theorem rollback_undoes_allocate_witness:
  "\<exists>b c. allocate 2 sample_allocator = (Inr (Some [mk_handle 0 1, mk_handle 1 1]), b) \<and>
     rollback_reserved [mk_handle 0 1, mk_handle 1 1] b = (Inr (), c)"
proof -
  have inv: "alloc_inv sample_allocator" by (rule PageAllocator_init_inv [OF sample_init])
  have room: "gen_room sample_allocator" by code_simp
  obtain b where b: "allocate 2 sample_allocator = (Inr (Some [mk_handle 0 1, mk_handle 1 1]), b)"
    using surjective_pairing [of "allocate 2 sample_allocator"] by (metis (no_types) allocate_sample)
  from rollback_undoes_allocate [OF inv room b] b show ?thesis by auto
qed

section \<open>Generation exhaustion\<close>

text \<open>A free page outside the free queue is caught by the debug check.\<close>

lemma check_page_Inl: "check_page a x = Inl e \<Longrightarrow> e = InvariantViolationError"
  by (cases x) (auto simp: check_page_def split: if_splits PageAllocationState.splits)

lemma assert_invariants_lost_page:
  assumes "j < length (pages a)" "allocation_state (pages a ! j) = FREE" "j \<notin> set (ready_free a)"
  shows "assert_invariants a = Inl InvariantViolationError"
proof -
  have "(j, pages a ! j) \<in> set (enumerate 0 (pages a))" using assms(1) by (simp add: in_set_enumerate_eq)
  moreover have "check_page a (j, pages a ! j) = Inl InvariantViolationError" using assms(2,3) by (simp add: check_page_def)
  ultimately have "traverse (check_page a) (enumerate 0 (pages a)) = Inl InvariantViolationError"
    using check_page_Inl by (intro traverse_raises) blast+
  then show ?thesis by (simp add: assert_invariants_def Let_def)
qed

text \<open>
  Such a state is reached by reserving and rolling back one page over and over: each round
  uses up one generation.
\<close>

definition cycled :: "nat \<Rightarrow> PageAllocator" where
  "cycled g =
     \<lparr>total_pages = 1, page_size = 16, pages = [(fresh_page 0)\<lparr>generation := g\<rparr>], ready_free = [0],
      reclaim_heap = [], current_epoch = 0, reclaimed_pages_total = 0\<rparr>"

primrec cycles :: "nat \<Rightarrow> page_op list" where
  "cycles 0 = []"
| "cycles (Suc g) = cycles g @ [Op_Allocate 1, Op_Rollback [mk_handle 0 (Suc g)]]"

lemma one_cycle:
  assumes "g < MAX_HANDLE_GENERATION"
  shows "legal_run page_exec page_legal [Op_Allocate 1, Op_Rollback [mk_handle 0 (Suc g)]] (cycled g) \<and>
    run_ops page_exec [Op_Allocate 1, Op_Rollback [mk_handle 0 (Suc g)]] (cycled g) = cycled (Suc g)"
proof -
  have room: "gen_room (cycled g)" using assms by (simp add: gen_room_def cycled_def)
  have alloc: "snd (page_exec (Op_Allocate 1) (cycled g)) =
      (cycled g)\<lparr>pages := [started 0 ((fresh_page 0)\<lparr>generation := g\<rparr>)], ready_free := []\<rparr>"
    using assms by (simp add: discard_def andthen_def allocate_def cycled_def reclaim_completed_locked_def
        reset_for_new_generation_def upd_page_def fresh_page_def started_def Let_def)
  have "snd (page_exec (Op_Rollback [mk_handle 0 (Suc g)])
      ((cycled g)\<lparr>pages := [started 0 ((fresh_page 0)\<lparr>generation := g\<rparr>)], ready_free := []\<rparr>)) = cycled (Suc g)"
    by (simp add: rollback_reserved_def validate_rollback_reserved_def require_state_def get_meta_def mk_handle_def
        cycled_def started_def fresh_page_def rollback_one_def make_free_def upd_page_def total_refs_def
        ownership_refs_def Let_def)
  with room alloc show ?thesis by (simp del: page_exec.simps)
qed

lemma cycles_reach:
  "g \<le> MAX_HANDLE_GENERATION \<Longrightarrow>
     legal_run page_exec page_legal (cycles g) (cycled 0) \<and> run_ops page_exec (cycles g) (cycled 0) = cycled g"
proof (induction g)
  case (Suc g)
  then show ?case using one_cycle [of g] by (simp only: cycles.simps legal_run_append run_ops_append Suc_le_eq less_imp_le)
qed simp

text \<open>
  C39. The way around the all-or-nothing contract, in any state the allocator can reach.
  When there are enough pages for a request but one of the batch has used up its
  generations, \<open>allocate\<close> raises \<open>InvariantViolationError\<close> after it has taken the whole batch
  from the free queue: no handle for any of these pages is returned, one of them is still
  marked free, and \<open>assert_invariants\<close>, which passed before the call, fails after it.
\<close>

theorem allocate_loses_pages_on_exhaustion:
  assumes init: "PageAllocator_init p psize = Inr a0" "legal_run page_exec page_legal ops a0"
    and a: "a = run_ops page_exec ops a0"
    and enough: "0 < n" "n \<le> int (card {i. i < total_pages a \<and> available a i})"
    and i: "i \<in> set (allocation_batch n a)" "used_up a i"
  shows "assert_invariants a = Inr () \<and>
    (\<exists>c. allocate n a = (Inl InvariantViolationError, c) \<and>
       ready_free (snd (reclaim_completed a)) = allocation_batch n a @ ready_free c \<and>
       (\<exists>j\<in>set (allocation_batch n a). allocation_state (pages c ! j) = FREE \<and> j \<notin> set (ready_free c)) \<and>
       assert_invariants c = Inl InvariantViolationError)"
proof -
  have inv: "alloc_inv a" unfolding a by (rule page_alloc.run_inv [OF PageAllocator_init_inv [OF init(1)] init(2)])
  have ok: "assert_invariants a = Inr ()" by (rule assert_invariants_ok [OF inv])
  show ?thesis
  proof (cases rule: allocate_cases [OF inv enough(1)])
    case (1 b)
    with available_card [OF inv 1(2)] enough(2) show ?thesis by simp
  next
    case (2 b c "is")
    with i show ?thesis by (auto simp: allocation_batch_def used_up_def not_le [symmetric])
  next
    case (3 b c "is" j)
    have batch: "allocation_batch n a = is" by (simp add: allocation_batch_def 3(13) 3(2))
    have "assert_invariants c = Inl InvariantViolationError"
      using 3(6,8,10,12) by (intro assert_invariants_lost_page) simp_all
    moreover have "ready_free (snd (reclaim_completed a)) = allocation_batch n a @ ready_free c"
      unfolding batch 3(13) 3(2) 3(9) by simp
    ultimately show ?thesis using ok 3(3,5,8,10) batch by blast
  qed
qed

theorem allocate_loses_pages_on_exhaustion_witness:
  "\<exists>ops a0 a c. PageAllocator_init 1 16 = Inr a0 \<and> legal_run page_exec page_legal ops a0 \<and> a = run_ops page_exec ops a0 \<and>
     assert_invariants a = Inr () \<and> allocate 1 a = (Inl InvariantViolationError, c) \<and>
     assert_invariants c = Inl InvariantViolationError"
proof -
  let ?a = "cycled MAX_HANDLE_GENERATION"
  have init: "PageAllocator_init 1 16 = Inr (cycled 0)" by (simp add: PageAllocator_init_def cycled_def fresh_page_def)
  have run: "legal_run page_exec page_legal (cycles MAX_HANDLE_GENERATION) (cycled 0)"
    "?a = run_ops page_exec (cycles MAX_HANDLE_GENERATION) (cycled 0)"
    using cycles_reach [of MAX_HANDLE_GENERATION] by simp_all
  have "{i. i < total_pages ?a \<and> available ?a i} = {0}"
    by (auto simp: cycled_def available_def fresh_page_def)
  then have enough: "(1::int) \<le> int (card {i. i < total_pages ?a \<and> available ?a i})" by simp
  have batch: "0 \<in> set (allocation_batch 1 ?a)"
    by (simp add: allocation_batch_def reclaim_completed_def reclaim_completed_locked_def cycled_def)
  have "used_up ?a 0" by (simp add: used_up_def cycled_def)
  from allocate_loses_pages_on_exhaustion [OF init run zero_less_one enough batch this] obtain c
    where "assert_invariants ?a = Inr ()" "allocate 1 ?a = (Inl InvariantViolationError, c)"
      "assert_invariants c = Inl InvariantViolationError" by blast
  with init run show ?thesis by blast
qed

end
