(* ===== verification/Sequence_Arena.thy ===== *)
theory Sequence_Arena
  imports Page_Allocator
begin

text \<open>
  Sequence page tables and the arena of sequence slots, \<open>memory/sequence.py\<close>: the
  homogeneous path (\<open>PageTableEntry\<close>, \<open>SequencePageTable\<close>, \<open>SequenceMemoryState\<close>,
  \<open>SequenceArena\<close>).  \<open>SequenceArena.mutate\<close> yields the live state object to its caller;
  here the caller's block is a function on the state, applied in place.
\<close>

section \<open>Page tables\<close>

record PageTableEntry =
  page :: KVPageHandle
  entry_tokens :: int

definition mk_entry :: "KVPageHandle \<Rightarrow> int \<Rightarrow> pyerror + PageTableEntry" where
  "mk_entry h n = (if n \<le> 0 then Inl ValueError else Inr \<lparr>page = h, entry_tokens = n\<rparr>)"

text \<open>The loop of \<open>SequencePageTable.validate\<close>; \<open>rest \<noteq> []\<close> says the entry is not the tail.\<close>

fun validate_entries :: "int \<Rightarrow> KVPageHandle list \<Rightarrow> int \<Rightarrow> PageTableEntry list \<Rightarrow> pyerror + int" where
  "validate_entries psize seen acc [] = Inr acc"
| "validate_entries psize seen acc (entry # rest) =
     (if page entry \<in> set seen then Inl InvalidStateTransitionError
      else if entry_tokens entry > psize then Inl InvalidStateTransitionError
      else if rest \<noteq> [] \<and> entry_tokens entry \<noteq> psize then Inl InvalidStateTransitionError
      else validate_entries psize (page entry # seen) (acc + entry_tokens entry) rest)"

definition validate_table :: "PageTableEntry list \<Rightarrow> int \<Rightarrow> int \<Rightarrow> pyerror + unit" where
  "validate_table entries committed psize =
     (if committed < 0 then Inl ValueError
      else if entries = [] then (if committed \<noteq> 0 then Inl InvalidStateTransitionError else Inr ())
      else case validate_entries psize [] 0 entries of
        Inl e \<Rightarrow> Inl e
      | Inr n \<Rightarrow> if n \<noteq> committed then Inl InvalidStateTransitionError else Inr ())"

section \<open>Sequence state\<close>

record SequenceHandle =
  seq_index :: nat
  seq_generation :: nat

definition mk_sequence_handle :: "nat \<Rightarrow> nat \<Rightarrow> pyerror + SequenceHandle" where
  "mk_sequence_handle i g =
     (if g = 0 then Inl ValueError
      else if g > MAX_HANDLE_GENERATION then Inl ValueError
      else Inr \<lparr>seq_index = i, seq_generation = g\<rparr>)"

record SequenceMemoryState =
  handle :: SequenceHandle
  request_id :: string
  committed_tokens :: int
  page_table :: "PageTableEntry list"
  version :: int
  pending_transaction_index :: "nat option"
  active_lease_index :: "nat option"
  release_requested :: bool
  release_safe_epoch :: int
  blocked_until_epoch :: int

definition fresh_sequence :: "SequenceHandle \<Rightarrow> string \<Rightarrow> SequenceMemoryState" where
  "fresh_sequence h rid =
     \<lparr>handle = h, request_id = rid, committed_tokens = 0, page_table = [], version = 0,
      pending_transaction_index = None, active_lease_index = None, release_requested = False,
      release_safe_epoch = 0, blocked_until_epoch = 0\<rparr>"

definition busy :: "SequenceMemoryState \<Rightarrow> bool" where
  "busy st \<longleftrightarrow> pending_transaction_index st \<noteq> None \<or> active_lease_index st \<noteq> None"

record SequenceMemorySnapshot =
  snap_handle :: SequenceHandle
  snap_request_id :: string
  snap_committed_tokens :: int
  snap_page_table :: "PageTableEntry list"
  snap_version :: int
  snap_busy :: bool
  snap_release_requested :: bool
  snap_blocked_until_epoch :: int

section \<open>The arena\<close>

record SequenceArena =
  seq_capacity :: nat
  generations :: "nat list"
  states :: "SequenceMemoryState option list"
  free_indices :: "nat list"

definition SequenceArena_init :: "int \<Rightarrow> pyerror + SequenceArena" where
  "SequenceArena_init cap =
     (if cap \<le> 0 then Inl ValueError
      else Inr \<lparr>seq_capacity = nat cap, generations = replicate (nat cap) 0,
                states = replicate (nat cap) None, free_indices = rev [0..<nat cap]\<rparr>)"

definition seq_allocate :: "string \<Rightarrow> (SequenceArena, SequenceHandle) py" where
  "seq_allocate rid s =
     (if rid = [] then (Inl ValueError, s)
      else if free_indices s = [] then (Inl SequenceCapacityError, s)
      else let i = last (free_indices s); g = generations s ! i + 1;
               s1 = s\<lparr>free_indices := butlast (free_indices s), generations := (generations s)[i := g]\<rparr>
           in case mk_sequence_handle i g of
                Inl e \<Rightarrow> (Inl e, s1)
              | Inr h \<Rightarrow> (Inr h, s1\<lparr>states := (states s)[i := Some (fresh_sequence h rid)]\<rparr>))"

text \<open>\<open>_get_mutable\<close>: a reference to the state object, which is the one of its slot.\<close>

definition get_mutable :: "SequenceArena \<Rightarrow> SequenceHandle \<Rightarrow> pyerror + SequenceMemoryState" where
  "get_mutable s h =
     (if seq_index h \<ge> seq_capacity s then Inl InvalidHandleError
      else case states s ! seq_index h of
        None \<Rightarrow> Inl InvalidHandleError
      | Some st \<Rightarrow>
          if seq_generation (handle st) \<noteq> seq_generation h then Inl InvalidHandleError else Inr st)"

definition seq_get :: "SequenceArena \<Rightarrow> SequenceHandle \<Rightarrow> pyerror + SequenceMemorySnapshot" where
  "seq_get s h = ebind (get_mutable s h) (\<lambda>st.
     Inr \<lparr>snap_handle = handle st, snap_request_id = request_id st,
          snap_committed_tokens = committed_tokens st, snap_page_table = page_table st,
          snap_version = version st, snap_busy = busy st, snap_release_requested = release_requested st,
          snap_blocked_until_epoch = blocked_until_epoch st\<rparr>)"

definition seq_mutate :: "SequenceHandle \<Rightarrow> (SequenceMemoryState \<Rightarrow> SequenceMemoryState) \<Rightarrow> (SequenceArena, unit) py" where
  "seq_mutate h f s =
     (case get_mutable s h of
        Inl e \<Rightarrow> (Inl e, s)
      | Inr st \<Rightarrow> (Inr (), s\<lparr>states := (states s)[seq_index h := Some (f st)]\<rparr>))"

definition seq_release :: "SequenceHandle \<Rightarrow> (SequenceArena, unit) py" where
  "seq_release h s =
     (case get_mutable s h of
        Inl e \<Rightarrow> (Inl e, s)
      | Inr st \<Rightarrow>
          if page_table st \<noteq> [] \<or> committed_tokens st \<noteq> 0 then (Inl InvalidStateTransitionError, s)
          else if busy st then (Inl InvalidStateTransitionError, s)
          else (Inr (), s\<lparr>states := (states s)[seq_index h := None],
                          free_indices := free_indices s @ [seq_index h]\<rparr>))"

definition live_handles :: "SequenceArena \<Rightarrow> SequenceHandle list" where
  "live_handles s = [handle st. Some st \<leftarrow> states s]"

definition check_slot :: "int \<Rightarrow> SequenceArena \<Rightarrow> nat \<times> SequenceMemoryState option \<Rightarrow> pyerror + unit" where
  "check_slot psize s = (\<lambda>(i, slot).
     case slot of
       None \<Rightarrow> if i \<notin> set (free_indices s) then Inl InvalidStateTransitionError else Inr ()
     | Some st \<Rightarrow>
         if i \<in> set (free_indices s) then Inl InvalidStateTransitionError
         else if seq_generation (handle st) \<noteq> generations s ! i then Inl InvalidStateTransitionError
         else validate_table (page_table st) (committed_tokens st) psize)"

definition seq_assert_invariants :: "int \<Rightarrow> SequenceArena \<Rightarrow> pyerror + unit" where
  "seq_assert_invariants psize s =
     (if \<not> distinct (free_indices s) then Inl InvalidStateTransitionError
      else ebind (traverse (check_slot psize s) (enumerate 0 (states s))) (\<lambda>_. Inr ()))"

section \<open>What validation means\<close>

lemma validate_entries_Inr:
  "validate_entries psize seen acc entries = Inr n \<longleftrightarrow>
     distinct (map page entries) \<and> set (map page entries) \<inter> set seen = {} \<and>
     (\<forall>entry\<in>set entries. entry_tokens entry \<le> psize) \<and>
     (\<forall>entry\<in>set (butlast entries). entry_tokens entry = psize) \<and>
     n = acc + sum_list (map entry_tokens entries)"
  by (induction entries arbitrary: seen acc) auto

lemma validate_table_Inr:
  "validate_table entries committed psize = Inr u \<longleftrightarrow>
     0 \<le> committed \<and> distinct (map page entries) \<and>
     (\<forall>entry\<in>set entries. entry_tokens entry \<le> psize) \<and>
     (\<forall>entry\<in>set (butlast entries). entry_tokens entry = psize) \<and>
     sum_list (map entry_tokens entries) = committed"
proof -
  have "validate_table entries committed psize = Inr u \<longleftrightarrow>
      0 \<le> committed \<and> validate_entries psize [] 0 entries = Inr committed"
    by (auto simp: validate_table_def split: sum.splits)
  then show ?thesis by (auto simp: validate_entries_Inr)
qed

lemma sum_full_pages: "\<forall>entry\<in>set entries. entry_tokens entry = psize \<Longrightarrow>
    sum_list (map entry_tokens entries) = int (length entries) * psize"
  by (induction entries) (auto simp: algebra_simps)

text \<open>A validated table of constructed entries is full pages followed by one tail.\<close>

lemma validated_tail:
  assumes ok: "validate_table entries committed psize = Inr u" and ne: "entries \<noteq> []"
  shows "committed = int (length entries - 1) * psize + entry_tokens (last entries)"
    "entry_tokens (last entries) \<le> psize"
proof -
  obtain xs x where "entries = xs @ [x]" using ne by (cases entries rule: rev_exhaust) auto
  with ok sum_full_pages [of xs psize]
  show "committed = int (length entries - 1) * psize + entry_tokens (last entries)"
    "entry_tokens (last entries) \<le> psize"
    by (simp_all add: validate_table_Inr)
qed

section \<open>Invariant of the arena\<close>

definition slot_ok :: "int \<Rightarrow> SequenceArena \<Rightarrow> nat \<Rightarrow> bool" where
  "slot_ok psize s i \<longleftrightarrow>
     (case states s ! i of
        None \<Rightarrow> True
      | Some st \<Rightarrow> handle st = \<lparr>seq_index = i, seq_generation = generations s ! i\<rparr> \<and>
                   validate_table (page_table st) (committed_tokens st) psize = Inr ())"

definition seq_inv :: "int \<Rightarrow> SequenceArena \<Rightarrow> bool" where
  "seq_inv psize s \<longleftrightarrow>
     length (generations s) = seq_capacity s \<and> length (states s) = seq_capacity s \<and>
     distinct (free_indices s) \<and>
     set (free_indices s) = {i. i < seq_capacity s \<and> states s ! i = None} \<and>
     (\<forall>i<seq_capacity s. slot_ok psize s i)"

lemma slot_ok_frame:
  "states t ! j = states s ! j \<Longrightarrow> generations t ! j = generations s ! j \<Longrightarrow>
   slot_ok psize t j = slot_ok psize s j"
  by (cases "states s ! j") (simp_all add: slot_ok_def)

lemma seq_invD: "seq_inv psize s \<Longrightarrow> j < seq_capacity s \<Longrightarrow> slot_ok psize s j"
  by (simp add: seq_inv_def)

datatype seq_op =
    SeqAllocate string
  | SeqRelease SequenceHandle
  | SeqMutate SequenceHandle "SequenceMemoryState \<Rightarrow> SequenceMemoryState"

fun seq_exec :: "seq_op \<Rightarrow> (SequenceArena, unit) py" where
  "seq_exec (SeqAllocate rid) = discard (seq_allocate rid)"
| "seq_exec (SeqRelease h) = seq_release h"
| "seq_exec (SeqMutate h f) = seq_mutate h f"

text \<open>
  A caller of \<open>mutate\<close> leaves the identity of the sequence alone and keeps its table
  consistent with its committed length; slots do not run out of generations.
\<close>

fun seq_legal :: "int \<Rightarrow> seq_op \<Rightarrow> SequenceArena \<Rightarrow> bool" where
  "seq_legal psize (SeqAllocate rid) s = (\<forall>g\<in>set (generations s). g < MAX_HANDLE_GENERATION)"
| "seq_legal psize (SeqRelease h) s = True"
| "seq_legal psize (SeqMutate h f) s =
     (case get_mutable s h of
        Inl _ \<Rightarrow> True
      | Inr st \<Rightarrow> handle (f st) = handle st \<and>
                  validate_table (page_table (f st)) (committed_tokens (f st)) psize = Inr ())"

lemma get_mutable_Inr:
  "get_mutable s h = Inr st \<longleftrightarrow>
     seq_index h < seq_capacity s \<and> states s ! seq_index h = Some st \<and>
     seq_generation (handle st) = seq_generation h"
  by (auto simp: get_mutable_def not_le split: option.splits)

lemma seq_allocate_ok:
  assumes inv: "seq_inv psize s" and room: "\<forall>g\<in>set (generations s). g < MAX_HANDLE_GENERATION"
    and "rid \<noteq> []" and free: "free_indices s = rest @ [i]"
  defines "h \<equiv> \<lparr>seq_index = i, seq_generation = Suc (generations s ! i)\<rparr>"
  shows "seq_allocate rid s =
      (Inr h, s\<lparr>free_indices := rest, generations := (generations s)[i := Suc (generations s ! i)],
                states := (states s)[i := Some (fresh_sequence h rid)]\<rparr>)"
    "i < seq_capacity s" "states s ! i = None"
proof -
  have "i \<in> set (free_indices s)" using free by simp
  then show i: "i < seq_capacity s" "states s ! i = None" using inv by (auto simp: seq_inv_def)
  then have "generations s ! i \<in> set (generations s)" using inv by (simp add: seq_inv_def)
  with room have "\<not> Suc (generations s ! i) > MAX_HANDLE_GENERATION" by (simp add: Suc_le_eq not_less)
  then show "seq_allocate rid s =
      (Inr h, s\<lparr>free_indices := rest, generations := (generations s)[i := Suc (generations s ! i)],
                states := (states s)[i := Some (fresh_sequence h rid)]\<rparr>)"
    using assms(3) free by (simp add: seq_allocate_def mk_sequence_handle_def h_def Let_def)
qed

lemma fresh_table_valid: "validate_table (page_table (fresh_sequence h rid)) (committed_tokens (fresh_sequence h rid)) psize = Inr ()"
  by (simp add: fresh_sequence_def validate_table_def)

lemma seq_allocate_inv:
  assumes inv: "seq_inv psize s" and room: "\<forall>g\<in>set (generations s). g < MAX_HANDLE_GENERATION"
  shows "seq_inv psize (snd (seq_allocate rid s))"
proof (cases "rid = [] \<or> free_indices s = []")
  case True
  then show ?thesis using inv by (auto simp: seq_allocate_def)
next
  case False
  then obtain rest i where free: "free_indices s = rest @ [i]" by (metis append_butlast_last_id)
  have rid: "rid \<noteq> []" using False by simp
  note A = seq_allocate_ok [OF inv room rid free]
  let ?h = "\<lparr>seq_index = i, seq_generation = Suc (generations s ! i)\<rparr>"
  let ?t = "s\<lparr>free_indices := rest, generations := (generations s)[i := Suc (generations s ! i)],
                states := (states s)[i := Some (fresh_sequence ?h rid)]\<rparr>"
  have len: "length (generations s) = seq_capacity s" "length (states s) = seq_capacity s"
    using inv by (simp_all add: seq_inv_def)
  have i: "i < seq_capacity s" by (rule A(2))
  have ok: "slot_ok psize ?t j" if "j < seq_capacity s" for j
  proof (cases "j = i")
    case True
    with i len show ?thesis by (simp add: slot_ok_def fresh_table_valid) (simp add: fresh_sequence_def)
  next
    case False
    then show ?thesis using seq_invD [OF inv that] by (simp add: slot_ok_frame [of ?t j s])
  qed
  have parts: "set (rest @ [i]) = {j. j < seq_capacity s \<and> states s ! j = None}" "distinct (rest @ [i])"
    using inv free by (simp_all add: seq_inv_def)
  have "set rest = {j. j < seq_capacity s \<and> states s ! j = None} - {i}"
    unfolding parts(1) [symmetric] using parts(2) by auto
  also have "\<dots> = {j. j < seq_capacity s \<and> states ?t ! j = None}"
    using i len by (auto simp: nth_list_update)
  finally have "set rest = {j. j < seq_capacity s \<and> states ?t ! j = None}" .
  with ok len parts(2) have "seq_inv psize ?t" unfolding seq_inv_def by simp
  with A(1) False show ?thesis by simp
qed

lemma seq_release_inv:
  assumes inv: "seq_inv psize s"
  shows "seq_inv psize (snd (seq_release h s))"
proof (cases "\<exists>st. get_mutable s h = Inr st \<and> page_table st = [] \<and> committed_tokens st = 0 \<and> \<not> busy st")
  case False
  then show ?thesis using inv by (auto simp: seq_release_def split: sum.splits)
next
  case True
  then obtain st where st: "get_mutable s h = Inr st" "page_table st = []" "committed_tokens st = 0" "\<not> busy st"
    by blast
  let ?i = "seq_index h"
  let ?t = "s\<lparr>states := (states s)[?i := None], free_indices := free_indices s @ [?i]\<rparr>"
  have i: "?i < seq_capacity s" "states s ! ?i = Some st" using st(1) by (auto simp: get_mutable_Inr)
  have len: "length (generations s) = seq_capacity s" "length (states s) = seq_capacity s"
    and parts: "set (free_indices s) = {j. j < seq_capacity s \<and> states s ! j = None}" "distinct (free_indices s)"
    using inv by (simp_all add: seq_inv_def)
  have "slot_ok psize ?t j" if "j < seq_capacity s" for j
    using seq_invD [OF inv that] i len
    by (cases "j = ?i") (simp_all add: slot_ok_frame [of ?t j s], simp add: slot_ok_def)
  moreover have "set (free_indices s @ [?i]) = {j. j < seq_capacity s \<and> states ?t ! j = None}"
    unfolding set_append parts(1) using i len by (auto simp: nth_list_update)
  moreover have "distinct (free_indices s @ [?i])"
    unfolding distinct_append parts(1) using parts(2) i by simp
  ultimately show ?thesis using st len by (simp add: seq_release_def seq_inv_def)
qed

lemma seq_mutate_inv:
  assumes inv: "seq_inv psize s" and legal: "seq_legal psize (SeqMutate h f) s"
  shows "seq_inv psize (snd (seq_mutate h f s))"
proof (cases "get_mutable s h")
  case (Inl e)
  then show ?thesis using inv by (simp add: seq_mutate_def)
next
  case (Inr st)
  let ?i = "seq_index h"
  let ?t = "s\<lparr>states := (states s)[?i := Some (f st)]\<rparr>"
  have i: "?i < seq_capacity s" "states s ! ?i = Some st" using Inr by (auto simp: get_mutable_Inr)
  have len: "length (generations s) = seq_capacity s" "length (states s) = seq_capacity s"
    using inv by (simp_all add: seq_inv_def)
  have here: "slot_ok psize ?t ?i"
    using seq_invD [OF inv i(1)] i legal Inr len by (simp add: slot_ok_def)
  have "slot_ok psize ?t j" if "j < seq_capacity s" for j
    using seq_invD [OF inv that] here by (cases "j = ?i") (simp_all add: slot_ok_frame [of ?t j s])
  moreover have "set (free_indices s) = {j. j < seq_capacity s \<and> states s ! j = None}" "distinct (free_indices s)"
    using inv by (simp_all only: seq_inv_def)
  moreover have "{j. j < seq_capacity s \<and> states s ! j = None} = {j. j < seq_capacity s \<and> states ?t ! j = None}"
    using i len by (auto simp: nth_list_update split: if_splits)
  ultimately have "seq_inv psize ?t" using len unfolding seq_inv_def by simp
  with Inr show ?thesis by (simp add: seq_mutate_def)
qed

interpretation seq_arena: guarded_system seq_exec "seq_legal psize" "seq_inv psize" for psize
proof (unfold_locales, goal_cases)
  case (1 s x)
  then show ?case
    by (cases x) (simp_all add: seq_allocate_inv seq_release_inv seq_mutate_inv del: seq_legal.simps(3))
qed

lemma SequenceArena_init_inv: "SequenceArena_init cap = Inr s \<Longrightarrow> seq_inv psize s"
  by (auto simp: SequenceArena_init_def seq_inv_def slot_ok_def split: if_splits)

lemma seq_assert_ok:
  assumes inv: "seq_inv psize s"
  shows "seq_assert_invariants psize s = Inr ()"
proof -
  have "check_slot psize s (i, states s ! i) = Inr ()" if "i < length (states s)" for i
    using seq_invD [OF inv, of i] inv that
    by (cases "states s ! i") (simp_all add: seq_inv_def slot_ok_def check_slot_def)
  then have "\<exists>us. traverse (check_slot psize s) (enumerate 0 (states s)) = Inr us"
    by (intro traverse_total) (auto simp: in_set_enumerate_eq)
  with inv show ?thesis by (auto simp: seq_assert_invariants_def seq_inv_def)
qed

section \<open>Stale sequence handles\<close>

definition seq_resolves :: "SequenceArena \<Rightarrow> SequenceHandle \<Rightarrow> bool" where
  "seq_resolves s h = (case get_mutable s h of Inl _ \<Rightarrow> False | Inr _ \<Rightarrow> True)"

definition seq_reach :: "int \<Rightarrow> SequenceArena \<Rightarrow> SequenceArena \<Rightarrow> bool" where
  "seq_reach psize s t \<longleftrightarrow> (\<exists>x. seq_legal psize x s \<and> t = snd (seq_exec x s))"

definition seq_gen :: "SequenceArena \<Rightarrow> nat \<Rightarrow> nat" where
  "seq_gen s i = (if i < seq_capacity s then generations s ! i else 0)"

definition seq_live :: "SequenceArena \<Rightarrow> nat \<Rightarrow> bool" where
  "seq_live s i \<longleftrightarrow> i < seq_capacity s \<and> states s ! i \<noteq> None"

text \<open>What one operation does to the generation and the liveness of a slot.\<close>

lemma seq_exec_slots:
  assumes inv: "seq_inv psize s" and legal: "seq_legal psize x s"
  defines "t \<equiv> snd (seq_exec x s)"
  shows "seq_gen s i \<le> seq_gen t i \<and> (\<not> seq_live s i \<and> seq_live t i \<longrightarrow> seq_gen s i < seq_gen t i)"
proof (cases x)
  case (SeqAllocate rid)
  show ?thesis
  proof (cases "rid = [] \<or> free_indices s = []")
    case True
    then show ?thesis by (auto simp: t_def SeqAllocate seq_allocate_def)
  next
    case False
    then obtain rest k where free: "free_indices s = rest @ [k]" by (metis append_butlast_last_id)
    have room: "\<forall>g\<in>set (generations s). g < MAX_HANDLE_GENERATION" using legal SeqAllocate by simp
    have rid: "rid \<noteq> []" using False by simp
    note A = seq_allocate_ok [OF inv room rid free]
    have len: "length (generations s) = seq_capacity s" "length (states s) = seq_capacity s"
      using inv by (simp_all add: seq_inv_def)
    show ?thesis
      using A(1,2) len by (auto simp: t_def SeqAllocate seq_gen_def seq_live_def nth_list_update)
  qed
next
  case (SeqRelease h)
  have "\<not> seq_live s i \<Longrightarrow> \<not> seq_live t i"
    using inv by (auto simp: t_def SeqRelease seq_release_def seq_live_def seq_inv_def nth_list_update
        get_mutable_Inr split: sum.splits if_splits)
  moreover have "seq_gen t i = seq_gen s i"
    by (auto simp: t_def SeqRelease seq_release_def seq_gen_def split: sum.splits)
  ultimately show ?thesis by auto
next
  case (SeqMutate h f)
  have "\<not> seq_live s i \<Longrightarrow> \<not> seq_live t i"
    using inv by (auto simp: t_def SeqMutate seq_mutate_def seq_live_def seq_inv_def nth_list_update
        get_mutable_Inr split: sum.splits if_splits)
  moreover have "seq_gen t i = seq_gen s i"
    by (auto simp: t_def SeqMutate seq_mutate_def seq_gen_def split: sum.splits)
  ultimately show ?thesis by auto
qed

interpretation seq_gens: generation_table seq_gen seq_live
    "\<lambda>s i g. seq_resolves s \<lparr>seq_index = i, seq_generation = g\<rparr>" "seq_reach psize" "seq_inv psize" for psize
proof (unfold_locales, goal_cases)
  case (1 s i g)
  show ?case
  proof (cases "i < seq_capacity s")
    case True
    with seq_invD [OF 1 True] show ?thesis
      by (cases "states s ! i")
         (auto simp: seq_resolves_def get_mutable_def seq_live_def seq_gen_def slot_ok_def)
  qed (simp add: seq_resolves_def get_mutable_def seq_live_def)
next
  case (2 s t)
  then show ?case by (auto simp: seq_reach_def intro: seq_arena.exec_inv)
next
  case (3 s t i)
  then show ?case using seq_exec_slots by (auto simp: seq_reach_def)
next
  case (4 s t i)
  then show ?case using seq_exec_slots by (auto simp: seq_reach_def)
qed

lemma seq_run_reaches:
  "legal_run seq_exec (seq_legal psize) xs s \<Longrightarrow> (seq_reach psize)\<^sup>*\<^sup>* s (run_ops seq_exec xs s)"
proof (induction xs arbitrary: s)
  case (Cons x xs)
  then have "seq_reach psize s (snd (seq_exec x s))" by (auto simp: seq_reach_def)
  with Cons show ?case by (auto intro: converse_rtranclp_into_rtranclp)
qed simp

section \<open>Properties\<close>

text \<open>
  C15. Addressing through a page table.  A table that passes \<open>validate\<close> and consists of
  constructed entries has exactly \<open>ceil(committed / page_size)\<close> entries, names no page
  twice, and every committed position \<open>p\<close> lies in entry \<open>p // page_size\<close> at an offset
  below that entry's valid-token count.
\<close>

theorem page_table_covers_positions:
  assumes ok: "validate_table entries committed psize = Inr ()" and psize: "0 < psize"
    and built: "\<forall>entry\<in>set entries. mk_entry (page entry) (entry_tokens entry) = Inr entry"
  shows "div_ceil committed psize = Inr (int (length entries)) \<and> distinct (map page entries) \<and>
    (\<forall>p. 0 \<le> p \<and> p < committed \<longrightarrow>
       nat (p div psize) < length entries \<and> p mod psize < entry_tokens (entries ! nat (p div psize)))"
proof (cases "entries = []")
  case True
  with ok psize show ?thesis by (simp add: validate_table_Inr div_ceil_def)
next
  case False
  let ?n = "length entries" and ?tail = "entry_tokens (last entries)"
  have pos: "0 < ?tail" using bspec [OF built last_in_set [OF False]] by (simp add: mk_entry_def split: if_splits)
  note T = validated_tail [OF ok False]
  have n1: "int (?n - 1) = int ?n - 1" using False by (simp add: Suc_le_eq of_nat_diff)
  obtain q where q: "div_ceil committed psize = Inr q" "committed \<le> q * psize" "(q - 1) * psize < committed"
    by (rule div_ceil_spec [OF psize])
  have "(int ?n - 1) * psize < committed" "committed \<le> int ?n * psize"
    using T pos n1 by (simp_all add: algebra_simps)
  with q psize have "(q - 1) * psize < int ?n * psize" "(int ?n - 1) * psize < q * psize" by linarith+
  with psize have "q - 1 < int ?n" "int ?n - 1 < q" by (simp_all add: mult_less_cancel_right)
  then have "q = int ?n" by linarith
  moreover have "nat (p div psize) < ?n \<and> p mod psize < entry_tokens (entries ! nat (p div psize))"
    if p: "0 \<le> p \<and> p < committed" for p
  proof -
    let ?k = "nat (p div psize)"
    have k: "int ?k = p div psize" using p psize by (simp add: pos_imp_zdiv_nonneg_iff)
    have split: "int ?k * psize + p mod psize = p" unfolding k by simp
    have m: "0 \<le> p mod psize" "p mod psize < psize" using psize by simp_all
    from split m p \<open>committed \<le> int ?n * psize\<close> have "int ?k * psize < int ?n * psize" by linarith
    with psize have "int ?k < int ?n" by (simp only: mult_less_cancel_right)
    then have lt: "?k < ?n" by (simp only: of_nat_less_iff)
    show ?thesis
    proof (cases "?k = ?n - 1")
      case True
      then have "entries ! ?k = last entries" using False by (simp add: last_conv_nth)
      moreover have "p mod psize < ?tail" using True split p T(1) by (metis add_less_cancel_left)
      ultimately show ?thesis using lt by simp
    next
      case False
      then have "?k < length (butlast entries)" using lt by simp
      then have "entries ! ?k \<in> set (butlast entries)" by (metis nth_butlast nth_mem)
      with ok have "entry_tokens (entries ! ?k) = psize" by (simp add: validate_table_Inr)
      with m lt show ?thesis by simp
    qed
  qed
  ultimately show ?thesis using q ok by (simp add: validate_table_Inr)
qed

definition sample_table :: "PageTableEntry list" where
  "sample_table = [\<lparr>page = mk_handle 3 1, entry_tokens = 16\<rparr>, \<lparr>page = mk_handle 5 2, entry_tokens = 5\<rparr>]"

theorem page_table_covers_positions_witness:
  "validate_table sample_table 21 16 = Inr () \<and>
   list_all (\<lambda>entry. mk_entry (page entry) (entry_tokens entry) = Inr entry) sample_table \<and>
   div_ceil 21 16 = Inr (int (length sample_table)) \<and> distinct (map page sample_table) \<and>
   nat (20 div 16) < length sample_table \<and> 20 mod 16 < entry_tokens (sample_table ! nat (20 div 16))"
proof -
  have ok: "validate_table sample_table 21 16 = Inr ()" by (simp add: sample_table_def validate_table_def mk_handle_def)
  have built: "\<forall>entry\<in>set sample_table. mk_entry (page entry) (entry_tokens entry) = Inr entry"
    by (simp add: sample_table_def mk_entry_def)
  have "div_ceil 21 16 = Inr (int (length sample_table)) \<and> distinct (map page sample_table) \<and>
    (\<forall>p. 0 \<le> p \<and> p < 21 \<longrightarrow>
       nat (p div 16) < length sample_table \<and> p mod 16 < entry_tokens (sample_table ! nat (p div 16)))"
    by (rule page_table_covers_positions [OF ok _ built]) simp
  moreover from this have "nat (20 div 16) < length sample_table \<and> 20 mod 16 < entry_tokens (sample_table ! nat (20 div 16))"
    by (elim conjE allE [of _ 20]) simp
  ultimately show ?thesis using ok built by (simp add: list_all_iff)
qed

text \<open>
  C16. The sequence arena's debug check passes in every state reachable from a new arena
  by allocations, releases and mutations that keep a sequence's identity and the
  consistency of its page table, whichever of these calls raise.
\<close>

theorem sequence_arena_invariants_hold:
  assumes "SequenceArena_init cap = Inr s" "legal_run seq_exec (seq_legal psize) ops s"
  shows "seq_assert_invariants psize (run_ops seq_exec ops s) = Inr ()"
  using assms by (intro seq_assert_ok seq_arena.run_inv) (rule SequenceArena_init_inv)

definition sample_seq_ops :: "seq_op list" where
  "sample_seq_ops =
     [SeqAllocate ''a'', SeqAllocate ''b'', SeqAllocate ''c'',
      SeqMutate \<lparr>seq_index = 0, seq_generation = 1\<rparr>
        (\<lambda>st. st\<lparr>page_table := [\<lparr>page = mk_handle 7 1, entry_tokens = 3\<rparr>], committed_tokens := 3\<rparr>),
      SeqRelease \<lparr>seq_index = 0, seq_generation = 1\<rparr>, SeqRelease \<lparr>seq_index = 1, seq_generation = 1\<rparr>]"

definition sample_arena :: SequenceArena where
  "sample_arena = \<lparr>seq_capacity = 2, generations = [0, 0], states = [None, None], free_indices = [1, 0]\<rparr>"

lemma sample_arena_init: "SequenceArena_init 2 = Inr sample_arena"
  by (simp add: SequenceArena_init_def sample_arena_def upt_rec numeral_2_eq_2)

lemma sample_seq_legal: "legal_run seq_exec (seq_legal 16) sample_seq_ops sample_arena"
  by (simp add: sample_seq_ops_def sample_arena_def seq_allocate_def mk_sequence_handle_def discard_def
      andthen_def Let_def MAX_HANDLE_GENERATION_def seq_release_def seq_mutate_def get_mutable_def
      fresh_sequence_def busy_def validate_table_def mk_handle_def)

theorem sequence_arena_invariants_hold_witness:
  "seq_assert_invariants 16 (run_ops seq_exec sample_seq_ops sample_arena) = Inr ()"
  by (rule sequence_arena_invariants_hold [OF sample_arena_init sample_seq_legal])

text \<open>
  C17. A sequence handle that has stopped resolving never resolves again, whatever
  sequences are created, changed or released afterwards.
\<close>

theorem stale_sequence_handle_stays_stale:
  assumes "seq_inv psize s" "legal_run seq_exec (seq_legal psize) ops s" "i < seq_capacity s"
    "g \<le> generations s ! i" "\<not> seq_resolves s \<lparr>seq_index = i, seq_generation = g\<rparr>"
  shows "\<not> seq_resolves (run_ops seq_exec ops s) \<lparr>seq_index = i, seq_generation = g\<rparr>"
  using seq_gens.stale_forever [OF seq_run_reaches [OF assms(2)] assms(1), of g i] assms(3-5)
  by (simp add: seq_gen_def)

theorem stale_sequence_handle_stays_stale_witness:
  "\<not> seq_resolves (run_ops seq_exec [SeqAllocate ''d''] (run_ops seq_exec sample_seq_ops sample_arena))
     \<lparr>seq_index = 1, seq_generation = 1\<rparr>"
proof (rule stale_sequence_handle_stays_stale [where psize = 16])
  show "seq_inv 16 (run_ops seq_exec sample_seq_ops sample_arena)"
    by (rule seq_arena.run_inv [OF SequenceArena_init_inv [OF sample_arena_init] sample_seq_legal])
qed (simp_all add: sample_seq_ops_def sample_arena_def seq_allocate_def mk_sequence_handle_def discard_def
      andthen_def Let_def MAX_HANDLE_GENERATION_def seq_release_def seq_mutate_def get_mutable_def
      fresh_sequence_def busy_def seq_resolves_def)

end
