(* ===== verification/Memory_Ledger.thy ===== *)
theory Memory_Ledger
  imports Byte_Regions
begin

text \<open>
  The memory ledger, \<open>memory/ledger.py\<close>: one capacity account per tier, committed entries
  keyed by label, open tickets for reservations and tier transfers, and the verbs that move
  bytes between them.  The four dictionaries are association lists.  \<open>replace\<close> on a frozen
  dataclass runs \<open>__post_init__\<close> again, so it is \<open>remake\<close> here and may raise.  A ticket is
  compared by object identity in the code (\<open>op.ticket is not ticket\<close>); a ticket therefore
  carries the identity of the ledger that built it, which together with its number
  identifies the object.  Telemetry is fail-open and has no effect on the ledger.
\<close>

section \<open>Accounts and reservations\<close>

record TierAccount =
  account_tier :: MemoryTier
  capacity_bytes :: int
  total_bytes :: int

definition mk_account :: "MemoryTier \<Rightarrow> int \<Rightarrow> int \<Rightarrow> pyerror + TierAccount" where
  "mk_account t cap phys =
     (if \<not> allocatable t then Inl ValueError
      else if cap < 0 then Inl ValueError
      else if phys \<noteq> 0 \<and> phys < cap then Inl ValueError
      else Inr \<lparr>account_tier = t, capacity_bytes = cap, total_bytes = phys\<rparr>)"

record Reservation =
  res_owner :: MemoryOwner
  res_label :: string
  reserved_bytes :: int
  backed_bytes :: int
  res_tier :: MemoryTier
  res_device :: int
  res_region :: "MemoryRegion option"
  charged_bytes :: int

definition mk_reservation ::
  "MemoryOwner \<Rightarrow> string \<Rightarrow> int \<Rightarrow> int \<Rightarrow> MemoryTier \<Rightarrow> int \<Rightarrow> MemoryRegion option \<Rightarrow> int option
    \<Rightarrow> pyerror + Reservation" where
  "mk_reservation owner label reserved backed_n t dev reg charged_opt =
     (if list_all is_space label then Inl ValueError
      else let charged = (case charged_opt of None \<Rightarrow> backed_n | Some c \<Rightarrow> c) in
        if reserved < 0 \<or> backed_n < 0 \<or> charged < 0 then Inl ValueError
        else if backed_n > reserved then Inl ValueError
        else if charged > reserved then Inl ValueError
        else if \<not> allocatable t then Inl ValueError
        else if (case reg of
                   None \<Rightarrow> False
                 | Some r \<Rightarrow> region_owner r \<noteq> owner \<or> region_tier r \<noteq> t \<or>
                             region_device r \<ge> 0 \<and> region_device r \<noteq> dev \<or> backed_n > nbytes r)
        then Inl ValueError
        else Inr \<lparr>res_owner = owner, res_label = label, reserved_bytes = reserved,
                  backed_bytes = backed_n, res_tier = t, res_device = dev, res_region = reg,
                  charged_bytes = charged\<rparr>)"

text \<open>\<open>dataclasses.replace(r, ...)\<close> on an already updated record.\<close>

definition remake :: "Reservation \<Rightarrow> pyerror + Reservation" where
  "remake r = mk_reservation (res_owner r) (res_label r) (reserved_bytes r) (backed_bytes r)
     (res_tier r) (res_device r) (res_region r) (Some (charged_bytes r))"

definition Reservation_backed ::
  "MemoryOwner \<Rightarrow> string \<Rightarrow> int \<Rightarrow> MemoryTier \<Rightarrow> int \<Rightarrow> MemoryRegion option \<Rightarrow> pyerror + Reservation" where
  "Reservation_backed owner label n t dev reg = mk_reservation owner label n n t dev reg None"

definition Reservation_from_region :: "MemoryRegion \<Rightarrow> string \<Rightarrow> pyerror + Reservation" where
  "Reservation_from_region r label =
     mk_reservation (region_owner r) label (nbytes r) (if backed r then nbytes r else 0) (region_tier r)
       (if region_device r \<ge> 0 then region_device r else 0) (Some r) None"

section \<open>Tickets and the ledger\<close>

record Ticket =
  ticket_id :: int
  ticket_label :: string
  ticket_tier :: MemoryTier
  from_tier :: "MemoryTier option"
  ticket_origin :: nat

definition is_transfer :: "Ticket \<Rightarrow> bool" where
  "is_transfer t \<longleftrightarrow> from_tier t \<noteq> None"

record PendingOp =
  op_ticket :: Ticket
  destination :: Reservation
  source_label :: "string option"
  source_snapshot :: "Reservation option"
  materialized :: bool

record MemoryLedger =
  ledger_uid :: nat
  accounts :: "(MemoryTier \<times> TierAccount) list"
  ledger_device :: int
  entries :: "(string \<times> Reservation) list"
  pending :: "(int \<times> PendingOp) list"
  claimed_labels :: "(string \<times> int) list"
  locked_sources :: "(string \<times> int) list"
  next_id :: int

fun collect_accounts ::
  "(MemoryTier \<times> TierAccount) list \<Rightarrow> TierAccount list \<Rightarrow> pyerror + (MemoryTier \<times> TierAccount) list" where
  "collect_accounts by_tier [] = Inr by_tier"
| "collect_accounts by_tier (a # as) =
     (if map_of by_tier (account_tier a) \<noteq> None then Inl ValueError
      else collect_accounts (AList.update (account_tier a) a by_tier) as)"

definition MemoryLedger_init :: "nat \<Rightarrow> TierAccount list \<Rightarrow> int \<Rightarrow> pyerror + MemoryLedger" where
  "MemoryLedger_init uid accts dev =
     (if accts = [] then Inl ValueError
      else ebind (collect_accounts [] accts) (\<lambda>by_tier.
        Inr \<lparr>ledger_uid = uid, accounts = by_tier, ledger_device = dev, entries = [], pending = [],
             claimed_labels = [], locked_sources = [], next_id = 1\<rparr>))"

text \<open>\<open>MemoryLedger.for_device\<close>: the device account and the host tiers that are switched on.\<close>

definition for_device :: "nat \<Rightarrow> int \<Rightarrow> int \<Rightarrow> int \<Rightarrow> int \<Rightarrow> int \<Rightarrow> int \<Rightarrow> int \<Rightarrow> pyerror + MemoryLedger" where
  "for_device uid device_budget device_total host_pinned host_pageable disk host_total dev =
     ebind (traverse (\<lambda>(t, cap, phys). mk_account t cap phys)
       ([(DEVICE, device_budget, device_total)]
        @ (if host_pinned \<noteq> 0 then [(HOST_PINNED, host_pinned, host_total)] else [])
        @ (if host_pageable \<noteq> 0 then [(HOST_PAGEABLE, host_pageable, host_total)] else [])
        @ (if disk \<noteq> 0 then [(DISK, disk, 0)] else [])))
       (\<lambda>accts. MemoryLedger_init uid accts dev)"

section \<open>Reads\<close>

definition account :: "MemoryLedger \<Rightarrow> MemoryTier \<Rightarrow> pyerror + TierAccount" where
  "account L t = (case map_of (accounts L) t of None \<Rightarrow> Inl KeyError | Some a \<Rightarrow> Inr a)"

definition charge_on :: "MemoryTier \<Rightarrow> Reservation \<Rightarrow> int" where
  "charge_on t r = (if res_tier r = t then charged_bytes r else 0)"

definition committed :: "MemoryLedger \<Rightarrow> MemoryTier \<Rightarrow> int" where
  "committed L t = dsum (charge_on t) (entries L)"

definition pending_charge :: "MemoryLedger \<Rightarrow> MemoryTier \<Rightarrow> int" where
  "pending_charge L t = dsum (\<lambda>op. charge_on t (destination op)) (pending L)"

definition committed_materialized :: "MemoryLedger \<Rightarrow> MemoryTier \<Rightarrow> int" where
  "committed_materialized L t = dsum (\<lambda>r. if res_tier r = t then backed_bytes r else 0) (entries L)"

definition pending_materialized :: "MemoryLedger \<Rightarrow> MemoryTier \<Rightarrow> int" where
  "pending_materialized L t =
     dsum (\<lambda>op. if res_tier (destination op) = t \<and> materialized op then backed_bytes (destination op) else 0)
       (pending L)"

definition held :: "MemoryLedger \<Rightarrow> MemoryTier \<Rightarrow> int" where
  "held L t = committed L t + pending_charge L t"

definition ledger_free :: "MemoryLedger \<Rightarrow> MemoryTier \<Rightarrow> pyerror + int" where
  "ledger_free L t =
     ebind (account L t) (\<lambda>a. Inr (max (capacity_bytes a - committed L t - pending_charge L t) 0))"

text \<open>\<open>totals[k] = totals.get(k, 0) + n\<close>, in a loop over the selected values.\<close>

definition add_to :: "'k \<Rightarrow> int \<Rightarrow> ('k \<times> int) list \<Rightarrow> ('k \<times> int) list" where
  "add_to k n totals =
     AList.update k ((case map_of totals k of None \<Rightarrow> 0 | Some v \<Rightarrow> v) + n) totals"

definition by_owner :: "MemoryTier option \<Rightarrow> MemoryLedger \<Rightarrow> (MemoryOwner \<times> int) list" where
  "by_owner t L =
     fold (\<lambda>(_, r) totals. if t \<noteq> None \<and> t \<noteq> Some (res_tier r) then totals
                           else add_to (res_owner r) (charged_bytes r) totals) (entries L) []"

definition pending_by_owner :: "MemoryTier option \<Rightarrow> MemoryLedger \<Rightarrow> (MemoryOwner \<times> int) list" where
  "pending_by_owner t L =
     fold (\<lambda>(_, op) totals.
             let r = destination op in
             if t \<noteq> None \<and> t \<noteq> Some (res_tier r) then totals
             else add_to (res_owner r) (charged_bytes r) totals) (pending L) []"

definition materialized_by_owner :: "MemoryTier option \<Rightarrow> MemoryLedger \<Rightarrow> (MemoryOwner \<times> int) list" where
  "materialized_by_owner t L =
     fold (\<lambda>(_, op) totals.
             let r = destination op in
             if \<not> materialized op \<or> t \<noteq> None \<and> t \<noteq> Some (res_tier r) then totals
             else add_to (res_owner r) (backed_bytes r) totals) (pending L)
       (fold (\<lambda>(_, r) totals. if t \<noteq> None \<and> t \<noteq> Some (res_tier r) then totals
                              else add_to (res_owner r) (backed_bytes r) totals) (entries L) [])"

definition check_capacity :: "Reservation \<Rightarrow> string option \<Rightarrow> int option \<Rightarrow> MemoryLedger \<Rightarrow> pyerror + unit" where
  "check_capacity r excluding excluding_pending L =
     ebind (account L (res_tier r)) (\<lambda>a.
       let c = dsum (charge_on (res_tier r)) (filter (\<lambda>(lbl, _). Some lbl \<noteq> excluding) (entries L));
           p = dsum (\<lambda>op. charge_on (res_tier r) (destination op))
                 (filter (\<lambda>(i, _). Some i \<noteq> excluding_pending) (pending L))
       in require (c + p + charged_bytes r \<le> capacity_bytes a) MemoryError)"

definition require_ticket :: "MemoryLedger \<Rightarrow> Ticket \<Rightarrow> pyerror + PendingOp" where
  "require_ticket L t =
     (case map_of (pending L) (ticket_id t) of
        None \<Rightarrow> Inl KeyError
      | Some op \<Rightarrow> if op_ticket op \<noteq> t then Inl ValueError else Inr op)"

definition require_unlocked_source :: "MemoryLedger \<Rightarrow> string \<Rightarrow> pyerror + unit" where
  "require_unlocked_source L label = require (map_of (locked_sources L) label = None) RuntimeError"

section \<open>Verbs\<close>

definition claim_label :: "string \<Rightarrow> int \<Rightarrow> string option \<Rightarrow> (MemoryLedger, unit) py" where
  "claim_label label i src L =
     (if map_of (claimed_labels L) label \<noteq> None \<or> map_of (entries L) label \<noteq> None \<and> Some label \<noteq> src
      then (Inl ValueError, L)
      else (Inr (), L\<lparr>claimed_labels := AList.update label i (claimed_labels L)\<rparr>))"

definition finish_ticket :: "PendingOp \<Rightarrow> MemoryLedger \<Rightarrow> MemoryLedger" where
  "finish_ticket op L =
     L\<lparr>pending := AList.delete (ticket_id (op_ticket op)) (pending L),
       claimed_labels := AList.delete (res_label (destination op)) (claimed_labels L),
       locked_sources := (case source_label op of
                            None \<Rightarrow> locked_sources L
                          | Some s \<Rightarrow> AList.delete s (locked_sources L))\<rparr>"

definition reserve :: "Reservation \<Rightarrow> (MemoryLedger, Ticket) py" where
  "reserve r L =
     (case ebind (account L (res_tier r)) (\<lambda>_. check_capacity r None None L) of
        Inl e \<Rightarrow> (Inl e, L)
      | Inr _ \<Rightarrow>
          let t = \<lparr>ticket_id = next_id L, ticket_label = res_label r, ticket_tier = res_tier r,
                   from_tier = None, ticket_origin = ledger_uid L\<rparr>
          in andthen (claim_label (res_label r) (ticket_id t) None) (\<lambda>_ M1.
               case remake (r\<lparr>backed_bytes := 0, res_region := None\<rparr>) of
                 Inl e \<Rightarrow> (Inl e, M1)
               | Inr dest \<Rightarrow>
                   (Inr t, M1\<lparr>pending := AList.update (ticket_id t)
                      \<lparr>op_ticket = t, destination = dest, source_label = None, source_snapshot = None,
                       materialized = False\<rparr> (pending M1)\<rparr>))
             (L\<lparr>next_id := next_id L + 1\<rparr>))"

definition materialize :: "Ticket \<Rightarrow> int \<Rightarrow> MemoryRegion option \<Rightarrow> (MemoryLedger, unit) py" where
  "materialize t actual reg L =
     (if actual < 0 then (Inl ValueError, L)
      else case require_ticket L t of
        Inl e \<Rightarrow> (Inl e, L)
      | Inr op \<Rightarrow>
          if materialized op then (Inl RuntimeError, L)
          else case remake ((destination op)\<lparr>backed_bytes := actual,
                     charged_bytes := max (charged_bytes (destination op)) actual, res_region := reg\<rparr>) of
            Inl e \<Rightarrow> (Inl e, L)
          | Inr updated \<Rightarrow>
              (case check_capacity updated None (Some (ticket_id t)) L of
                 Inl e \<Rightarrow> (Inl e, L)
               | Inr _ \<Rightarrow> (Inr (), L\<lparr>pending := AList.update (ticket_id t)
                             (op\<lparr>destination := updated, materialized := True\<rparr>) (pending L)\<rparr>)))"

definition commit :: "Ticket \<Rightarrow> (MemoryLedger, unit) py" where
  "commit t L =
     (case require_ticket L t of
        Inl e \<Rightarrow> (Inl e, L)
      | Inr op \<Rightarrow>
          if \<not> materialized op then (Inl RuntimeError, L)
          else case source_label op of
            None \<Rightarrow>
              (Inr (), finish_ticket op
                 (L\<lparr>entries := AList.update (res_label (destination op)) (destination op) (entries L)\<rparr>))
          | Some s \<Rightarrow>
              if map_of (entries L) s \<noteq> source_snapshot op then (Inl RuntimeError, L)
              else if map_of (entries L) s = None then (Inl KeyError, L)
              else (Inr (), finish_ticket op
                 (L\<lparr>entries := AList.update (res_label (destination op)) (destination op)
                                 (AList.delete s (entries L))\<rparr>)))"

definition rollback :: "Ticket \<Rightarrow> (MemoryLedger, unit) py" where
  "rollback t L =
     (case require_ticket L t of
        Inl e \<Rightarrow> (Inl e, L)
      | Inr op \<Rightarrow> (Inr (), finish_ticket op L))"

definition release :: "string \<Rightarrow> (MemoryLedger, Reservation option) py" where
  "release label L =
     (case require_unlocked_source L label of
        Inl e \<Rightarrow> (Inl e, L)
      | Inr _ \<Rightarrow> (Inr (map_of (entries L) label), L\<lparr>entries := AList.delete label (entries L)\<rparr>))"

text \<open>\<open>new_label or label\<close>: an empty new label counts as none.\<close>

definition transfer_label :: "string \<Rightarrow> string option \<Rightarrow> string" where
  "transfer_label label new_label =
     (case new_label of None \<Rightarrow> label | Some l \<Rightarrow> if l = [] then label else l)"

definition transfer :: "string \<Rightarrow> MemoryTier \<Rightarrow> string option \<Rightarrow> (MemoryLedger, Ticket) py" where
  "transfer label to_tier new_label L =
     (case map_of (entries L) label of
        None \<Rightarrow> (Inl KeyError, L)
      | Some current \<Rightarrow>
          if res_tier current = to_tier then (Inl ValueError, L)
          else case ebind (require_unlocked_source L label) (\<lambda>_. account L to_tier) of
            Inl e \<Rightarrow> (Inl e, L)
          | Inr _ \<Rightarrow>
              (case remake (current\<lparr>res_tier := to_tier, res_label := transfer_label label new_label,
                                     backed_bytes := 0, res_region := None\<rparr>) of
                 Inl e \<Rightarrow> (Inl e, L)
               | Inr dest \<Rightarrow>
                   (case check_capacity dest None None L of
                      Inl e \<Rightarrow> (Inl e, L)
                    | Inr _ \<Rightarrow>
                        let t = \<lparr>ticket_id = next_id L, ticket_label = label, ticket_tier = to_tier,
                                 from_tier = Some (res_tier current), ticket_origin = ledger_uid L\<rparr>
                        in andthen (claim_label (transfer_label label new_label) (ticket_id t) (Some label))
                             (\<lambda>_ M1. (Inr t,
                                M1\<lparr>locked_sources := AList.update label (ticket_id t) (locked_sources M1),
                                   pending := AList.update (ticket_id t)
                                     \<lparr>op_ticket = t, destination = dest, source_label = Some label,
                                      source_snapshot = Some current, materialized = False\<rparr> (pending M1)\<rparr>))
                             (L\<lparr>next_id := next_id L + 1\<rparr>))))"

text \<open>\<open>admit\<close>: the \<open>except\<close> clause rolls an open ticket back and raises again.\<close>

definition admit :: "Reservation \<Rightarrow> (MemoryLedger, unit) py" where
  "admit r L =
     (case reserve r L of
        (Inl e, M1) \<Rightarrow> (Inl e, M1)
      | (Inr t, M1) \<Rightarrow>
          (case andthen (materialize t (backed_bytes r) (res_region r)) (\<lambda>_. commit t) M1 of
             (Inr _, M2) \<Rightarrow> (Inr (), M2)
           | (Inl e, M2) \<Rightarrow>
               if map_of (pending M2) (ticket_id t) \<noteq> None
               then (case rollback t M2 of (Inl e', M3) \<Rightarrow> (Inl e', M3) | (Inr _, M3) \<Rightarrow> (Inl e, M3))
               else (Inl e, M2)))"

definition update :: "string \<Rightarrow> int \<Rightarrow> int option \<Rightarrow> int option \<Rightarrow> (MemoryLedger, unit) py" where
  "update label backed_n reserved_opt charged_opt L =
     (case require_unlocked_source L label of
        Inl e \<Rightarrow> (Inl e, L)
      | Inr _ \<Rightarrow>
          (case map_of (entries L) label of
             None \<Rightarrow> (Inl KeyError, L)
           | Some current \<Rightarrow>
               (case remake (current\<lparr>backed_bytes := backed_n,
                   charged_bytes := (case charged_opt of None \<Rightarrow> backed_n | Some c \<Rightarrow> c),
                   reserved_bytes := (case reserved_opt of None \<Rightarrow> backed_n | Some n \<Rightarrow> n)\<rparr>) of
                  Inl e \<Rightarrow> (Inl e, L)
                | Inr updated \<Rightarrow>
                    (case check_capacity updated (Some label) None L of
                       Inl e \<Rightarrow> (Inl e, L)
                     | Inr _ \<Rightarrow> (Inr (), L\<lparr>entries := AList.update label updated (entries L)\<rparr>)))))"

definition selects :: "MemoryOwner \<Rightarrow> MemoryTier option \<Rightarrow> Reservation \<Rightarrow> bool" where
  "selects owner t r \<longleftrightarrow> res_owner r = owner \<and> (t = None \<or> t = Some (res_tier r))"

definition release_owner :: "MemoryOwner \<Rightarrow> MemoryTier option \<Rightarrow> (MemoryLedger, int) py" where
  "release_owner owner t L =
     (if \<exists>(_, op)\<in>set (pending L). selects owner t (destination op) then (Inl RuntimeError, L)
      else let labels = map fst (filter (\<lambda>(_, r). selects owner t r) (entries L)) in
        case traverse (require_unlocked_source L) labels of
          Inl e \<Rightarrow> (Inl e, L)
        | Inr _ \<Rightarrow>
            (Inr (sum_list (map (\<lambda>lbl. charged_bytes (the (map_of (entries L) lbl))) labels)),
             L\<lparr>entries := fold AList.delete labels (entries L)\<rparr>))"

section \<open>Checks and views\<close>

definition reconcile :: "MemoryTier \<Rightarrow> int \<Rightarrow> int \<Rightarrow> MemoryLedger \<Rightarrow> pyerror + int" where
  "reconcile t observed_free tolerance L =
     ebind (account L t) (\<lambda>a.
       if total_bytes a = 0 then Inl ValueError
       else if \<not> (0 \<le> observed_free \<and> observed_free \<le> total_bytes a) then Inl ValueError
       else if tolerance < 0 then Inl ValueError
       else let drift = (total_bytes a - observed_free)
                        - (committed_materialized L t + pending_materialized L t)
            in if \<bar>drift\<bar> > tolerance then Inl LedgerDrift else Inr drift)"

definition assert_within_capacity :: "MemoryLedger \<Rightarrow> pyerror + unit" where
  "assert_within_capacity L =
     ebind (traverse (\<lambda>(t, a). require (committed L t + pending_charge L t \<le> capacity_bytes a) MemoryError)
              (accounts L)) (\<lambda>_. Inr ())"

record TierAccountSnapshot =
  tas_tier :: MemoryTier
  tas_capacity :: int
  tas_committed :: int
  tas_pending :: int
  tas_committed_materialized :: int
  tas_pending_materialized :: int
  tas_reserved_va :: int
  tas_num_entries :: int

definition held_bytes :: "TierAccountSnapshot \<Rightarrow> int" where
  "held_bytes s = tas_committed s + tas_pending s"

definition free_bytes :: "TierAccountSnapshot \<Rightarrow> int" where
  "free_bytes s = max (tas_capacity s - held_bytes s) 0"

record LedgerSnapshot =
  ls_device :: int
  ls_tiers :: "(MemoryTier \<times> TierAccountSnapshot) list"
  charged_by_owner :: "(MemoryOwner \<times> int) list"
  pending_charged_by_owner :: "(MemoryOwner \<times> int) list"
  ls_materialized_by_owner :: "(MemoryOwner \<times> int) list"
  num_open_tickets :: int

definition ledger_snapshot :: "MemoryLedger \<Rightarrow> LedgerSnapshot" where
  "ledger_snapshot L =
     \<lparr>ls_device = ledger_device L,
      ls_tiers = map (\<lambda>(t, a).
        let es = filter (\<lambda>(_, r). res_tier r = t) (entries L) in
        (t, \<lparr>tas_tier = t, tas_capacity = capacity_bytes a,
             tas_committed = dsum charged_bytes es, tas_pending = pending_charge L t,
             tas_committed_materialized = dsum backed_bytes es,
             tas_pending_materialized = pending_materialized L t,
             tas_reserved_va = dsum reserved_bytes es, tas_num_entries = int (length es)\<rparr>)) (accounts L),
      charged_by_owner = by_owner None L, pending_charged_by_owner = pending_by_owner None L,
      ls_materialized_by_owner = materialized_by_owner None L,
      num_open_tickets = int (length (pending L))\<rparr>"

section \<open>The operations as one datatype\<close>

datatype ledger_op =
    L_Reserve Reservation
  | L_Materialize Ticket int "MemoryRegion option"
  | L_Commit Ticket
  | L_Rollback Ticket
  | L_Release string
  | L_Transfer string MemoryTier "string option"
  | L_Admit Reservation
  | L_Update string int "int option" "int option"
  | L_Release_Owner MemoryOwner "MemoryTier option"

fun ledger_exec :: "ledger_op \<Rightarrow> (MemoryLedger, unit) py" where
  "ledger_exec (L_Reserve r) = discard (reserve r)"
| "ledger_exec (L_Materialize t n reg) = materialize t n reg"
| "ledger_exec (L_Commit t) = commit t"
| "ledger_exec (L_Rollback t) = rollback t"
| "ledger_exec (L_Release label) = discard (release label)"
| "ledger_exec (L_Transfer label t new_label) = discard (transfer label t new_label)"
| "ledger_exec (L_Admit r) = admit r"
| "ledger_exec (L_Update label b res ch) = update label b res ch"
| "ledger_exec (L_Release_Owner owner t) = discard (release_owner owner t)"

text \<open>Callers pass reservation objects, which only the constructor builds.\<close>

definition res_ok :: "Reservation \<Rightarrow> bool" where
  "res_ok r \<longleftrightarrow> remake r = Inr r"

fun ledger_legal :: "ledger_op \<Rightarrow> MemoryLedger \<Rightarrow> bool" where
  "ledger_legal (L_Reserve r) L = res_ok r"
| "ledger_legal (L_Admit r) L = res_ok r"
| "ledger_legal _ L = True"

end
