(* ===== verification/Ledger_Invariant.thy ===== *)
theory Ledger_Invariant
  imports Memory_Ledger
begin

text \<open>
  The invariant of the memory ledger.  Its structural half relates the four dictionaries,
  read as partial functions: every open ticket holds a claim on its destination label, a
  transfer holds a lock on its source, and the source entry is still the one the transfer
  saw.  Its numeric half says that no tier holds more than its capacity.
\<close>

section \<open>Reservations\<close>

lemma remake_Inr: "remake r = Inr q \<longleftrightarrow> q = r \<and> res_ok r"
  by (auto simp: res_ok_def remake_def mk_reservation_def Let_def split: if_splits)

lemma res_ok_iff:
  "res_ok r \<longleftrightarrow>
     \<not> list_all is_space (res_label r) \<and> 0 \<le> backed_bytes r \<and> backed_bytes r \<le> reserved_bytes r \<and>
     0 \<le> charged_bytes r \<and> charged_bytes r \<le> reserved_bytes r \<and> allocatable (res_tier r) \<and>
     (case res_region r of
        None \<Rightarrow> True
      | Some g \<Rightarrow> region_owner g = res_owner r \<and> region_tier g = res_tier r \<and>
                  (region_device g \<ge> 0 \<longrightarrow> region_device g = res_device r) \<and> backed_bytes r \<le> nbytes g)"
  by (auto simp: res_ok_def remake_def mk_reservation_def Let_def split: option.splits)

lemma charge_on_nonneg: "res_ok r \<Longrightarrow> 0 \<le> charge_on t r"
  by (simp add: charge_on_def res_ok_iff)

lemma mk_reservation_ok: "mk_reservation owner label res b t dev reg ch = Inr r \<Longrightarrow> res_ok r"
  by (auto simp: mk_reservation_def res_ok_iff Let_def split: if_splits option.splits)

section \<open>The structural half\<close>

type_synonym ledger_maps =
  "(string \<rightharpoonup> Reservation) \<times> (int \<rightharpoonup> PendingOp) \<times> (string \<rightharpoonup> int) \<times> (string \<rightharpoonup> int) \<times> int"

definition op_ok :: "ledger_maps \<Rightarrow> int \<Rightarrow> PendingOp \<Rightarrow> bool" where
  "op_ok = (\<lambda>(E, P, C, K, n) i op.
     ticket_id (op_ticket op) = i \<and> i < n \<and> res_ok (destination op) \<and>
     C (res_label (destination op)) = Some i \<and>
     (case source_label op of
        None \<Rightarrow> E (res_label (destination op)) = None
      | Some s \<Rightarrow> K s = Some i \<and> source_snapshot op \<noteq> None \<and> E s = source_snapshot op \<and>
                  (res_label (destination op) \<noteq> s \<longrightarrow> E (res_label (destination op)) = None)))"

definition linked :: "ledger_maps \<Rightarrow> bool" where
  "linked = (\<lambda>(E, P, C, K, n).
     (\<forall>lbl r. E lbl = Some r \<longrightarrow> res_label r = lbl \<and> res_ok r) \<and>
     (\<forall>i op. P i = Some op \<longrightarrow> op_ok (E, P, C, K, n) i op) \<and>
     (\<forall>lbl i. C lbl = Some i \<longrightarrow> (\<exists>op. P i = Some op \<and> res_label (destination op) = lbl)) \<and>
     (\<forall>s i. K s = Some i \<longrightarrow> (\<exists>op. P i = Some op \<and> source_label op = Some s)))"

lemma linkedD:
  assumes "linked (E, P, C, K, n)"
  shows "E lbl = Some r \<Longrightarrow> res_label r = lbl" "E lbl = Some r \<Longrightarrow> res_ok r"
    "P i = Some op \<Longrightarrow> op_ok (E, P, C, K, n) i op"
    "C lbl = Some i \<Longrightarrow> \<exists>op. P i = Some op \<and> res_label (destination op) = lbl"
    "K s = Some i \<Longrightarrow> \<exists>op. P i = Some op \<and> source_label op = Some s"
  using assms by (auto simp: linked_def)

lemma linkedI:
  assumes "\<And>lbl r. E lbl = Some r \<Longrightarrow> res_label r = lbl \<and> res_ok r"
    "\<And>i op. P i = Some op \<Longrightarrow> op_ok (E, P, C, K, n) i op"
    "\<And>lbl i. C lbl = Some i \<Longrightarrow> \<exists>op. P i = Some op \<and> res_label (destination op) = lbl"
    "\<And>s i. K s = Some i \<Longrightarrow> \<exists>op. P i = Some op \<and> source_label op = Some s"
  shows "linked (E, P, C, K, n)"
  using assms by (auto simp: linked_def)

lemma no_future_ticket: "linked (E, P, C, K, n) \<Longrightarrow> P n = None"
  by (cases "P n") (auto dest: linkedD(3) simp: op_ok_def)

lemma linked_open:
  assumes L: "linked (E, P, C, K, n)" and op: "ticket_id (op_ticket op) = n" "res_ok (destination op)"
    and free: "C (res_label (destination op)) = None"
    and src: "case source_label op of
        None \<Rightarrow> K' = K \<and> E (res_label (destination op)) = None
      | Some s \<Rightarrow> K s = None \<and> K' = K(s \<mapsto> n) \<and> source_snapshot op \<noteq> None \<and> E s = source_snapshot op \<and>
                  (res_label (destination op) \<noteq> s \<longrightarrow> E (res_label (destination op)) = None)"
  shows "linked (E, P(n \<mapsto> op), C(res_label (destination op) \<mapsto> n), K', n + 1)"
proof (rule linkedI)
  have new: "P n = None" by (rule no_future_ticket [OF L])
  have K': "K' s = K s" if "source_label op \<noteq> Some s" for s
    using src that by (auto split: option.splits)
  show "op_ok (E, P(n \<mapsto> op), C(res_label (destination op) \<mapsto> n), K', n + 1) i q"
    if "(P(n \<mapsto> op)) i = Some q" for i q
  proof (cases "i = n")
    case True
    with that op src show ?thesis by (auto simp: op_ok_def split: option.splits)
  next
    case False
    with that have q: "P i = Some q" by simp
    from linkedD(3) [OF L q] have ok: "op_ok (E, P, C, K, n) i q" .
    then have "res_label (destination q) \<noteq> res_label (destination op)" using free by (auto simp: op_ok_def)
    moreover have "source_label op \<noteq> Some s" if "source_label q = Some s" for s
      using ok that src by (auto simp: op_ok_def split: option.splits)
    ultimately show ?thesis using ok K' by (auto simp: op_ok_def split: option.splits)
  qed
  show "\<exists>q. (P(n \<mapsto> op)) i = Some q \<and> res_label (destination q) = lbl"
    if "(C(res_label (destination op) \<mapsto> n)) lbl = Some i" for lbl i
    using that linkedD(4) [OF L, of lbl i] new by (auto split: if_splits)
  show "\<exists>q. (P(n \<mapsto> op)) i = Some q \<and> source_label q = Some s" if "K' s = Some i" for s i
  proof (cases "source_label op = Some s")
    case True
    then show ?thesis using that src by auto
  next
    case False
    with that K' have "K s = Some i" by simp
    with linkedD(5) [OF L] obtain q where "P i = Some q" "source_label q = Some s" by blast
    with new show ?thesis by (cases "i = n") auto
  qed
qed (use L in \<open>auto dest: linkedD(1,2)\<close>)

lemma linked_materialize:
  assumes L: "linked (E, P, C, K, n)" and i: "P i = Some op"
    and d: "res_ok d" "res_label d = res_label (destination op)"
  shows "linked (E, P(i \<mapsto> op\<lparr>destination := d, materialized := True\<rparr>), C, K, n)"
proof (rule linkedI)
  let ?op = "op\<lparr>destination := d, materialized := True\<rparr>"
  show "op_ok (E, P(i \<mapsto> ?op), C, K, n) j q" if "(P(i \<mapsto> ?op)) j = Some q" for j q
  proof (cases "j = i")
    case True
    with that linkedD(3) [OF L i] d show ?thesis by (auto simp: op_ok_def split: option.splits)
  next
    case False
    with that have "P j = Some q" by simp
    from linkedD(3) [OF L this] show ?thesis by (auto simp: op_ok_def split: option.splits)
  qed
  show "\<exists>q. (P(i \<mapsto> ?op)) j = Some q \<and> res_label (destination q) = lbl" if "C lbl = Some j" for lbl j
    using linkedD(4) [OF L that] i d by auto
  show "\<exists>q. (P(i \<mapsto> ?op)) j = Some q \<and> source_label q = Some s" if "K s = Some j" for s j
    using linkedD(5) [OF L that] i by auto
qed (use L in \<open>auto dest: linkedD(1,2)\<close>)

text \<open>
  Closing a ticket.  \<open>E'\<close> is the entry map afterwards: unchanged by a rollback; without the
  source and with the destination after a commit.
\<close>

lemma linked_close:
  assumes L: "linked (E, P, C, K, n)" and i: "P i = Some op"
    and E': "E' = E \<or>
      E' = (case source_label op of None \<Rightarrow> E | Some s \<Rightarrow> E(s := None))(res_label (destination op) \<mapsto> destination op)"
  shows "linked (E', P(i := None), C(res_label (destination op) := None),
     (case source_label op of None \<Rightarrow> K | Some s \<Rightarrow> K(s := None)), n)"
    (is "linked (E', ?P, ?C, ?K, n)")
proof (rule linkedI)
  have ok: "op_ok (E, P, C, K, n) i op" by (rule linkedD(3) [OF L i])
  show "res_label r = lbl \<and> res_ok r" if "E' lbl = Some r" for lbl r
    using that E' ok L by (auto simp: op_ok_def split: if_splits option.splits dest: linkedD(1,2))
  show "op_ok (E', ?P, ?C, ?K, n) j q" if "?P j = Some q" for j q
  proof -
    from that have j: "j \<noteq> i" "P j = Some q" by (auto split: if_splits)
    from linkedD(3) [OF L j(2)] have q: "op_ok (E, P, C, K, n) j q" .
    have lbl: "res_label (destination q) \<noteq> res_label (destination op)"
      using q ok j(1) by (auto simp: op_ok_def)
    have src: "source_label op \<noteq> Some s" if "source_label q = Some s" for s
      using q ok j(1) that by (auto simp: op_ok_def)
    have dst: "s \<noteq> res_label (destination op)" if "source_label q = Some s" for s
    proof
      assume s: "s = res_label (destination op)"
      with q that have "E s \<noteq> None" by (auto simp: op_ok_def)
      with ok s have "source_label op = Some s" by (auto simp: op_ok_def split: option.splits)
      with src [OF that] show False by simp
    qed
    show ?thesis
      using E' q lbl src dst
      by (elim disjE) (auto simp: op_ok_def split: option.splits)
  qed
  show "\<exists>q. ?P j = Some q \<and> res_label (destination q) = lbl" if "?C lbl = Some j" for lbl j
  proof -
    from that have c: "lbl \<noteq> res_label (destination op)" "C lbl = Some j" by (auto split: if_splits)
    with linkedD(4) [OF L c(2)] i show ?thesis by (cases "j = i") auto
  qed
  show "\<exists>q. ?P j = Some q \<and> source_label q = Some s" if "?K s = Some j" for s j
  proof -
    have "source_label op \<noteq> Some s" "K s = Some j" using that by (auto split: option.splits if_splits)
    with linkedD(5) [OF L, of s j] i show ?thesis by (cases "j = i") auto
  qed
qed

text \<open>Committed entries that no open transfer reads may be dropped or restated.\<close>

lemma linked_entries:
  assumes L: "linked (E, P, C, K, n)" and K: "K lbl = None"
    and v: "v = None \<or> (\<exists>r. v = Some r \<and> res_label r = lbl \<and> res_ok r \<and> E lbl \<noteq> None)"
  shows "linked (E(lbl := v), P, C, K, n)"
proof (rule linkedI)
  show "op_ok (E(lbl := v), P, C, K, n) i q" if "P i = Some q" for i q
  proof -
    from linkedD(3) [OF L that] have q: "op_ok (E, P, C, K, n) i q" .
    have "source_label q \<noteq> Some lbl" using q K by (auto simp: op_ok_def)
    moreover have "v = None" if "res_label (destination q) = lbl"
    proof -
      from that q \<open>source_label q \<noteq> Some lbl\<close> have "E lbl = None"
        by (auto simp: op_ok_def split: option.splits)
      with v show ?thesis by auto
    qed
    ultimately show ?thesis using q by (auto simp: op_ok_def split: option.splits)
  qed
qed (use L v in \<open>auto split: if_splits dest: linkedD(1,2,4,5)\<close>)

section \<open>The numeric half\<close>

definition maps_of :: "MemoryLedger \<Rightarrow> ledger_maps" where
  "maps_of L = (map_of (entries L), map_of (pending L), map_of (claimed_labels L),
                map_of (locked_sources L), next_id L)"

definition within_capacity :: "MemoryLedger \<Rightarrow> bool" where
  "within_capacity L \<longleftrightarrow> (\<forall>t a. map_of (accounts L) t = Some a \<longrightarrow> held L t \<le> capacity_bytes a)"

definition ledger_inv :: "MemoryLedger \<Rightarrow> bool" where
  "ledger_inv L \<longleftrightarrow>
     distinct (map fst (accounts L)) \<and> distinct (map fst (entries L)) \<and> distinct (map fst (pending L)) \<and>
     linked (maps_of L) \<and> within_capacity L"

lemma ledger_invD:
  assumes "ledger_inv L"
  shows "distinct (map fst (accounts L))" "distinct (map fst (entries L))" "distinct (map fst (pending L))"
    "linked (map_of (entries L), map_of (pending L), map_of (claimed_labels L),
             map_of (locked_sources L), next_id L)"
    "map_of (accounts L) t = Some a \<Longrightarrow> held L t \<le> capacity_bytes a"
  using assms by (simp_all add: ledger_inv_def maps_of_def within_capacity_def)

lemmas alist_maps = update_conv' delete_conv'

lemma entry_ok: "ledger_inv L \<Longrightarrow> (lbl, r) \<in> set (entries L) \<Longrightarrow> res_ok r"
  using linkedD(2) [OF ledger_invD(4)] by (metis ledger_invD(2) map_of_is_SomeI)

lemma op_dest_ok: "ledger_inv L \<Longrightarrow> (i, op) \<in> set (pending L) \<Longrightarrow> res_ok (destination op)"
  using linkedD(3) [OF ledger_invD(4)] by (fastforce simp: op_ok_def dest: map_of_is_SomeI ledger_invD(3))

lemma committed_nonneg: "ledger_inv L \<Longrightarrow> 0 \<le> committed L t"
  unfolding committed_def by (rule dsum_nonneg) (auto intro: charge_on_nonneg entry_ok)

lemma pending_nonneg: "ledger_inv L \<Longrightarrow> 0 \<le> pending_charge L t"
  unfolding pending_charge_def by (rule dsum_nonneg) (auto intro: charge_on_nonneg op_dest_ok)

text \<open>The three uses of \<open>_check_capacity_locked\<close>.\<close>

lemma exclude_none: "filter (\<lambda>(k, _). Some k \<noteq> None) d = d"
  by (simp add: filter_id_conv split_def)

lemma exclude_some: "filter (\<lambda>(k', _). Some k' \<noteq> Some k) d = AList.delete k d"
  by (induction d) (auto simp: split_def)

lemma check_capacity_new:
  "check_capacity r None None L = Inr u \<longleftrightarrow>
     (\<exists>a. map_of (accounts L) (res_tier r) = Some a \<and>
          held L (res_tier r) + charged_bytes r \<le> capacity_bytes a)"
  unfolding check_capacity_def exclude_none
  by (auto simp: account_def held_def committed_def pending_charge_def Let_def split: option.splits)

lemma check_capacity_ticket:
  assumes "distinct (map fst (pending L))" "map_of (pending L) i = Some op"
  shows "check_capacity r None (Some i) L = Inr u \<longleftrightarrow>
     (\<exists>a. map_of (accounts L) (res_tier r) = Some a \<and>
          held L (res_tier r) - charge_on (res_tier r) (destination op) + charged_bytes r \<le> capacity_bytes a)"
  unfolding check_capacity_def exclude_none exclude_some using assms
  by (auto simp: account_def held_def committed_def pending_charge_def Let_def dsum_delete split: option.splits)

lemma check_capacity_entry:
  assumes "distinct (map fst (entries L))" "map_of (entries L) lbl = Some q"
  shows "check_capacity r (Some lbl) None L = Inr u \<longleftrightarrow>
     (\<exists>a. map_of (accounts L) (res_tier r) = Some a \<and>
          held L (res_tier r) - charge_on (res_tier r) q + charged_bytes r \<le> capacity_bytes a)"
  unfolding check_capacity_def exclude_none exclude_some using assms
  by (auto simp: account_def held_def committed_def pending_charge_def Let_def dsum_delete split: option.splits)

section \<open>Opening a ticket\<close>

text \<open>The common end of \<open>reserve\<close> and \<open>transfer\<close>: a claimed label and a new pending operation.\<close>

definition opened :: "PendingOp \<Rightarrow> MemoryLedger \<Rightarrow> MemoryLedger" where
  "opened op L =
     L\<lparr>next_id := next_id L + 1,
       claimed_labels := AList.update (res_label (destination op)) (next_id L) (claimed_labels L),
       locked_sources := (case source_label op of None \<Rightarrow> locked_sources L
                          | Some s \<Rightarrow> AList.update s (next_id L) (locked_sources L)),
       pending := AList.update (next_id L) op (pending L)\<rparr>"

lemma ledger_inv_opened:
  assumes inv: "ledger_inv L" and op: "ticket_id (op_ticket op) = next_id L" "res_ok (destination op)"
    and cap: "check_capacity (destination op) None None L = Inr u"
    and free: "map_of (claimed_labels L) (res_label (destination op)) = None"
    and src: "case source_label op of
        None \<Rightarrow> map_of (entries L) (res_label (destination op)) = None
      | Some s \<Rightarrow> map_of (locked_sources L) s = None \<and> source_snapshot op \<noteq> None \<and>
                  map_of (entries L) s = source_snapshot op \<and>
                  (res_label (destination op) \<noteq> s \<longrightarrow> map_of (entries L) (res_label (destination op)) = None)"
  shows "ledger_inv (opened op L)"
proof -
  note D = ledger_invD [OF inv]
  have new: "map_of (pending L) (next_id L) = None" by (rule no_future_ticket [OF D(4)])
  let ?K = "case source_label op of None \<Rightarrow> map_of (locked_sources L)
            | Some s \<Rightarrow> (map_of (locked_sources L))(s \<mapsto> next_id L)"
  have "linked (map_of (entries L), (map_of (pending L))(next_id L \<mapsto> op),
      (map_of (claimed_labels L))(res_label (destination op) \<mapsto> next_id L), ?K, next_id L + 1)"
    using src by (intro linked_open [OF D(4) op free]) (auto split: option.splits)
  moreover have "maps_of (opened op L) = (map_of (entries L), (map_of (pending L))(next_id L \<mapsto> op),
      (map_of (claimed_labels L))(res_label (destination op) \<mapsto> next_id L), ?K, next_id L + 1)"
    by (simp add: maps_of_def opened_def alist_maps split: option.split)
  moreover have "held (opened op L) t = held L t + charge_on t (destination op)" for t
    using D(3) new by (simp add: held_def committed_def pending_charge_def opened_def dsum_update)
  with cap D(5) have "within_capacity (opened op L)"
    by (auto simp: within_capacity_def opened_def check_capacity_new charge_on_def)
  ultimately show ?thesis
    using D(1-3) by (simp add: ledger_inv_def opened_def distinct_update)
qed

definition reserved_op :: "Reservation \<Rightarrow> MemoryLedger \<Rightarrow> PendingOp" where
  "reserved_op r L =
     \<lparr>op_ticket = \<lparr>ticket_id = next_id L, ticket_label = res_label r, ticket_tier = res_tier r,
                   from_tier = None, ticket_origin = ledger_uid L\<rparr>,
      destination = r\<lparr>backed_bytes := 0, res_region := None\<rparr>, source_label = None, source_snapshot = None,
      materialized = False\<rparr>"

lemma res_ok_unbacked: "res_ok r \<Longrightarrow> res_ok (r\<lparr>backed_bytes := 0, res_region := None\<rparr>)"
  by (simp add: res_ok_iff)

lemma check_capacity_cong:
  "res_tier r = res_tier q \<Longrightarrow> charged_bytes r = charged_bytes q \<Longrightarrow>
   check_capacity r x y L = check_capacity q x y L"
  by (simp add: check_capacity_def)

lemma reserve_cases:
  assumes "res_ok r"
  obtains (bad) e where "reserve r L = (Inl e, L)" "check_capacity r None None L = Inl e"
  | (dup) "reserve r L = (Inl ValueError, L\<lparr>next_id := next_id L + 1\<rparr>)"
      "map_of (claimed_labels L) (res_label r) \<noteq> None \<or> map_of (entries L) (res_label r) \<noteq> None"
  | (ok) "reserve r L = (Inr (op_ticket (reserved_op r L)), opened (reserved_op r L) L)"
      "check_capacity r None None L = Inr ()"
      "map_of (claimed_labels L) (res_label r) = None" "map_of (entries L) (res_label r) = None"
proof -
  have acc: "ebind (account L (res_tier r)) (\<lambda>_. check_capacity r None None L) = check_capacity r None None L"
    by (cases "account L (res_tier r)") (auto simp: check_capacity_def)
  have re: "remake (r\<lparr>backed_bytes := 0, res_region := None\<rparr>) = Inr (r\<lparr>backed_bytes := 0, res_region := None\<rparr>)"
    using res_ok_unbacked [OF assms] by (simp add: res_ok_def)
  show thesis
  proof (cases "check_capacity r None None L")
    case (Inl e)
    have "reserve r L = (Inl e, L)" unfolding reserve_def acc by (simp add: Inl)
    with Inl show thesis by (intro bad)
  next
    case (Inr u)
    show thesis
    proof (cases "map_of (claimed_labels L) (res_label r) \<noteq> None \<or> map_of (entries L) (res_label r) \<noteq> None")
      case True
      then have "reserve r L = (Inl ValueError, L\<lparr>next_id := next_id L + 1\<rparr>)"
        unfolding reserve_def acc by (auto simp: Inr claim_label_def andthen_def)
      with True show thesis by (intro dup)
    next
      case False
      then have "reserve r L = (Inr (op_ticket (reserved_op r L)), opened (reserved_op r L) L)"
        unfolding reserve_def acc
        by (auto simp: Inr claim_label_def andthen_def re opened_def reserved_op_def Let_def)
      with False Inr show thesis by (intro ok) auto
    qed
  qed
qed

lemma ledger_inv_next_id: "ledger_inv L \<Longrightarrow> ledger_inv (L\<lparr>next_id := next_id L + 1\<rparr>)"
  by (force simp: ledger_inv_def maps_of_def within_capacity_def held_def committed_def pending_charge_def
      linked_def op_ok_def)

lemma reserve_inv:
  assumes inv: "ledger_inv L" and r: "res_ok r"
  shows "ledger_inv (snd (reserve r L))"
proof (cases rule: reserve_cases [OF r, of L])
  case (1 e)
  with inv show ?thesis by simp
next
  case 2
  with ledger_inv_next_id [OF inv] show ?thesis by simp
next
  case 3
  have "ledger_inv (opened (reserved_op r L) L)"
    using 3 res_ok_unbacked [OF r] check_capacity_cong [of "r\<lparr>backed_bytes := 0, res_region := None\<rparr>" r]
    by (intro ledger_inv_opened [OF inv]) (simp_all add: reserved_op_def)
  with 3 show ?thesis by simp
qed

end
