(* ===== verification/Ledger_Verbs.thy ===== *)
theory Ledger_Verbs
  imports Ledger_Invariant
begin

text \<open>
  Every verb of the memory ledger keeps the invariant.  Each verb first gets a lemma that
  lists its outcomes; preservation and the properties are read off those.
\<close>

lemmas held_defs = held_def committed_def pending_charge_def

lemma require_ticket_Inr:
  "require_ticket L t = Inr op \<longleftrightarrow> map_of (pending L) (ticket_id t) = Some op \<and> op_ticket op = t"
  by (auto simp: require_ticket_def split: option.splits)

section \<open>Materialize\<close>

definition materialized_dest :: "PendingOp \<Rightarrow> int \<Rightarrow> MemoryRegion option \<Rightarrow> Reservation" where
  "materialized_dest op actual reg =
     (destination op)\<lparr>backed_bytes := actual, charged_bytes := max (charged_bytes (destination op)) actual,
                      res_region := reg\<rparr>"

definition after_materialize :: "Ticket \<Rightarrow> PendingOp \<Rightarrow> int \<Rightarrow> MemoryRegion option \<Rightarrow> MemoryLedger \<Rightarrow> MemoryLedger" where
  "after_materialize t op actual reg L =
     L\<lparr>pending := AList.update (ticket_id t)
        (op\<lparr>destination := materialized_dest op actual reg, materialized := True\<rparr>) (pending L)\<rparr>"

lemma materialize_cases:
  obtains (fail) e where "materialize t actual reg L = (Inl e, L)"
  | (ok) op where "materialize t actual reg L = (Inr (), after_materialize t op actual reg L)"
      "0 \<le> actual" "require_ticket L t = Inr op" "\<not> materialized op" "res_ok (materialized_dest op actual reg)"
      "check_capacity (materialized_dest op actual reg) None (Some (ticket_id t)) L = Inr ()"
proof -
  consider "actual < 0" | e where "require_ticket L t = Inl e"
    | op where "0 \<le> actual" "require_ticket L t = Inr op" by (cases "require_ticket L t") force+
  then show thesis
  proof cases
    case 1
    then show thesis by (intro fail) (simp add: materialize_def)
  next
    case (2 e)
    then show thesis by (intro fail [of "if actual < 0 then ValueError else e"]) (simp add: materialize_def)
  next
    case (3 op)
    show thesis
    proof (cases "materialized op \<or> \<not> res_ok (materialized_dest op actual reg)")
      case True
      moreover obtain e where "\<not> res_ok (materialized_dest op actual reg) \<Longrightarrow>
          remake (materialized_dest op actual reg) = Inl e"
        using remake_Inr [of "materialized_dest op actual reg"]
        by (cases "remake (materialized_dest op actual reg)") auto
      ultimately show thesis
        using 3 by (intro fail [of "if materialized op then RuntimeError else e"])
          (auto simp: materialize_def materialized_dest_def)
    next
      case False
      then have re: "remake (materialized_dest op actual reg) = Inr (materialized_dest op actual reg)"
        by (simp add: res_ok_def)
      show thesis
      proof (cases "check_capacity (materialized_dest op actual reg) None (Some (ticket_id t)) L")
        case (Inl e)
        with False re 3 show thesis by (intro fail) (auto simp: materialize_def materialized_dest_def)
      next
        case (Inr u)
        with False re 3 show thesis
          by (intro ok) (auto simp: materialize_def materialized_dest_def after_materialize_def)
      qed
    qed
  qed
qed

lemma held_after_materialize:
  assumes "distinct (map fst (pending L))" "map_of (pending L) (ticket_id t) = Some op"
  shows "held (after_materialize t op actual reg L) x =
    held L x - charge_on x (destination op) + charge_on x (materialized_dest op actual reg)"
  using assms by (simp add: held_defs after_materialize_def dsum_update)

lemma materialize_inv:
  assumes inv: "ledger_inv L"
  shows "ledger_inv (snd (materialize t actual reg L))"
proof (cases rule: materialize_cases [of t actual reg L])
  case (fail e)
  with inv show ?thesis by simp
next
  case 2: (ok op)
  note D = ledger_invD [OF inv]
  let ?L = "after_materialize t op actual reg L" and ?d = "materialized_dest op actual reg"
  have op: "map_of (pending L) (ticket_id t) = Some op" using 2(3) by (simp add: require_ticket_Inr)
  have "maps_of ?L = (map_of (entries L), (map_of (pending L))(ticket_id t \<mapsto> op\<lparr>destination := ?d, materialized := True\<rparr>),
      map_of (claimed_labels L), map_of (locked_sources L), next_id L)"
    by (simp add: maps_of_def after_materialize_def alist_maps)
  moreover have "res_label ?d = res_label (destination op)" by (simp add: materialized_dest_def)
  ultimately have "linked (maps_of ?L)" using linked_materialize [OF D(4) op 2(5)] by simp
  moreover have "within_capacity ?L"
  proof -
    have tier: "res_tier ?d = res_tier (destination op)" by (simp add: materialized_dest_def)
    have "held ?L x \<le> capacity_bytes a" if x: "map_of (accounts L) x = Some a" for x a
    proof (cases "x = res_tier ?d")
      case True
      with 2(6) x tier show ?thesis
        by (auto simp: held_after_materialize [OF D(3) op] check_capacity_ticket [OF D(3) op] charge_on_def)
    next
      case False
      with D(5) [OF x] tier show ?thesis by (simp add: held_after_materialize [OF D(3) op] charge_on_def)
    qed
    then show ?thesis by (simp add: within_capacity_def after_materialize_def)
  qed
  moreover have "distinct (map fst (pending ?L))" using D(3) by (simp add: after_materialize_def distinct_update)
  ultimately have "ledger_inv ?L" using D(1,2) by (simp add: ledger_inv_def after_materialize_def)
  with 2(1) show ?thesis by simp
qed

section \<open>Commit and rollback\<close>

lemma within_capacity_mono:
  "ledger_inv L \<Longrightarrow> accounts M = accounts L \<Longrightarrow> (\<And>x. held M x \<le> held L x) \<Longrightarrow> within_capacity M"
  unfolding within_capacity_def by (metis ledger_invD(5) order_trans)

text \<open>The entries a commit publishes.\<close>

definition published :: "PendingOp \<Rightarrow> MemoryLedger \<Rightarrow> MemoryLedger" where
  "published op L =
     L\<lparr>entries := AList.update (res_label (destination op)) (destination op)
        (case source_label op of None \<Rightarrow> entries L | Some s \<Rightarrow> AList.delete s (entries L))\<rparr>"

text \<open>
  An open materialized ticket always commits: the guard against a changed transfer source
  never fires, because a locked source cannot be changed.
\<close>

lemma commit_open:
  assumes inv: "ledger_inv L" and t: "require_ticket L t = Inr op"
  shows "commit t L = (if materialized op then (Inr (), finish_ticket op (published op L)) else (Inl RuntimeError, L))"
proof -
  have ok: "op_ok (map_of (entries L), map_of (pending L), map_of (claimed_labels L),
       map_of (locked_sources L), next_id L) (ticket_id t) op"
    using linkedD(3) [OF ledger_invD(4) [OF inv]] t by (simp add: require_ticket_Inr)
  then show ?thesis
    using t by (auto simp: commit_def published_def op_ok_def split: option.splits)
qed

lemma commit_closed: "require_ticket L t = Inl e \<Longrightarrow> commit t L = (Inl e, L)"
  by (simp add: commit_def)

lemma finish_simps:
  "entries (finish_ticket op L) = entries L" "accounts (finish_ticket op L) = accounts L"
  "next_id (finish_ticket op L) = next_id L"
  "pending (finish_ticket op L) = AList.delete (ticket_id (op_ticket op)) (pending L)"
  "committed (finish_ticket op L) x = committed L x"
  by (simp_all add: finish_ticket_def committed_def)

lemma published_simps:
  "pending (published op L) = pending L" "accounts (published op L) = accounts L"
  "claimed_labels (published op L) = claimed_labels L" "locked_sources (published op L) = locked_sources L"
  "next_id (published op L) = next_id L" "pending_charge (published op L) x = pending_charge L x"
  by (simp_all add: published_def pending_charge_def)

lemma maps_of_finish:
  "maps_of (finish_ticket op L) =
     (map_of (entries L), (map_of (pending L))(ticket_id (op_ticket op) := None),
      (map_of (claimed_labels L))(res_label (destination op) := None),
      (case source_label op of None \<Rightarrow> map_of (locked_sources L) | Some s \<Rightarrow> (map_of (locked_sources L))(s := None)),
      next_id L)"
  by (simp add: maps_of_def finish_ticket_def alist_maps split: option.split)

text \<open>Ending a ticket gives its charge back.\<close>

lemma pending_after_finish:
  assumes "distinct (map fst (pending L))" "map_of (pending L) (ticket_id (op_ticket op)) = Some op"
  shows "pending_charge (finish_ticket op L) x = pending_charge L x - charge_on x (destination op)"
  using assms by (simp add: pending_charge_def finish_simps dsum_delete)

lemma rollback_inv:
  assumes inv: "ledger_inv L"
  shows "ledger_inv (snd (rollback t L))"
proof (cases "require_ticket L t")
  case (Inl e)
  with inv show ?thesis by (simp add: rollback_def)
next
  case (Inr op)
  note D = ledger_invD [OF inv]
  have op: "map_of (pending L) (ticket_id (op_ticket op)) = Some op" using Inr by (auto simp: require_ticket_Inr)
  let ?L = "finish_ticket op L"
  have "linked (maps_of ?L)" unfolding maps_of_finish by (rule linked_close [OF D(4) op]) simp
  moreover have "held ?L x = held L x - charge_on x (destination op)" for x
    by (simp add: held_def finish_simps pending_after_finish [OF D(3) op])
  moreover have "0 \<le> charge_on x (destination op)" for x
    using op_dest_ok [OF inv map_of_SomeD [OF op]] by (rule charge_on_nonneg)
  ultimately have "linked (maps_of ?L)" "\<And>x. held ?L x \<le> held L x" by simp_all
  then have "ledger_inv ?L"
    using D(1-3) within_capacity_mono [OF inv, of ?L]
    by (simp add: ledger_inv_def finish_simps distinct_delete)
  with Inr show ?thesis by (simp add: rollback_def)
qed

lemma committed_after_publish:
  assumes inv: "ledger_inv L" and op: "map_of (pending L) i = Some op"
  shows "committed (published op L) x =
    committed L x + charge_on x (destination op)
      - (case source_label op of None \<Rightarrow> 0 | Some s \<Rightarrow> charge_on x (the (map_of (entries L) s)))"
proof -
  note D = ledger_invD [OF inv]
  have ok: "op_ok (map_of (entries L), map_of (pending L), map_of (claimed_labels L),
       map_of (locked_sources L), next_id L) i op" by (rule linkedD(3) [OF D(4) op])
  show ?thesis
  proof (cases "source_label op")
    case None
    with ok D(2) show ?thesis by (simp add: committed_def published_def op_ok_def dsum_update)
  next
    case (Some s)
    with ok obtain r where r: "map_of (entries L) s = Some r" by (auto simp: op_ok_def)
    have "map_of (AList.delete s (entries L)) (res_label (destination op)) = None"
      using Some ok by (auto simp: delete_conv' op_ok_def)
    moreover have "distinct (map fst (AList.delete s (entries L)))" using D(2) by (simp add: distinct_delete)
    ultimately show ?thesis
      using Some r D(2) by (simp add: committed_def published_def dsum_update dsum_delete)
  qed
qed

lemma commit_inv:
  assumes inv: "ledger_inv L"
  shows "ledger_inv (snd (commit t L))"
proof (cases "\<exists>op. require_ticket L t = Inr op \<and> materialized op")
  case False
  then show ?thesis using inv commit_open [OF inv] commit_closed
    by (cases "require_ticket L t") auto
next
  case True
  then obtain op where t: "require_ticket L t = Inr op" "materialized op" by blast
  note D = ledger_invD [OF inv]
  have op: "map_of (pending L) (ticket_id (op_ticket op)) = Some op" using t by (auto simp: require_ticket_Inr)
  have ok: "op_ok (map_of (entries L), map_of (pending L), map_of (claimed_labels L),
       map_of (locked_sources L), next_id L) (ticket_id (op_ticket op)) op" by (rule linkedD(3) [OF D(4) op])
  let ?P = "published op L" and ?L = "finish_ticket op (published op L)"
  have "map_of (entries ?P) = (case source_label op of None \<Rightarrow> map_of (entries L)
      | Some s \<Rightarrow> (map_of (entries L))(s := None))(res_label (destination op) \<mapsto> destination op)"
    by (simp add: published_def alist_maps split: option.split)
  then have "linked (maps_of ?L)"
    unfolding maps_of_finish published_simps by (intro linked_close [OF D(4) op]) simp
  moreover have "held ?L x \<le> held L x" for x
  proof -
    have "held ?L x = committed ?P x + (pending_charge L x - charge_on x (destination op))"
      using pending_after_finish [of ?P op x] D(3) op by (simp add: held_def finish_simps published_simps)
    moreover have "0 \<le> (case source_label op of None \<Rightarrow> 0 | Some s \<Rightarrow> charge_on x (the (map_of (entries L) s)))"
    proof (cases "source_label op")
      case (Some s)
      with ok obtain r where r: "map_of (entries L) s = Some r" by (auto simp: op_ok_def)
      from linkedD(2) [OF D(4) r] have "0 \<le> charge_on x r" by (rule charge_on_nonneg)
      with Some r show ?thesis by simp
    qed simp
    ultimately show ?thesis by (simp add: held_def committed_after_publish [OF inv op])
  qed
  then have "within_capacity ?L"
    by (intro within_capacity_mono [OF inv]) (simp_all add: finish_simps published_simps)
  moreover have "distinct (map fst (entries ?L))"
    using D(2) by (auto simp: finish_simps published_def distinct_update distinct_delete split: option.split)
  ultimately have "ledger_inv ?L"
    using D(1,3) by (simp add: ledger_inv_def finish_simps published_simps distinct_delete)
  with t commit_open [OF inv t(1)] show ?thesis by simp
qed

section \<open>Release and restate\<close>

lemma release_inv:
  assumes inv: "ledger_inv L"
  shows "ledger_inv (snd (release label L))"
proof (cases "map_of (locked_sources L) label")
  case (Some i)
  with inv show ?thesis by (simp add: release_def require_unlocked_source_def require_def)
next
  case None
  note D = ledger_invD [OF inv]
  let ?L = "L\<lparr>entries := AList.delete label (entries L)\<rparr>"
  have "linked (maps_of ?L)"
    using linked_entries [OF D(4) None, of None] by (simp add: maps_of_def delete_conv')
  moreover have "held ?L x \<le> held L x" for x
  proof (cases "map_of (entries L) label")
    case (Some r)
    from linkedD(2) [OF D(4) Some] have "0 \<le> charge_on x r" by (rule charge_on_nonneg)
    with Some D(2) show ?thesis by (simp add: held_defs dsum_delete)
  qed (use D(2) in \<open>simp add: held_defs dsum_delete\<close>)
  then have "within_capacity ?L" by (intro within_capacity_mono [OF inv]) simp_all
  ultimately have "ledger_inv ?L" using D(1-3) by (simp add: ledger_inv_def distinct_delete)
  with None show ?thesis by (simp add: release_def require_unlocked_source_def require_def)
qed

definition restated :: "Reservation \<Rightarrow> int \<Rightarrow> int option \<Rightarrow> int option \<Rightarrow> Reservation" where
  "restated r b reserved_opt charged_opt =
     r\<lparr>backed_bytes := b, charged_bytes := (case charged_opt of None \<Rightarrow> b | Some c \<Rightarrow> c),
       reserved_bytes := (case reserved_opt of None \<Rightarrow> b | Some n \<Rightarrow> n)\<rparr>"

lemma update_cases:
  obtains (fail) e where "update label b ro co L = (Inl e, L)"
  | (ok) r where "update label b ro co L =
        (Inr (), L\<lparr>entries := AList.update label (restated r b ro co) (entries L)\<rparr>)"
      "map_of (locked_sources L) label = None" "map_of (entries L) label = Some r"
      "res_ok (restated r b ro co)" "check_capacity (restated r b ro co) (Some label) None L = Inr ()"
proof -
  consider i where "map_of (locked_sources L) label = Some i"
    | "map_of (locked_sources L) label = None" "map_of (entries L) label = None"
    | r where "map_of (locked_sources L) label = None" "map_of (entries L) label = Some r"
    by (cases "map_of (locked_sources L) label"; cases "map_of (entries L) label") auto
  then show thesis
  proof cases
    case 1
    then show thesis by (intro fail) (simp add: update_def require_unlocked_source_def require_def)
  next
    case 2
    then show thesis by (intro fail) (simp add: update_def require_unlocked_source_def require_def)
  next
    case (3 r)
    then have unf: "update label b ro co L = (case remake (restated r b ro co) of
                  Inl e \<Rightarrow> (Inl e, L)
                | Inr updated \<Rightarrow>
                    (case check_capacity updated (Some label) None L of
                       Inl e \<Rightarrow> (Inl e, L)
                     | Inr _ \<Rightarrow> (Inr (), L\<lparr>entries := AList.update label updated (entries L)\<rparr>)))"
      by (simp add: update_def require_unlocked_source_def require_def restated_def)
    show thesis
    proof (cases "remake (restated r b ro co)")
      case (Inl e)
      then show thesis by (intro fail) (simp add: unf)
    next
      case (Inr q)
      then have q: "q = restated r b ro co" "res_ok q" by (simp_all add: remake_Inr)
      show thesis
      proof (cases "check_capacity q (Some label) None L")
        case (Inl e)
        with Inr show thesis by (intro fail) (simp add: unf)
      next
        case (Inr u)
        with \<open>remake _ = Inr q\<close> q 3 show thesis by (intro ok) (simp_all add: unf)
      qed
    qed
  qed
qed

lemma update_inv:
  assumes inv: "ledger_inv L"
  shows "ledger_inv (snd (update label b ro co L))"
proof (cases rule: update_cases [of label b ro co L])
  case (fail e)
  with inv show ?thesis by simp
next
  case ok: (ok r)
  note D = ledger_invD [OF inv]
  let ?r = "restated r b ro co" and ?L = "L\<lparr>entries := AList.update label (restated r b ro co) (entries L)\<rparr>"
  have same: "res_label ?r = label" "res_tier ?r = res_tier r"
    using linkedD(1) [OF D(4) ok(3)] by (simp_all add: restated_def)
  have "linked ((map_of (entries L))(label := Some ?r), map_of (pending L), map_of (claimed_labels L),
      map_of (locked_sources L), next_id L)"
    using ok same by (intro linked_entries [OF D(4)]) auto
  then have "linked (maps_of ?L)" by (simp add: maps_of_def update_conv')
  moreover have "held ?L x = held L x - charge_on x r + charge_on x ?r" for x
    using D(2) ok(3) by (simp add: held_defs dsum_update)
  then have "within_capacity ?L"
    using ok(5) D(5) same
    by (auto simp: within_capacity_def check_capacity_entry [OF D(2) ok(3)] charge_on_def)
  ultimately have "ledger_inv ?L" using D(1-3) by (simp add: ledger_inv_def distinct_update)
  with ok(1) show ?thesis by simp
qed

section \<open>Transfer\<close>

definition transfer_dest :: "Reservation \<Rightarrow> MemoryTier \<Rightarrow> string \<Rightarrow> string option \<Rightarrow> Reservation" where
  "transfer_dest r to_tier label new_label =
     r\<lparr>res_tier := to_tier, res_label := transfer_label label new_label, backed_bytes := 0, res_region := None\<rparr>"

definition transfer_op :: "Reservation \<Rightarrow> string \<Rightarrow> MemoryTier \<Rightarrow> string option \<Rightarrow> MemoryLedger \<Rightarrow> PendingOp" where
  "transfer_op r label to_tier new_label L =
     \<lparr>op_ticket = \<lparr>ticket_id = next_id L, ticket_label = label, ticket_tier = to_tier,
                   from_tier = Some (res_tier r), ticket_origin = ledger_uid L\<rparr>,
      destination = transfer_dest r to_tier label new_label, source_label = Some label,
      source_snapshot = Some r, materialized = False\<rparr>"

lemma transfer_cases:
  obtains (fail) e where "transfer label to_tier nl L = (Inl e, L)"
  | (dup) "transfer label to_tier nl L = (Inl ValueError, L\<lparr>next_id := next_id L + 1\<rparr>)"
  | (ok) r where "transfer label to_tier nl L =
        (Inr (op_ticket (transfer_op r label to_tier nl L)), opened (transfer_op r label to_tier nl L) L)"
      "map_of (entries L) label = Some r" "res_tier r \<noteq> to_tier" "map_of (locked_sources L) label = None"
      "res_ok (transfer_dest r to_tier label nl)"
      "check_capacity (transfer_dest r to_tier label nl) None None L = Inr ()"
      "map_of (claimed_labels L) (transfer_label label nl) = None"
      "transfer_label label nl \<noteq> label \<Longrightarrow> map_of (entries L) (transfer_label label nl) = None"
proof (cases "map_of (entries L) label")
  case None
  then show thesis by (intro fail) (simp add: transfer_def)
next
  case (Some r)
  show thesis
  proof (cases "res_tier r = to_tier")
    case True
    with Some show thesis by (intro fail) (simp add: transfer_def)
  next
    case tier: False
    let ?g = "ebind (require_unlocked_source L label) (\<lambda>_. account L to_tier)"
    let ?d = "transfer_dest r to_tier label nl"
    have unf: "transfer label to_tier nl L = (case ?g of
            Inl e \<Rightarrow> (Inl e, L)
          | Inr _ \<Rightarrow>
              (case remake ?d of
                 Inl e \<Rightarrow> (Inl e, L)
               | Inr dest \<Rightarrow>
                   (case check_capacity dest None None L of
                      Inl e \<Rightarrow> (Inl e, L)
                    | Inr _ \<Rightarrow>
                        andthen (claim_label (transfer_label label nl) (next_id L) (Some label))
                             (\<lambda>_ M. (Inr (op_ticket (transfer_op r label to_tier nl L)),
                                M\<lparr>locked_sources := AList.update label (next_id L) (locked_sources M),
                                   pending := AList.update (next_id L)
                                     ((transfer_op r label to_tier nl L)\<lparr>destination := dest\<rparr>) (pending M)\<rparr>))
                             (L\<lparr>next_id := next_id L + 1\<rparr>))))"
      using Some tier by (simp add: transfer_def transfer_dest_def transfer_op_def Let_def cong: sum.case_cong)
    show thesis
    proof (cases ?g)
      case (Inl e)
      then show thesis by (intro fail) (simp add: unf)
    next
      case g: (Inr a)
      then have lock: "map_of (locked_sources L) label = None"
        by (auto simp: require_unlocked_source_def ebind_Inr_iff)
      show thesis
      proof (cases "remake ?d")
        case (Inl e)
        with g show thesis by (intro fail) (simp add: unf)
      next
        case re: (Inr q)
        then have q: "q = ?d" "res_ok ?d" by (simp_all add: remake_Inr)
        show thesis
        proof (cases "check_capacity ?d None None L")
          case (Inl e)
          with g re q show thesis by (intro fail) (simp add: unf)
        next
          case cap: (Inr u)
          show thesis
          proof (cases "map_of (claimed_labels L) (transfer_label label nl) \<noteq> None \<or>
              map_of (entries L) (transfer_label label nl) \<noteq> None \<and> transfer_label label nl \<noteq> label")
            case True
            with g re q cap show thesis
              by (intro dup) (auto simp: unf claim_label_def andthen_def)
          next
            case False
            then have "transfer label to_tier nl L =
                (Inr (op_ticket (transfer_op r label to_tier nl L)), opened (transfer_op r label to_tier nl L) L)"
              using g re q cap
              by (auto simp: unf claim_label_def andthen_def opened_def transfer_op_def transfer_dest_def)
            with False Some tier lock q cap show thesis by (intro ok) auto
          qed
        qed
      qed
    qed
  qed
qed

lemma transfer_inv:
  assumes inv: "ledger_inv L"
  shows "ledger_inv (snd (transfer label to_tier nl L))"
proof (cases rule: transfer_cases [of label to_tier nl L])
  case (fail e)
  with inv show ?thesis by simp
next
  case dup
  with ledger_inv_next_id [OF inv] show ?thesis by simp
next
  case ok: (ok r)
  have "ledger_inv (opened (transfer_op r label to_tier nl L) L)"
    using ok(2-) by (intro ledger_inv_opened [OF inv]) (auto simp: transfer_op_def transfer_dest_def)
  with ok(1) show ?thesis by simp
qed

section \<open>Composite verbs\<close>

lemma admit_inv:
  assumes inv: "ledger_inv L" and r: "res_ok r"
  shows "ledger_inv (snd (admit r L))"
proof -
  obtain res M1 where one: "reserve r L = (res, M1)" by force
  have inv1: "ledger_inv M1" using reserve_inv [OF inv r] one by simp
  show ?thesis
  proof (cases res)
    case (Inl e)
    with inv1 one show ?thesis by (simp add: admit_def)
  next
    case (Inr t)
    obtain res2 M2 where two: "andthen (materialize t (backed_bytes r) (res_region r)) (\<lambda>_. commit t) M1 = (res2, M2)"
      by force
    have "keeps ledger_inv (andthen (materialize t (backed_bytes r) (res_region r)) (\<lambda>_. commit t))"
      by (rule keeps_andthen; rule keepsI; rule materialize_inv commit_inv)
    from keepsD [OF this inv1] have inv2: "ledger_inv M2" using two by simp
    then have "ledger_inv (snd (rollback t M2))" by (rule rollback_inv)
    with inv2 one Inr two show ?thesis
      by (auto simp: admit_def split: sum.splits prod.splits)
  qed
qed

lemma fold_delete_inv:
  assumes "ledger_inv L" "\<forall>lbl\<in>set labels. map_of (locked_sources L) lbl = None"
  shows "ledger_inv (L\<lparr>entries := fold AList.delete labels (entries L)\<rparr>)"
  using assms
proof (induction labels arbitrary: L)
  case (Cons lbl labels)
  let ?L = "L\<lparr>entries := AList.delete lbl (entries L)\<rparr>"
  have "ledger_inv ?L"
    using release_inv [OF Cons.prems(1), of lbl] Cons.prems(2)
    by (simp add: release_def require_unlocked_source_def require_def)
  from Cons.IH [OF this] Cons.prems(2) show ?case by simp
qed simp

lemma release_owner_inv:
  assumes inv: "ledger_inv L"
  shows "ledger_inv (snd (release_owner owner t L))"
proof -
  let ?labels = "map fst (filter (\<lambda>(_, r). selects owner t r) (entries L))"
  have "ledger_inv (L\<lparr>entries := fold AList.delete ?labels (entries L)\<rparr>)"
    if ok: "traverse (require_unlocked_source L) ?labels = Inr us" for us
  proof (rule fold_delete_inv [OF inv])
    show "\<forall>lbl\<in>set ?labels. map_of (locked_sources L) lbl = None"
      using traverse_Inr_mem [OF ok] unfolding require_unlocked_source_def by simp
  qed
  with inv show ?thesis by (auto simp: release_owner_def Let_def split: sum.splits)
qed

interpretation ledger: guarded_system ledger_exec ledger_legal ledger_inv
proof (unfold_locales, goal_cases)
  case (1 L x)
  then show ?case
    by (cases x) (simp_all add: reserve_inv materialize_inv commit_inv rollback_inv release_inv
        transfer_inv admit_inv update_inv release_owner_inv)
qed

lemma collect_accounts_distinct:
  "collect_accounts d as = Inr d' \<Longrightarrow> distinct (map fst d) \<Longrightarrow> distinct (map fst d')"
  by (induction d as rule: collect_accounts.induct) (auto simp: distinct_update split: if_splits)

lemma collect_accounts_capacity:
  "collect_accounts d as = Inr d' \<Longrightarrow> \<forall>a\<in>set as. 0 \<le> capacity_bytes a \<Longrightarrow>
   \<forall>(t, a)\<in>set d. 0 \<le> capacity_bytes a \<Longrightarrow> map_of d' t = Some a \<Longrightarrow> 0 \<le> capacity_bytes a"
proof (induction d as rule: collect_accounts.induct)
  case (1 by_tier)
  then show ?case by (auto dest: map_of_SomeD)
next
  case (2 by_tier x as)
  have "set (AList.update (account_tier x) x by_tier) \<subseteq> insert (account_tier x, x) (set by_tier)"
    by (induction by_tier) auto
  with 2 show ?case by (fastforce split: if_splits)
qed

lemma MemoryLedger_init_inv:
  assumes "MemoryLedger_init uid accts dev = Inr L" "\<forall>a\<in>set accts. 0 \<le> capacity_bytes a"
  shows "ledger_inv L"
proof -
  obtain by_tier where c: "collect_accounts [] accts = Inr by_tier"
    and L: "L = \<lparr>ledger_uid = uid, accounts = by_tier, ledger_device = dev, entries = [], pending = [],
             claimed_labels = [], locked_sources = [], next_id = 1\<rparr>"
    using assms(1) by (auto simp: MemoryLedger_init_def ebind_Inr_iff split: if_splits)
  have "0 \<le> capacity_bytes a" if "map_of by_tier t = Some a" for t a
    using collect_accounts_capacity [OF c assms(2) _ that] by simp
  with collect_accounts_distinct [OF c] show ?thesis
    by (simp add: L ledger_inv_def maps_of_def linked_def within_capacity_def held_defs)
qed

end
