(* ===== verification/Ledger_Properties.thy ===== *)
theory Ledger_Properties
  imports Ledger_Verbs
begin

text \<open>
  What the memory ledger promises: no tier is ever over capacity; a materialized ticket
  always commits, and a committed transfer moves its claim in one step; rolling back gives
  back exactly what was taken; a verb that raises has no effect but a used ticket number;
  and the per-owner breakdowns add up to the tier totals.
\<close>

section \<open>Undoing an open ticket\<close>

lemma delete_update_new: "map_of d k = None \<Longrightarrow> AList.delete k (AList.update k v d) = d"
proof (induction d)
  case (Cons p d)
  then show ?case by (cases p) (auto simp: delete_idem split: if_splits)
qed simp

lemma finish_opened:
  assumes "ticket_id (op_ticket op) = next_id L" "map_of (pending L) (next_id L) = None"
    "map_of (claimed_labels L) (res_label (destination op)) = None"
    "case source_label op of None \<Rightarrow> True | Some s \<Rightarrow> map_of (locked_sources L) s = None"
  shows "finish_ticket op (opened op L) = L\<lparr>next_id := next_id L + 1\<rparr>"
  using assms by (simp add: finish_ticket_def opened_def delete_update_new split: option.splits)

lemma require_opened: "ticket_id (op_ticket op) = next_id L \<Longrightarrow> require_ticket (opened op L) (op_ticket op) = Inr op"
  by (simp add: require_ticket_Inr opened_def update_conv')

lemma rollback_opened:
  assumes inv: "ledger_inv L" and op: "ticket_id (op_ticket op) = next_id L"
    "map_of (claimed_labels L) (res_label (destination op)) = None"
    "case source_label op of None \<Rightarrow> True | Some s \<Rightarrow> map_of (locked_sources L) s = None"
  shows "rollback (op_ticket op) (opened op L) = (Inr (), L\<lparr>next_id := next_id L + 1\<rparr>)"
  using finish_opened [OF op(1) no_future_ticket [OF ledger_invD(4) [OF inv]] op(2,3)] require_opened [OF op(1)]
  by (simp add: rollback_def)

section \<open>Admission in one step\<close>

text \<open>The first half of \<open>admit\<close> opens a ticket; what follows either commits it or undoes it.\<close>

lemma materialize_opened:
  assumes inv: "ledger_inv L" and op: "ticket_id (op_ticket op) = next_id L" "\<not> materialized op"
  shows "materialize (op_ticket op) actual reg (opened op L) = (Inl e, M) \<Longrightarrow> M = opened op L"
    "materialize (op_ticket op) actual reg (opened op L) = (Inr u, M) \<Longrightarrow>
       M = opened (op\<lparr>destination := materialized_dest op actual reg, materialized := True\<rparr>) L"
proof -
  let ?op' = "op\<lparr>destination := materialized_dest op actual reg, materialized := True\<rparr>"
  have upd: "AList.update k v (AList.update k w d) = AList.update k v d" for k v w and d :: "(int \<times> PendingOp) list"
    by (induction d) auto
  { assume "materialize (op_ticket op) actual reg (opened op L) = (Inl e, M)"
    then show "M = opened op L"
      by (cases rule: materialize_cases [of "op_ticket op" actual reg "opened op L"]) auto }
  { assume run: "materialize (op_ticket op) actual reg (opened op L) = (Inr u, M)"
    then show "M = opened ?op' L"
    proof (cases rule: materialize_cases [of "op_ticket op" actual reg "opened op L"])
      case ok: (ok q)
      from ok(3) require_opened [OF op(1)] have "q = op" by simp
      with ok(1) run show ?thesis
        using op(1) by (simp add: after_materialize_def opened_def upd materialized_dest_def)
    qed simp }
qed

lemma admit_cases:
  assumes inv: "ledger_inv L" and r: "res_ok r"
  obtains (fail) e n where "admit r L = (Inl e, L\<lparr>next_id := n\<rparr>)" "next_id L \<le> n"
  | (ok) M where "admit r L = (Inr (), M)"
      "entries M = AList.update (res_label r) (r\<lparr>charged_bytes := max (charged_bytes r) (backed_bytes r)\<rparr>) (entries L)"
      "pending M = pending L" "claimed_labels M = claimed_labels L" "locked_sources M = locked_sources L"
      "map_of (entries L) (res_label r) = None"
proof (cases rule: reserve_cases [OF r, of L])
  case (1 e)
  then show thesis by (intro fail [of e "next_id L"]) (simp_all add: admit_def)
next
  case 2
  then show thesis by (intro fail [of ValueError "next_id L + 1"]) (simp_all add: admit_def)
next
  case 3
  let ?op = "reserved_op r L"
  let ?t = "op_ticket ?op"
  have op: "ticket_id ?t = next_id L" "\<not> materialized ?op" by (simp_all add: reserved_op_def)
  have free: "map_of (claimed_labels L) (res_label (destination ?op)) = None"
    "case source_label ?op of None \<Rightarrow> True | Some s \<Rightarrow> map_of (locked_sources L) s = None"
    using 3 by (simp_all add: reserved_op_def)
  have inv1: "ledger_inv (opened ?op L)" using reserve_inv [OF inv r] 3(1) by simp
  obtain res M where two: "materialize ?t (backed_bytes r) (res_region r) (opened ?op L) = (res, M)" by force
  show thesis
  proof (cases res)
    case (Inl e)
    then have M: "M = opened ?op L" using materialize_opened(1) [OF inv op] two by simp
    moreover have "map_of (pending (opened ?op L)) (ticket_id ?t) \<noteq> None"
      using require_opened [OF op(1)] by (auto simp: require_ticket_Inr)
    moreover note rollback_opened [OF inv op(1) free]
    ultimately have "admit r L = (Inl e, L\<lparr>next_id := next_id L + 1\<rparr>)"
      using 3(1) two Inl by (simp add: admit_def andthen_def)
    then show thesis by (rule fail) simp
  next
    case (Inr u)
    let ?op' = "?op\<lparr>destination := materialized_dest ?op (backed_bytes r) (res_region r), materialized := True\<rparr>"
    have M: "M = opened ?op' L" using materialize_opened(2) [OF inv op] two Inr by simp
    have inv2: "ledger_inv M" using materialize_inv [OF inv1] two by (metis snd_conv)
    have "require_ticket M ?t = Inr ?op'" using require_opened [of ?op' L] op M by simp
    from commit_open [OF inv2 this]
    have commit: "commit ?t M = (Inr (), finish_ticket ?op' (published ?op' M))" by simp
    have "finish_ticket ?op' (published ?op' M) = published ?op' (finish_ticket ?op' M)"
      by (simp add: finish_ticket_def published_def reserved_op_def)
    also have "finish_ticket ?op' M = L\<lparr>next_id := next_id L + 1\<rparr>"
      unfolding M using op free no_future_ticket [OF ledger_invD(4) [OF inv]]
      by (intro finish_opened) (simp_all add: reserved_op_def materialized_dest_def)
    finally have fin: "commit ?t M = (Inr (), published ?op' (L\<lparr>next_id := next_id L + 1\<rparr>))"
      using commit by simp
    have dest: "destination ?op' = r\<lparr>charged_bytes := max (charged_bytes r) (backed_bytes r)\<rparr>"
      by (simp add: reserved_op_def materialized_dest_def)
    have "admit r L = (Inr (), published ?op' (L\<lparr>next_id := next_id L + 1\<rparr>))"
      using 3(1) two Inr fin by (simp add: admit_def andthen_def)
    then show thesis
      by (rule ok) (simp_all add: published_def dest 3(4), simp_all add: reserved_op_def)
  qed
qed

section \<open>Breakdowns\<close>

lemma dsum_add_to: "distinct (map fst totals) \<Longrightarrow> dsum (\<lambda>n. n) (add_to k n totals) = dsum (\<lambda>n. n) totals + n"
  by (simp add: add_to_def dsum_update split: option.split)

lemma distinct_add_to: "distinct (map fst totals) \<Longrightarrow> distinct (map fst (add_to k n totals))"
  by (simp add: add_to_def distinct_update)

text \<open>A loop that adds the selected values of a dictionary into per-owner totals.\<close>

lemma fold_add_to:
  assumes "distinct (map fst totals)"
  shows "distinct (map fst (fold (\<lambda>(k, v) totals. if P v then totals else add_to (f v) (g v) totals) d totals)) \<and>
    dsum (\<lambda>n. n) (fold (\<lambda>(k, v) totals. if P v then totals else add_to (f v) (g v) totals) d totals) =
      dsum (\<lambda>n. n) totals + dsum (\<lambda>v. if P v then 0 else g v) d"
  using assms
proof (induction d arbitrary: totals)
  case (Cons p d)
  obtain k v where p: "p = (k, v)" by force
  have "distinct (map fst (if P v then totals else add_to (f v) (g v) totals))"
    using Cons.prems by (simp add: distinct_add_to)
  from Cons.IH [OF this] Cons.prems show ?case by (auto simp: p dsum_add_to)
qed simp

lemma by_owner_total:
  "dsum (\<lambda>n. n) (by_owner (Some t) L) = committed L t"
  "dsum (\<lambda>n. n) (pending_by_owner (Some t) L) = pending_charge L t"
  "dsum (\<lambda>n. n) (materialized_by_owner (Some t) L) = committed_materialized L t + pending_materialized L t"
proof -
  let ?skip = "\<lambda>r. Some t \<noteq> Some (res_tier r)"
  have "dsum (\<lambda>n. n) (by_owner (Some t) L) = dsum (\<lambda>r. if ?skip r then 0 else charged_bytes r) (entries L)"
    using fold_add_to [of "[]" ?skip res_owner charged_bytes "entries L"] by (simp add: by_owner_def)
  also have "\<dots> = committed L t"
    unfolding committed_def by (rule arg_cong2 [where f = dsum]) (auto simp: charge_on_def)
  finally show "dsum (\<lambda>n. n) (by_owner (Some t) L) = committed L t" .
  have "dsum (\<lambda>n. n) (pending_by_owner (Some t) L) =
      dsum (\<lambda>op. if ?skip (destination op) then 0 else charged_bytes (destination op)) (pending L)"
    using fold_add_to [of "[]" "\<lambda>op. ?skip (destination op)" "\<lambda>op. res_owner (destination op)"
        "\<lambda>op. charged_bytes (destination op)" "pending L"]
    by (simp add: pending_by_owner_def Let_def)
  also have "\<dots> = pending_charge L t"
    unfolding pending_charge_def by (rule arg_cong2 [where f = dsum]) (auto simp: charge_on_def)
  finally show "dsum (\<lambda>n. n) (pending_by_owner (Some t) L) = pending_charge L t" .
  let ?first = "fold (\<lambda>(_, r) totals. if ?skip r then totals
                              else add_to (res_owner r) (backed_bytes r) totals) (entries L) []"
  have "distinct (map fst ?first)" and "dsum (\<lambda>n. n) ?first = dsum (\<lambda>r. if ?skip r then 0 else backed_bytes r) (entries L)"
    using fold_add_to [of "[]" ?skip res_owner backed_bytes "entries L"] by simp_all
  moreover have "dsum (\<lambda>r. if ?skip r then 0 else backed_bytes r) (entries L) = committed_materialized L t"
    unfolding committed_materialized_def by (rule arg_cong2 [where f = dsum]) auto
  ultimately have one: "distinct (map fst ?first)" "dsum (\<lambda>n. n) ?first = committed_materialized L t" by simp_all
  have "dsum (\<lambda>n. n) (materialized_by_owner (Some t) L) = committed_materialized L t +
      dsum (\<lambda>op. if \<not> materialized op \<or> ?skip (destination op) then 0 else backed_bytes (destination op)) (pending L)"
    using fold_add_to [OF one(1), of "\<lambda>op. \<not> materialized op \<or> ?skip (destination op)"
        "\<lambda>op. res_owner (destination op)" "\<lambda>op. backed_bytes (destination op)" "pending L"] one(2)
    by (simp add: materialized_by_owner_def Let_def)
  also have "dsum (\<lambda>op. if \<not> materialized op \<or> ?skip (destination op) then 0 else backed_bytes (destination op)) (pending L)
      = pending_materialized L t"
    unfolding pending_materialized_def by (rule arg_cong2 [where f = dsum]) auto
  finally show "dsum (\<lambda>n. n) (materialized_by_owner (Some t) L) = committed_materialized L t + pending_materialized L t" .
qed

lemma assert_within_capacity_ok: "ledger_inv L \<Longrightarrow> assert_within_capacity L = Inr ()"
proof -
  assume inv: "ledger_inv L"
  have "\<exists>us. traverse (\<lambda>(t, a). require (committed L t + pending_charge L t \<le> capacity_bytes a) MemoryError)
              (accounts L) = Inr us"
  proof (rule traverse_total)
    fix x assume "x \<in> set (accounts L)"
    moreover obtain t a where "x = (t, a)" by force
    ultimately have x: "x = (t, a)" "(t, a) \<in> set (accounts L)" by simp_all
    then have "map_of (accounts L) t = Some a" using ledger_invD(1) [OF inv] by simp
    from ledger_invD(5) [OF inv this] show
      "\<exists>u. (case x of (t, a) \<Rightarrow> require (committed L t + pending_charge L t \<le> capacity_bytes a) MemoryError) = Inr u"
      by (simp add: x held_def require_def)
  qed
  then show ?thesis by (auto simp: assert_within_capacity_def)
qed

section \<open>Properties\<close>

text \<open>
  C18. No tier is ever oversubscribed.  Start from a new ledger over constructed tier
  accounts and apply any sequence of verbs, with any arguments and whichever of them raise:
  \<open>assert_within_capacity\<close> returns normally, so in every tier the committed and pending
  charges together stay within the capacity, in the middle of transfers too.
\<close>

theorem ledger_never_over_capacity:
  assumes "\<forall>a\<in>set accts. mk_account (account_tier a) (capacity_bytes a) (total_bytes a) = Inr a"
    "MemoryLedger_init uid accts dev = Inr L" "legal_run ledger_exec ledger_legal ops L"
  shows "assert_within_capacity (run_ops ledger_exec ops L) = Inr ()"
proof (rule assert_within_capacity_ok, rule ledger.run_inv [OF _ assms(3)], rule MemoryLedger_init_inv [OF assms(2)])
  show "\<forall>a\<in>set accts. 0 \<le> capacity_bytes a"
    using assms(1) by (auto simp: mk_account_def split: if_splits)
qed

definition sample_accounts :: "TierAccount list" where
  "sample_accounts = [\<lparr>account_tier = DEVICE, capacity_bytes = 100, total_bytes = 128\<rparr>,
                      \<lparr>account_tier = HOST_PINNED, capacity_bytes = 60, total_bytes = 0\<rparr>]"

definition sample_ledger :: MemoryLedger where
  "sample_ledger = \<lparr>ledger_uid = 7, accounts = map (\<lambda>a. (account_tier a, a)) sample_accounts, ledger_device = 0,
     entries = [], pending = [], claimed_labels = [], locked_sources = [], next_id = 1\<rparr>"

definition sample_res :: "string \<Rightarrow> int \<Rightarrow> Reservation" where
  "sample_res l n = \<lparr>res_owner = KV, res_label = l, reserved_bytes = n, backed_bytes = n, res_tier = DEVICE,
     res_device = 0, res_region = None, charged_bytes = n\<rparr>"

definition sample_transfer_ticket :: Ticket where
  "sample_transfer_ticket = \<lparr>ticket_id = 2, ticket_label = ''kv'', ticket_tier = HOST_PINNED,
     from_tier = Some DEVICE, ticket_origin = 7\<rparr>"

definition sample_ledger_ops :: "ledger_op list" where
  "sample_ledger_ops =
     [L_Admit (sample_res ''kv'' 50), L_Transfer ''kv'' HOST_PINNED None,
      L_Materialize sample_transfer_ticket 50 None, L_Reserve (sample_res ''w'' 60), L_Release ''kv'']"

lemma sample_ledger_init: "MemoryLedger_init 7 sample_accounts 0 = Inr sample_ledger"
  by code_simp

lemma sample_ledger_legal: "legal_run ledger_exec ledger_legal sample_ledger_ops sample_ledger"
  by code_simp

theorem ledger_never_over_capacity_witness:
  "assert_within_capacity (run_ops ledger_exec sample_ledger_ops sample_ledger) = Inr ()"
proof (rule ledger_never_over_capacity [OF _ sample_ledger_init sample_ledger_legal])
  show "\<forall>a\<in>set sample_accounts. mk_account (account_tier a) (capacity_bytes a) (total_bytes a) = Inr a"
    by code_simp
qed

text \<open>
  C19. A materialized open ticket always commits: the check for a changed transfer source
  never fires.  The commit publishes the destination, drops the source of a transfer in
  the same step (so one of the two labels always holds the claim), leaves every other
  entry alone, never increases what a tier holds, and closes the ticket.
\<close>

theorem materialized_ticket_commits:
  assumes inv: "ledger_inv L" and t: "require_ticket L t = Inr op" "materialized op"
  shows "\<exists>M. commit t L = (Inr (), M) \<and>
    map_of (entries M) (res_label (destination op)) = Some (destination op) \<and>
    (\<forall>s. source_label op = Some s \<and> s \<noteq> res_label (destination op) \<longrightarrow> map_of (entries M) s = None) \<and>
    (\<forall>l. l \<noteq> res_label (destination op) \<and> source_label op \<noteq> Some l \<longrightarrow> map_of (entries M) l = map_of (entries L) l) \<and>
    (\<forall>x. held M x \<le> held L x) \<and> require_ticket M t = Inl KeyError"
proof -
  let ?M = "finish_ticket op (published op L)"
  have run: "commit t L = (Inr (), ?M)" using commit_open [OF inv t(1)] t(2) by simp
  note D = ledger_invD [OF inv]
  have op: "map_of (pending L) (ticket_id (op_ticket op)) = Some op" and tt: "op_ticket op = t"
    using t(1) by (auto simp: require_ticket_Inr)
  have ok: "op_ok (map_of (entries L), map_of (pending L), map_of (claimed_labels L),
       map_of (locked_sources L), next_id L) (ticket_id (op_ticket op)) op" by (rule linkedD(3) [OF D(4) op])
  have entries: "map_of (entries ?M) = (case source_label op of None \<Rightarrow> map_of (entries L)
      | Some s \<Rightarrow> (map_of (entries L))(s := None))(res_label (destination op) \<mapsto> destination op)"
    by (simp add: finish_simps published_def alist_maps split: option.split)
  have "held ?M x \<le> held L x" for x
  proof -
    have "0 \<le> (case source_label op of None \<Rightarrow> 0 | Some s \<Rightarrow> charge_on x (the (map_of (entries L) s)))"
    proof (cases "source_label op")
      case (Some s)
      with ok obtain r where r: "map_of (entries L) s = Some r" by (auto simp: op_ok_def)
      from linkedD(2) [OF D(4) r] have "0 \<le> charge_on x r" by (rule charge_on_nonneg)
      with Some r show ?thesis by simp
    qed simp
    moreover have "held ?M x = committed (published op L) x + (pending_charge L x - charge_on x (destination op))"
      using pending_after_finish [of "published op L" op x] D(3) op
      by (simp add: held_def finish_simps published_simps)
    ultimately show ?thesis by (simp add: held_def committed_after_publish [OF inv op])
  qed
  moreover have "require_ticket ?M t = Inl KeyError"
    by (simp add: require_ticket_def finish_simps delete_conv' tt)
  ultimately show ?thesis
    using run entries by (intro exI [of _ ?M]) (auto split: option.split)
qed

definition sample_in_transfer :: MemoryLedger where
  "sample_in_transfer = run_ops ledger_exec (take 3 sample_ledger_ops) sample_ledger"

lemma sample_in_transfer_inv: "ledger_inv sample_in_transfer"
  unfolding sample_in_transfer_def
proof (rule ledger.run_inv)
  show "ledger_inv sample_ledger" by (rule MemoryLedger_init_inv [OF sample_ledger_init]) code_simp
qed code_simp

theorem materialized_ticket_commits_witness:
  "\<exists>op M. require_ticket sample_in_transfer sample_transfer_ticket = Inr op \<and> source_label op = Some ''kv'' \<and>
     commit sample_transfer_ticket sample_in_transfer = (Inr (), M)"
proof -
  have "case require_ticket sample_in_transfer sample_transfer_ticket of
      Inl _ \<Rightarrow> False | Inr op \<Rightarrow> materialized op \<and> source_label op = Some ''kv''" by code_simp
  then obtain op where op: "require_ticket sample_in_transfer sample_transfer_ticket = Inr op"
    "materialized op" "source_label op = Some ''kv''" by (auto split: sum.splits)
  with materialized_ticket_commits [OF sample_in_transfer_inv op(1,2)] show ?thesis by blast
qed

text \<open>
  C20. A rollback gives back exactly what was taken.  Rolling back a ticket that
  \<open>reserve\<close> or \<open>transfer\<close> has just opened succeeds and restores the whole ledger
  (entries, pending charges, label claims and source locks), except for the ticket
  counter.  In particular a failed tier copy leaves its source as it was.
\<close>

theorem rollback_restores_ledger:
  assumes inv: "ledger_inv L"
  shows "(res_ok r \<and> reserve r L = (Inr t, M) \<or> transfer label to_tier nl L = (Inr t, M)) \<longrightarrow>
    rollback t M = (Inr (), L\<lparr>next_id := next_id L + 1\<rparr>)"
proof (intro impI, elim disjE conjE)
  assume r: "res_ok r" and run: "reserve r L = (Inr t, M)"
  show "rollback t M = (Inr (), L\<lparr>next_id := next_id L + 1\<rparr>)"
  proof (cases rule: reserve_cases [OF r, of L])
    case 3
    with run have "t = op_ticket (reserved_op r L)" "M = opened (reserved_op r L) L" by simp_all
    with 3 show ?thesis by (simp only:) (rule rollback_opened [OF inv]; simp add: reserved_op_def)
  qed (use run in simp_all)
next
  assume run: "transfer label to_tier nl L = (Inr t, M)"
  show "rollback t M = (Inr (), L\<lparr>next_id := next_id L + 1\<rparr>)"
  proof (cases rule: transfer_cases [of label to_tier nl L])
    case (ok c)
    with run have "t = op_ticket (transfer_op c label to_tier nl L)" "M = opened (transfer_op c label to_tier nl L) L"
      by simp_all
    with ok show ?thesis
      by (simp only:) (rule rollback_opened [OF inv]; simp add: transfer_op_def transfer_dest_def)
  qed (use run in simp_all)
qed

theorem rollback_restores_ledger_witness:
  "\<exists>t M. reserve (sample_res ''x'' 30) sample_ledger = (Inr t, M) \<and>
     rollback t M = (Inr (), sample_ledger\<lparr>next_id := next_id sample_ledger + 1\<rparr>)"
proof -
  have inv: "ledger_inv sample_ledger" by (rule MemoryLedger_init_inv [OF sample_ledger_init]) code_simp
  have r: "res_ok (sample_res ''x'' 30)" by code_simp
  have "case fst (reserve (sample_res ''x'' 30) sample_ledger) of Inl _ \<Rightarrow> False | Inr _ \<Rightarrow> True" by code_simp
  then obtain t M where run: "reserve (sample_res ''x'' 30) sample_ledger = (Inr t, M)"
    by (cases "reserve (sample_res ''x'' 30) sample_ledger") (auto split: sum.splits)
  from rollback_restores_ledger [OF inv, of "sample_res ''x'' 30" t M] r run show ?thesis by blast
qed

text \<open>
  C21. A verb that raises has no effect: the ledger afterwards is the ledger before, up to
  the ticket counter, which \<open>reserve\<close>, \<open>transfer\<close> and \<open>admit\<close> may have advanced.  For
  \<open>admit\<close> this covers the failure of any of its three stages.
\<close>

theorem failed_verb_has_no_effect:
  assumes inv: "ledger_inv L" and legal: "ledger_legal x L" and err: "fst (ledger_exec x L) = Inl e"
  shows "\<exists>n. next_id L \<le> n \<and> snd (ledger_exec x L) = L\<lparr>next_id := n\<rparr>"
proof -
  have same: "\<exists>n. next_id L \<le> n \<and> L = L\<lparr>next_id := n\<rparr>" by (rule exI [of _ "next_id L"]) simp
  have bump: "\<exists>n. next_id L \<le> n \<and> L\<lparr>next_id := next_id L + 1\<rparr> = L\<lparr>next_id := n\<rparr>"
    by (rule exI [of _ "next_id L + 1"]) simp
  show ?thesis
  proof (cases x)
    case (L_Reserve r)
    with legal have r: "res_ok r" by simp
    show ?thesis
      by (cases rule: reserve_cases [OF r, of L])
         (use L_Reserve err same bump in \<open>simp_all add: fst_discard\<close>)
  next
    case (L_Materialize t n reg)
    show ?thesis
      by (cases rule: materialize_cases [of t n reg L]) (use L_Materialize err same in simp_all)
  next
    case (L_Commit t)
    show ?thesis
      using L_Commit err same commit_open [OF inv, of t] commit_closed [of L t]
      by (cases "require_ticket L t") (simp_all split: if_splits)
  next
    case (L_Transfer label t nl)
    show ?thesis
      by (cases rule: transfer_cases [of label t nl L])
         (use L_Transfer err same bump in \<open>simp_all add: fst_discard\<close>)
  next
    case (L_Admit r)
    with legal have r: "res_ok r" by simp
    show ?thesis
      by (cases rule: admit_cases [OF inv r]) (use L_Admit err in auto)
  next
    case (L_Update label b ro co)
    show ?thesis
      by (cases rule: update_cases [of label b ro co L]) (use L_Update err same in simp_all)
  qed (use err same in \<open>auto simp: rollback_def release_def release_owner_def Let_def fst_discard
        split: sum.splits if_splits\<close>)
qed

theorem failed_verb_has_no_effect_witness:
  "\<exists>n. snd (ledger_exec (L_Reserve (sample_res ''big'' 101)) sample_ledger) = sample_ledger\<lparr>next_id := n\<rparr>"
proof -
  have "ledger_inv sample_ledger" by (rule MemoryLedger_init_inv [OF sample_ledger_init]) code_simp
  moreover have "ledger_legal (L_Reserve (sample_res ''big'' 101)) sample_ledger" by code_simp
  moreover have "fst (ledger_exec (L_Reserve (sample_res ''big'' 101)) sample_ledger) = Inl MemoryError" by code_simp
  ultimately show ?thesis by (blast dest: failed_verb_has_no_effect)
qed

text \<open>
  C22. \<open>admit\<close> is all-or-nothing: either it raises, and nothing but the ticket counter
  has changed, or it publishes exactly the given reservation under a label that was free
  (charged for at least its materialized bytes) and leaves no open ticket behind.
\<close>

theorem admit_all_or_nothing:
  assumes "ledger_inv L" "res_ok r"
  shows "(\<exists>e n. admit r L = (Inl e, L\<lparr>next_id := n\<rparr>)) \<or>
    (\<exists>M. admit r L = (Inr (), M) \<and> map_of (entries L) (res_label r) = None \<and>
       map_of (entries M) =
         (map_of (entries L))(res_label r \<mapsto> r\<lparr>charged_bytes := max (charged_bytes r) (backed_bytes r)\<rparr>) \<and>
       pending M = pending L \<and> claimed_labels M = claimed_labels L \<and> locked_sources M = locked_sources L)"
  by (cases rule: admit_cases [OF assms]) (auto simp: update_conv')

theorem admit_all_or_nothing_witness:
  "\<exists>M. admit (sample_res ''kv'' 50) sample_ledger = (Inr (), M) \<and>
     map_of (entries M) = [''kv'' \<mapsto> sample_res ''kv'' 50]"
proof -
  have inv: "ledger_inv sample_ledger" by (rule MemoryLedger_init_inv [OF sample_ledger_init]) code_simp
  have r: "res_ok (sample_res ''kv'' 50)" by code_simp
  have "fst (admit (sample_res ''kv'' 50) sample_ledger) = Inr ()" by code_simp
  with admit_all_or_nothing [OF inv r] show ?thesis
    by (auto simp: sample_ledger_def sample_res_def)
qed

text \<open>
  C23. The reports agree with the accounts: per tier, the owners' shares add up to the
  committed, the pending and the materialized bytes, and each tier's row of the snapshot
  shows what the ledger itself answers for the held and the free bytes.
\<close>

theorem breakdowns_add_up:
  assumes inv: "ledger_inv L"
  shows "dsum (\<lambda>n. n) (by_owner (Some t) L) = committed L t \<and>
    dsum (\<lambda>n. n) (pending_by_owner (Some t) L) = pending_charge L t \<and>
    dsum (\<lambda>n. n) (materialized_by_owner (Some t) L) = committed_materialized L t + pending_materialized L t \<and>
    (map_of (ls_tiers (ledger_snapshot L)) t = Some s \<longrightarrow>
       held_bytes s = held L t \<and> ledger_free L t = Inr (free_bytes s) \<and> held_bytes s + free_bytes s = tas_capacity s)"
proof -
  have filtered: "dsum charged_bytes (filter (\<lambda>(_, r). res_tier r = t) d) = dsum (charge_on t) d"
    for d :: "(string \<times> Reservation) list"
    by (induction d) (auto simp: charge_on_def)
  have row: "map_of (map (\<lambda>(t, a). (t, f t a)) xs) t = map_option (f t) (map_of xs t)"
    for f :: "MemoryTier \<Rightarrow> TierAccount \<Rightarrow> TierAccountSnapshot" and xs
    by (induction xs) auto
  have "held_bytes s = held L t \<and> ledger_free L t = Inr (free_bytes s) \<and> held_bytes s + free_bytes s = tas_capacity s"
    if "map_of (ls_tiers (ledger_snapshot L)) t = Some s"
  proof -
    from that obtain a where a: "map_of (accounts L) t = Some a"
      and s: "tas_capacity s = capacity_bytes a" "tas_committed s = committed L t" "tas_pending s = pending_charge L t"
      by (auto simp: ledger_snapshot_def Let_def row filtered committed_def)
    from ledger_invD(5) [OF inv a] show ?thesis
      by (simp add: a s held_bytes_def free_bytes_def held_def ledger_free_def account_def)
  qed
  with by_owner_total show ?thesis by blast
qed

theorem breakdowns_add_up_witness:
  "\<exists>s. map_of (ls_tiers (ledger_snapshot sample_in_transfer)) DEVICE = Some s \<and>
     ledger_free sample_in_transfer DEVICE = Inr (free_bytes s)"
proof -
  have "map_of (ls_tiers (ledger_snapshot sample_in_transfer)) DEVICE \<noteq> None" by code_simp
  then obtain s where "map_of (ls_tiers (ledger_snapshot sample_in_transfer)) DEVICE = Some s" by blast
  with breakdowns_add_up [OF sample_in_transfer_inv, of DEVICE s] show ?thesis by blast
qed

end
