(* ===== verification/Request_Machine.thy ===== *)
theory Request_Machine
  imports Py_Prelude
begin

text \<open>
  The request state machine: the transition table of \<open>request/states.py\<close>, the latency
  record of \<open>utils/timing.py\<close> and the guarded machine of \<open>request/machine.py\<close>.  All machines
  of a process draw their incarnations (\<open>sequence_epoch\<close>) from one counter,
  \<open>_REQUEST_EPOCHS\<close>, so a machine operation acts on a machine together with the next value
  of that counter.  The monotonic clock is outside the program: where the code reads it, or
  accepts \<open>now_ns\<close> in its place, the operation here takes the timestamp as an argument.
\<close>

section \<open>States and transitions\<close>

datatype RequestState =
    CREATED | VALIDATING | TOKENIZING | CACHE_LOOKUP | WAITING | ADMITTED | PREFILL | DECODING
  | STREAMING | FINISHED
  | WAITING_KV | WAITING_REMOTE_KV | PREEMPTED | SWAPPED | PAUSED | MIGRATING | RETRYING
  | CANCELLED | FAILED

definition all_states :: "RequestState list" where
  "all_states =
     [CREATED, VALIDATING, TOKENIZING, CACHE_LOOKUP, WAITING, ADMITTED, PREFILL, DECODING, STREAMING,
      FINISHED, WAITING_KV, WAITING_REMOTE_KV, PREEMPTED, SWAPPED, PAUSED, MIGRATING, RETRYING,
      CANCELLED, FAILED]"

definition MAIN_STATES :: "RequestState list" where
  "MAIN_STATES =
     [CREATED, VALIDATING, TOKENIZING, CACHE_LOOKUP, WAITING, ADMITTED, PREFILL, DECODING, STREAMING,
      FINISHED]"

definition AUXILIARY_STATES :: "RequestState list" where
  "AUXILIARY_STATES = filter (\<lambda>s. s \<notin> set MAIN_STATES) all_states"

definition TERMINAL_STATES :: "RequestState list" where
  "TERMINAL_STATES = [FINISHED, CANCELLED, FAILED]"

definition RUNNING_STATES :: "RequestState list" where
  "RUNNING_STATES = [ADMITTED, PREFILL, DECODING, STREAMING, PAUSED, MIGRATING]"

fun transition_table :: "RequestState \<Rightarrow> RequestState list" where
  "transition_table CREATED = [VALIDATING]"
| "transition_table VALIDATING = [TOKENIZING]"
| "transition_table TOKENIZING = [CACHE_LOOKUP]"
| "transition_table CACHE_LOOKUP = [WAITING, WAITING_REMOTE_KV]"
| "transition_table WAITING = [ADMITTED, WAITING_KV]"
| "transition_table WAITING_KV = [WAITING, ADMITTED]"
| "transition_table WAITING_REMOTE_KV = [WAITING, CACHE_LOOKUP]"
| "transition_table ADMITTED = [PREFILL, DECODING, PREEMPTED, SWAPPED, MIGRATING]"
| "transition_table PREFILL = [DECODING, PREEMPTED, SWAPPED, PAUSED, MIGRATING, RETRYING, FINISHED]"
| "transition_table DECODING = [STREAMING, FINISHED, PREEMPTED, SWAPPED, PAUSED, MIGRATING, RETRYING]"
| "transition_table STREAMING = [DECODING, FINISHED, PAUSED, PREEMPTED, SWAPPED]"
| "transition_table PREEMPTED = [WAITING]"
| "transition_table SWAPPED = [WAITING, ADMITTED, PREEMPTED]"
| "transition_table PAUSED = [PREFILL, DECODING, STREAMING, PREEMPTED, SWAPPED]"
| "transition_table MIGRATING = [ADMITTED, PREFILL, DECODING, RETRYING]"
| "transition_table RETRYING = [WAITING, CACHE_LOOKUP]"
| "transition_table FINISHED = []"
| "transition_table CANCELLED = []"
| "transition_table FAILED = []"

definition legal_targets :: "RequestState \<Rightarrow> RequestState list" where
  "legal_targets s = transition_table s @ (if s \<notin> set TERMINAL_STATES then [CANCELLED, FAILED] else [])"

definition is_legal :: "RequestState \<Rightarrow> RequestState \<Rightarrow> bool" where
  "is_legal src dst \<longleftrightarrow> dst \<in> set (legal_targets src)"

section \<open>Timing\<close>

definition MAX_INTER_TOKEN_SAMPLES :: nat where
  "MAX_INTER_TOKEN_SAMPLES = 512"

record RequestTiming =
  arrival_ns :: int
  first_scheduled_ns :: int
  first_token_ns :: int
  last_token_ns :: int
  finished_ns :: int
  num_output_tokens :: int
  inter_token_intervals_ns :: "int list"

definition RequestTiming_init :: "int \<Rightarrow> RequestTiming" where
  "RequestTiming_init arrival =
     \<lparr>arrival_ns = arrival, first_scheduled_ns = 0, first_token_ns = 0, last_token_ns = 0,
      finished_ns = 0, num_output_tokens = 0, inter_token_intervals_ns = []\<rparr>"

definition queue_time_ns :: "RequestTiming \<Rightarrow> int option" where
  "queue_time_ns t =
     (if first_scheduled_ns t \<ge> arrival_ns t \<and> first_scheduled_ns t \<noteq> 0
      then Some (first_scheduled_ns t - arrival_ns t) else None)"

definition ttft_ns :: "RequestTiming \<Rightarrow> int option" where
  "ttft_ns t =
     (if first_token_ns t \<ge> arrival_ns t \<and> first_token_ns t \<noteq> 0
      then Some (first_token_ns t - arrival_ns t) else None)"

definition tpot_ns :: "RequestTiming \<Rightarrow> int option" where
  "tpot_ns t =
     (if num_output_tokens t \<ge> 2 \<and> last_token_ns t > first_token_ns t
      then Some ((last_token_ns t - first_token_ns t) div (num_output_tokens t - 1)) else None)"

definition e2e_ns :: "RequestTiming \<Rightarrow> int option" where
  "e2e_ns t =
     (let end_ns = (if finished_ns t \<noteq> 0 then finished_ns t else last_token_ns t)
      in if end_ns \<ge> arrival_ns t \<and> end_ns \<noteq> 0 then Some (end_ns - arrival_ns t) else None)"

definition mark_scheduled :: "int \<Rightarrow> RequestTiming \<Rightarrow> RequestTiming" where
  "mark_scheduled now t = (if first_scheduled_ns t = 0 then t\<lparr>first_scheduled_ns := now\<rparr> else t)"

definition mark_streamed :: "int \<Rightarrow> RequestTiming \<Rightarrow> RequestTiming" where
  "mark_streamed now t =
     (if first_token_ns t = 0 then t\<lparr>first_token_ns := now, last_token_ns := now\<rparr>
      else if now < last_token_ns t then t
      else (if length (inter_token_intervals_ns t) < MAX_INTER_TOKEN_SAMPLES
            then t\<lparr>inter_token_intervals_ns := inter_token_intervals_ns t @ [now - last_token_ns t]\<rparr>
            else t)\<lparr>last_token_ns := now\<rparr>)"

definition mark_finished :: "int \<Rightarrow> RequestTiming \<Rightarrow> RequestTiming" where
  "mark_finished now t = t\<lparr>finished_ns := now\<rparr>"

section \<open>The machine\<close>

record RequestStateMachine =
  machine_id :: string
  mstate :: RequestState
  timing :: RequestTiming
  history :: "(RequestState \<times> int) list"
  history_size :: nat
  num_prompt_tokens :: int
  sequence_epoch :: int
  num_computed_tokens :: int
  num_cached_tokens :: int
  preemption_count :: int
  swap_count :: int
  retry_count :: int
  max_retries :: int
  cancel_requested :: bool
  failure_reason :: string

text \<open>The machine and the process-wide counter behind \<open>next_request_epoch\<close>.\<close>

type_synonym machine_state = "RequestStateMachine \<times> int"

text \<open>\<open>deque.append\<close> with a \<open>maxlen\<close> drops from the left.\<close>

definition deque_append :: "nat \<Rightarrow> 'a list \<Rightarrow> 'a \<Rightarrow> 'a list" where
  "deque_append maxlen h x = drop (length h + 1 - maxlen) (h @ [x])"

definition RequestStateMachine_init :: "string \<Rightarrow> int \<Rightarrow> int \<Rightarrow> nat \<Rightarrow> int \<Rightarrow> machine_state" where
  "RequestStateMachine_init rid initial_ns retries hsize ep =
     (\<lparr>machine_id = rid, mstate = CREATED, timing = RequestTiming_init initial_ns,
       history = deque_append hsize [] (CREATED, initial_ns), history_size = hsize,
       num_prompt_tokens = 0, sequence_epoch = ep, num_computed_tokens = 0, num_cached_tokens = 0,
       preemption_count = 0, swap_count = 0, retry_count = 0, max_retries = retries,
       cancel_requested = False, failure_reason = []\<rparr>, ep + 1)"

definition num_generated_tokens :: "RequestStateMachine \<Rightarrow> int" where
  "num_generated_tokens m = num_output_tokens (timing m)"

definition is_terminal :: "RequestStateMachine \<Rightarrow> bool" where
  "is_terminal m \<longleftrightarrow> mstate m \<in> set TERMINAL_STATES"

definition holds_kv :: "RequestStateMachine \<Rightarrow> bool" where
  "holds_kv m \<longleftrightarrow> mstate m \<in> set RUNNING_STATES"

definition can :: "RequestStateMachine \<Rightarrow> RequestState \<Rightarrow> bool" where
  "can m dst \<longleftrightarrow> is_legal (mstate m) dst"

text \<open>The writes of \<open>transition\<close> after its guard, in the order of the code.\<close>

definition enter_state :: "RequestState \<Rightarrow> int \<Rightarrow> RequestStateMachine \<Rightarrow> RequestStateMachine" where
  "enter_state dst ts m =
     m\<lparr>mstate := dst, history := deque_append (history_size m) (history m) (dst, ts)\<rparr>"

definition mark_latency :: "RequestState \<Rightarrow> int \<Rightarrow> RequestStateMachine \<Rightarrow> RequestStateMachine" where
  "mark_latency dst ts m =
     (let m1 = (if dst \<in> set [PREFILL, DECODING] \<and> first_scheduled_ns (timing m) = 0
                then m\<lparr>timing := mark_scheduled ts (timing m)\<rparr> else m)
      in if dst \<in> set TERMINAL_STATES then m1\<lparr>timing := mark_finished ts (timing m1)\<rparr> else m1)"

definition count_edge :: "RequestState \<Rightarrow> RequestStateMachine \<Rightarrow> RequestStateMachine" where
  "count_edge dst m =
     (if dst = PREEMPTED
      then m\<lparr>preemption_count := preemption_count m + 1, num_cached_tokens := 0, num_computed_tokens := 0\<rparr>
      else if dst = SWAPPED then m\<lparr>swap_count := swap_count m + 1\<rparr>
      else if dst = RETRYING then m\<lparr>retry_count := retry_count m + 1\<rparr>
      else m)"

definition new_incarnation :: "RequestState \<Rightarrow> bool" where
  "new_incarnation dst \<longleftrightarrow> dst \<in> set [PREEMPTED, SWAPPED, RETRYING, CANCELLED, FAILED]"

definition transition :: "RequestState \<Rightarrow> int \<Rightarrow> (machine_state, RequestState) py" where
  "transition dst ts = (\<lambda>(m, ep).
     if \<not> is_legal (mstate m) dst then (Inl IllegalTransition, (m, ep))
     else let m1 = count_edge dst (mark_latency dst ts (enter_state dst ts m)) in
       (Inr (mstate m),
        if new_incarnation dst then (m1\<lparr>sequence_epoch := ep\<rparr>, ep + 1) else (m1, ep)))"

text \<open>A write to the machine alone, and a guard over it.\<close>

definition on_machine :: "(RequestStateMachine \<Rightarrow> RequestStateMachine) \<Rightarrow> (machine_state, unit) py" where
  "on_machine f = modify (\<lambda>(m, ep). (f m, ep))"

definition guard :: "(RequestStateMachine \<Rightarrow> bool) \<Rightarrow> pyerror \<Rightarrow> (machine_state, unit) py" where
  "guard c e = reads (\<lambda>(m, ep). require (c m) e)"

section \<open>The methods the engine calls\<close>

definition on_validating :: "int \<Rightarrow> (machine_state, unit) py" where
  "on_validating ts = discard (transition VALIDATING ts)"

definition on_validated :: "int \<Rightarrow> (machine_state, unit) py" where
  "on_validated ts = discard (transition TOKENIZING ts)"

definition on_tokenized :: "int \<Rightarrow> int \<Rightarrow> (machine_state, unit) py" where
  "on_tokenized n ts =
     andthen (reads (\<lambda>_. require_int n 1)) (\<lambda>_.
     andthen (transition CACHE_LOOKUP ts) (\<lambda>_.
     on_machine (\<lambda>m. m\<lparr>num_prompt_tokens := n\<rparr>)))"

definition on_cache_looked_up :: "int \<Rightarrow> int \<Rightarrow> (machine_state, unit) py" where
  "on_cache_looked_up n ts =
     andthen (reads (\<lambda>_. require_int n 0)) (\<lambda>_.
     andthen (guard (\<lambda>m. n \<le> num_prompt_tokens m + num_generated_tokens m) ValueError) (\<lambda>_.
     andthen (transition WAITING ts) (\<lambda>_.
     on_machine (\<lambda>m. m\<lparr>num_cached_tokens := n, num_computed_tokens := n\<rparr>))))"

definition on_remote_kv_wait :: "int \<Rightarrow> (machine_state, unit) py" where
  "on_remote_kv_wait ts = discard (transition WAITING_REMOTE_KV ts)"

definition on_remote_kv_ready :: "int \<Rightarrow> (machine_state, unit) py" where
  "on_remote_kv_ready ts = discard (transition CACHE_LOOKUP ts)"

definition on_remote_kv_abandoned :: "int \<Rightarrow> (machine_state, unit) py" where
  "on_remote_kv_abandoned ts = discard (transition WAITING ts)"

definition on_admitted :: "int \<Rightarrow> (machine_state, unit) py" where
  "on_admitted ts = discard (transition ADMITTED ts)"

definition on_prefill_started :: "int \<Rightarrow> (machine_state, unit) py" where
  "on_prefill_started ts = discard (transition PREFILL ts)"

definition commit_range :: "int \<Rightarrow> int \<Rightarrow> (machine_state, unit) py" where
  "commit_range query_start query_count =
     andthen (reads (\<lambda>_. require_int query_start 0)) (\<lambda>_.
     andthen (reads (\<lambda>_. require_int query_count 1)) (\<lambda>_.
     andthen (guard (\<lambda>m. mstate m \<in> set [PREFILL, DECODING, STREAMING]) ValueError) (\<lambda>_.
     andthen (guard (\<lambda>m. query_start = num_computed_tokens m) ValueError) (\<lambda>_.
     andthen (guard (\<lambda>m. query_start + query_count \<le> num_prompt_tokens m + num_generated_tokens m) ValueError) (\<lambda>_.
     on_machine (\<lambda>m. m\<lparr>num_computed_tokens := query_start + query_count\<rparr>))))))"

definition on_prefill_chunk :: "int \<Rightarrow> (machine_state, unit) py" where
  "on_prefill_chunk n =
     andthen (guard (\<lambda>m. mstate m = PREFILL) IllegalTransition) (\<lambda>_.
     andthen (reads (\<lambda>_. require_int n 1)) (\<lambda>_.
     andthen (guard (\<lambda>m. num_computed_tokens m + n \<le> num_prompt_tokens m) ValueError) (\<lambda>_.
     (\<lambda>(m, ep). commit_range (num_computed_tokens m) n (m, ep)))))"

definition on_decode_started :: "int \<Rightarrow> (machine_state, unit) py" where
  "on_decode_started ts =
     andthen (guard (\<lambda>m. num_prompt_tokens m \<le> num_computed_tokens m) ValueError) (\<lambda>_.
     discard (transition DECODING ts))"

definition count_token :: "int \<Rightarrow> RequestStateMachine \<Rightarrow> RequestStateMachine" where
  "count_token c m = m\<lparr>timing := (timing m)\<lparr>num_output_tokens := num_output_tokens (timing m) + c\<rparr>\<rparr>"

definition on_token_generated :: "int \<Rightarrow> (machine_state, unit) py" where
  "on_token_generated c =
     andthen (reads (\<lambda>_. require_int c 0)) (\<lambda>_.
     if c = 0 then ret ()
     else if c \<noteq> 1 then raise ValueError
     else andthen (guard (\<lambda>m. mstate m \<in> set [DECODING, STREAMING]) IllegalTransition) (\<lambda>_.
          andthen (guard (\<lambda>m. num_computed_tokens m = num_prompt_tokens m + num_generated_tokens m) ValueError) (\<lambda>_.
          on_machine (count_token c))))"

definition mark_published :: "int \<Rightarrow> (machine_state, unit) py" where
  "mark_published ts = on_machine (\<lambda>m. m\<lparr>timing := mark_streamed ts (timing m)\<rparr>)"

definition on_streamed :: "int \<Rightarrow> (machine_state, unit) py" where
  "on_streamed ts = (\<lambda>(m, ep).
     if mstate m = STREAMING then mark_published ts (m, ep)
     else discard (transition STREAMING ts) (m, ep))"

definition on_preempted :: "bool \<Rightarrow> int \<Rightarrow> (machine_state, unit) py" where
  "on_preempted swap ts = discard (transition (if swap then SWAPPED else PREEMPTED) ts)"

definition on_requeued :: "int \<Rightarrow> (machine_state, unit) py" where
  "on_requeued ts = discard (transition WAITING ts)"

definition on_finished :: "int \<Rightarrow> (machine_state, unit) py" where
  "on_finished ts = discard (transition FINISHED ts)"

definition on_cancelled :: "int \<Rightarrow> (machine_state, unit) py" where
  "on_cancelled ts = (\<lambda>(m, ep).
     let m1 = m\<lparr>cancel_requested := True\<rparr> in
     if is_terminal m1 then (Inr (), (m1, ep)) else discard (transition CANCELLED ts) (m1, ep))"

definition on_failed :: "string \<Rightarrow> int \<Rightarrow> (machine_state, unit) py" where
  "on_failed reason ts = (\<lambda>(m, ep).
     let m1 = m\<lparr>failure_reason := reason\<rparr> in
     if is_terminal m1 then (Inr (), (m1, ep)) else discard (transition FAILED ts) (m1, ep))"

text \<open>The decimal digits of a counter, as an f-string prints them.\<close>

fun decimal :: "nat \<Rightarrow> string" where
  "decimal n = (if n < 10 then [char_of (48 + n)] else decimal (n div 10) @ [char_of (48 + n mod 10)])"

declare decimal.simps [simp del]

definition str_int :: "int \<Rightarrow> string" where
  "str_int i = (if i < 0 then ''-'' @ decimal (nat (- i)) else decimal (nat i))"

definition on_error :: "string \<Rightarrow> int \<Rightarrow> (machine_state, bool) py" where
  "on_error reason ts = (\<lambda>(m, ep).
     if retry_count m \<ge> max_retries m
     then andthen (on_failed (reason @ '' (retries exhausted: '' @ str_int (retry_count m) @ '')'') ts)
            (\<lambda>_. ret False) (m, ep)
     else andthen (transition RETRYING ts) (\<lambda>_. ret True) (m\<lparr>failure_reason := reason\<rparr>, ep))"

section \<open>The methods as one datatype\<close>

text \<open>
  The methods that the engine loop calls.  \<open>transition\<close> itself is not among them: it is public,
  but it checks the edge only and none of what the methods check besides.  The code calls it
  from these methods, from the lifecycle, where it is modelled in place, and from the KV
  runtime, for the edges of \<open>on_requeued\<close> and \<open>on_admitted\<close>.
\<close>

datatype machine_op =
    M_Validating | M_Validated | M_Tokenized int | M_Cache_Looked_Up int | M_Remote_Kv_Wait
  | M_Remote_Kv_Ready | M_Remote_Kv_Abandoned | M_Admitted | M_Prefill_Started
  | M_Commit_Range int int | M_Prefill_Chunk int | M_Decode_Started | M_Token_Generated int
  | M_Published | M_Streamed | M_Preempted bool | M_Requeued | M_Finished | M_Cancelled
  | M_Failed string | M_Error string

text \<open>A call and the timestamp it reads.\<close>

fun machine_exec :: "machine_op \<times> int \<Rightarrow> (machine_state, unit) py" where
  "machine_exec (M_Validating, ts) = on_validating ts"
| "machine_exec (M_Validated, ts) = on_validated ts"
| "machine_exec (M_Tokenized n, ts) = on_tokenized n ts"
| "machine_exec (M_Cache_Looked_Up n, ts) = on_cache_looked_up n ts"
| "machine_exec (M_Remote_Kv_Wait, ts) = on_remote_kv_wait ts"
| "machine_exec (M_Remote_Kv_Ready, ts) = on_remote_kv_ready ts"
| "machine_exec (M_Remote_Kv_Abandoned, ts) = on_remote_kv_abandoned ts"
| "machine_exec (M_Admitted, ts) = on_admitted ts"
| "machine_exec (M_Prefill_Started, ts) = on_prefill_started ts"
| "machine_exec (M_Commit_Range s n, ts) = commit_range s n"
| "machine_exec (M_Prefill_Chunk n, ts) = on_prefill_chunk n"
| "machine_exec (M_Decode_Started, ts) = on_decode_started ts"
| "machine_exec (M_Token_Generated c, ts) = on_token_generated c"
| "machine_exec (M_Published, ts) = mark_published ts"
| "machine_exec (M_Streamed, ts) = on_streamed ts"
| "machine_exec (M_Preempted swap, ts) = on_preempted swap ts"
| "machine_exec (M_Requeued, ts) = on_requeued ts"
| "machine_exec (M_Finished, ts) = on_finished ts"
| "machine_exec (M_Cancelled, ts) = on_cancelled ts"
| "machine_exec (M_Failed reason, ts) = on_failed reason ts"
| "machine_exec (M_Error reason, ts) = discard (on_error reason ts)"

end
