(* ===== verification/Request_Properties.thy ===== *)
theory Request_Properties
  imports Request_Machine
begin

text \<open>
  Correctness of the request state machine: the shape of its transition graph, the
  invariant of its counters, its bounded history and its latency record, who may hold KV
  blocks, and that a terminal request stays as it is.
\<close>

section \<open>The transition graph\<close>

lemma state_mem: "s \<in> set all_states"
  by (cases s) (simp_all add: all_states_def)

lemmas state_sets = TERMINAL_STATES_def RUNNING_STATES_def

lemma legal_edge: "is_legal s d \<Longrightarrow> is_legal\<^sup>*\<^sup>* d t \<Longrightarrow> is_legal\<^sup>*\<^sup>* s t"
  by (rule converse_rtranclp_into_rtranclp)

lemma not_legal_from_terminal: "s \<in> set TERMINAL_STATES \<Longrightarrow> \<not> is_legal s d"
  by (auto simp: is_legal_def legal_targets_def TERMINAL_STATES_def)

lemma legal_into_early:
  "is_legal s VALIDATING \<Longrightarrow> s = CREATED" "is_legal s TOKENIZING \<Longrightarrow> s = VALIDATING" "\<not> is_legal s CREATED"
  by (cases s; simp add: is_legal_def legal_targets_def TERMINAL_STATES_def)+

lemma finishes: "s \<notin> set TERMINAL_STATES \<Longrightarrow> is_legal\<^sup>*\<^sup>* s FINISHED"
proof -
  have edges: "is_legal CREATED VALIDATING" "is_legal VALIDATING TOKENIZING" "is_legal TOKENIZING CACHE_LOOKUP"
    "is_legal CACHE_LOOKUP WAITING" "is_legal WAITING ADMITTED" "is_legal ADMITTED DECODING"
    "is_legal PREFILL FINISHED" "is_legal DECODING FINISHED" "is_legal STREAMING FINISHED"
    "is_legal WAITING_KV ADMITTED" "is_legal WAITING_REMOTE_KV WAITING" "is_legal PREEMPTED WAITING"
    "is_legal SWAPPED ADMITTED" "is_legal PAUSED DECODING" "is_legal MIGRATING DECODING" "is_legal RETRYING WAITING"
    by (simp_all add: is_legal_def legal_targets_def)
  note step = edges [THEN legal_edge]
  have d: "is_legal\<^sup>*\<^sup>* DECODING FINISHED" by (rule step) simp
  have a: "is_legal\<^sup>*\<^sup>* ADMITTED FINISHED" by (rule step(6), rule d)
  have w: "is_legal\<^sup>*\<^sup>* WAITING FINISHED" by (rule step(5), rule a)
  have c: "is_legal\<^sup>*\<^sup>* CACHE_LOOKUP FINISHED" by (rule step(4), rule w)
  have t: "is_legal\<^sup>*\<^sup>* TOKENIZING FINISHED" by (rule step(3), rule c)
  have v: "is_legal\<^sup>*\<^sup>* VALIDATING FINISHED" by (rule step(2), rule t)
  assume "s \<notin> set TERMINAL_STATES"
  then show ?thesis
    by (cases s) (auto simp: TERMINAL_STATES_def intro: d a w c t v step)
qed

lemma reached: "is_legal\<^sup>*\<^sup>* CREATED s"
proof -
  have edges: "is_legal CREATED VALIDATING" "is_legal VALIDATING TOKENIZING" "is_legal TOKENIZING CACHE_LOOKUP"
    "is_legal CACHE_LOOKUP WAITING" "is_legal WAITING ADMITTED" "is_legal ADMITTED PREFILL" "is_legal PREFILL DECODING"
    "is_legal DECODING d \<or> d \<notin> set [STREAMING, FINISHED, PREEMPTED, SWAPPED, PAUSED, MIGRATING, RETRYING]"
    "is_legal CREATED CANCELLED" "is_legal CREATED FAILED" "is_legal WAITING WAITING_KV"
    "is_legal CACHE_LOOKUP WAITING_REMOTE_KV" for d
    by (auto simp: is_legal_def legal_targets_def TERMINAL_STATES_def)
  note step = rtranclp.rtrancl_into_rtrancl [of is_legal CREATED]
  have v: "is_legal\<^sup>*\<^sup>* CREATED VALIDATING" using edges by blast
  have t: "is_legal\<^sup>*\<^sup>* CREATED TOKENIZING" using v edges by (blast intro: step)
  have c: "is_legal\<^sup>*\<^sup>* CREATED CACHE_LOOKUP" using t edges by (blast intro: step)
  have w: "is_legal\<^sup>*\<^sup>* CREATED WAITING" using c edges by (blast intro: step)
  have a: "is_legal\<^sup>*\<^sup>* CREATED ADMITTED" using w edges by (blast intro: step)
  have p: "is_legal\<^sup>*\<^sup>* CREATED PREFILL" using a edges by (blast intro: step)
  have d: "is_legal\<^sup>*\<^sup>* CREATED DECODING" using p edges by (blast intro: step)
  show ?thesis
  proof (cases "s \<in> set [STREAMING, FINISHED, PREEMPTED, SWAPPED, PAUSED, MIGRATING, RETRYING]")
    case True
    with edges(8) [of s] have "is_legal DECODING s" by blast
    with d show ?thesis by (rule step)
  next
    case False
    then show ?thesis using v t c w a p d edges by (cases s) (auto intro: step)
  qed
qed

text \<open>
  C33. No request can get stuck.  Every state of the table is reachable from CREATED.  A
  state that is not terminal can always be cancelled or failed at once and has a path to
  FINISHED; a terminal state has no successor; and no state is its own successor.
\<close>

theorem request_graph_live:
  "is_legal\<^sup>*\<^sup>* CREATED s \<and> \<not> is_legal s s \<and>
   (if s \<in> set TERMINAL_STATES then legal_targets s = []
    else is_legal s CANCELLED \<and> is_legal s FAILED \<and> is_legal\<^sup>*\<^sup>* s FINISHED)"
proof -
  have "\<not> is_legal s s" by (cases s) (simp_all add: is_legal_def legal_targets_def TERMINAL_STATES_def)
  moreover have "legal_targets s = []" if "s \<in> set TERMINAL_STATES"
    using that by (auto simp: legal_targets_def TERMINAL_STATES_def)
  moreover have "is_legal s CANCELLED \<and> is_legal s FAILED" if "s \<notin> set TERMINAL_STATES"
    using that by (simp add: is_legal_def legal_targets_def)
  ultimately show ?thesis using reached finishes by simp
qed

section \<open>The invariant\<close>

definition timing_ok :: "RequestTiming \<Rightarrow> bool" where
  "timing_ok t \<longleftrightarrow>
     (\<forall>x\<in>set (inter_token_intervals_ns t). 0 \<le> x) \<and>
     length (inter_token_intervals_ns t) \<le> MAX_INTER_TOKEN_SAMPLES \<and>
     (if first_token_ns t = 0 then inter_token_intervals_ns t = [] \<and> last_token_ns t = 0
      else first_token_ns t \<le> last_token_ns t \<and>
        (if length (inter_token_intervals_ns t) < MAX_INTER_TOKEN_SAMPLES
         then sum_list (inter_token_intervals_ns t) = last_token_ns t - first_token_ns t
         else sum_list (inter_token_intervals_ns t) \<le> last_token_ns t - first_token_ns t))"

definition tokens_ok :: "RequestStateMachine \<Rightarrow> bool" where
  "tokens_ok m \<longleftrightarrow>
     0 \<le> num_prompt_tokens m \<and> 0 \<le> num_generated_tokens m \<and> 0 \<le> num_cached_tokens m \<and>
     num_cached_tokens m \<le> num_computed_tokens m \<and>
     num_computed_tokens m \<le> num_prompt_tokens m + num_generated_tokens m \<and>
     (mstate m \<in> set [CREATED, VALIDATING, TOKENIZING] \<longrightarrow> num_computed_tokens m = 0 \<and> num_generated_tokens m = 0)"

definition history_ok :: "RequestStateMachine \<Rightarrow> bool" where
  "history_ok m \<longleftrightarrow>
     length (history m) \<le> history_size m \<and>
     (0 < history_size m \<longrightarrow> history m \<noteq> [] \<and> fst (last (history m)) = mstate m) \<and>
     (\<forall>i. Suc i < length (history m) \<longrightarrow> is_legal (fst (history m ! i)) (fst (history m ! Suc i)))"

definition counts_ok :: "RequestStateMachine \<Rightarrow> bool" where
  "counts_ok m \<longleftrightarrow>
     0 \<le> preemption_count m \<and> 0 \<le> swap_count m \<and> 0 \<le> retry_count m \<and> retry_count m \<le> max 0 (max_retries m)"

definition machine_inv :: "machine_state \<Rightarrow> bool" where
  "machine_inv = (\<lambda>(m, ep). sequence_epoch m < ep \<and> timing_ok (timing m) \<and> tokens_ok m \<and> history_ok m \<and> counts_ok m)"

text \<open>
  The one obligation of a caller.  The transition table lets \<open>on_tokenized\<close> through from
  \<open>TOKENIZING\<close>, where nothing has been computed yet, but also from \<open>RETRYING\<close> and
  \<open>WAITING_REMOTE_KV\<close>, which keep the progress made.  A call that is let through must not
  report fewer tokens than that progress needs.
\<close>

fun machine_legal :: "machine_op \<times> int \<Rightarrow> machine_state \<Rightarrow> bool" where
  "machine_legal (M_Tokenized n, _) (m, _) =
     (1 \<le> n \<and> is_legal (mstate m) CACHE_LOOKUP \<longrightarrow> num_computed_tokens m \<le> n + num_generated_tokens m)"
| "machine_legal _ _ = True"

lemma timing_ok_streamed: "timing_ok t \<Longrightarrow> timing_ok (mark_streamed ts t)"
  by (auto simp: timing_ok_def mark_streamed_def MAX_INTER_TOKEN_SAMPLES_def)

lemma timing_ok_marks [simp]:
  "timing_ok (t\<lparr>first_scheduled_ns := x\<rparr>) = timing_ok t" "timing_ok (t\<lparr>finished_ns := x\<rparr>) = timing_ok t"
  "timing_ok (t\<lparr>num_output_tokens := x\<rparr>) = timing_ok t"
  by (simp_all add: timing_ok_def)

text \<open>The three groups of writes of a transition touch separate fields.\<close>

lemma mark_latency_simps [simp]:
  "mstate (mark_latency d ts m) = mstate m" "history (mark_latency d ts m) = history m"
  "history_size (mark_latency d ts m) = history_size m" "num_prompt_tokens (mark_latency d ts m) = num_prompt_tokens m"
  "num_computed_tokens (mark_latency d ts m) = num_computed_tokens m"
  "num_cached_tokens (mark_latency d ts m) = num_cached_tokens m" "retry_count (mark_latency d ts m) = retry_count m"
  "max_retries (mark_latency d ts m) = max_retries m" "preemption_count (mark_latency d ts m) = preemption_count m"
  "swap_count (mark_latency d ts m) = swap_count m" "sequence_epoch (mark_latency d ts m) = sequence_epoch m"
  "num_output_tokens (timing (mark_latency d ts m)) = num_output_tokens (timing m)"
  "timing_ok (timing (mark_latency d ts m)) = timing_ok (timing m)" "machine_id (mark_latency d ts m) = machine_id m"
  by (simp_all add: mark_latency_def mark_scheduled_def mark_finished_def Let_def)

lemma enter_state_simps [simp]:
  "mstate (enter_state d ts m) = d" "timing (enter_state d ts m) = timing m"
  "history (enter_state d ts m) = deque_append (history_size m) (history m) (d, ts)"
  "history_size (enter_state d ts m) = history_size m" "num_prompt_tokens (enter_state d ts m) = num_prompt_tokens m"
  "num_computed_tokens (enter_state d ts m) = num_computed_tokens m"
  "num_cached_tokens (enter_state d ts m) = num_cached_tokens m" "retry_count (enter_state d ts m) = retry_count m"
  "max_retries (enter_state d ts m) = max_retries m" "preemption_count (enter_state d ts m) = preemption_count m"
  "swap_count (enter_state d ts m) = swap_count m" "sequence_epoch (enter_state d ts m) = sequence_epoch m"
  "machine_id (enter_state d ts m) = machine_id m"
  by (simp_all add: enter_state_def)

lemma count_edge_simps [simp]:
  "mstate (count_edge d m) = mstate m" "timing (count_edge d m) = timing m" "history (count_edge d m) = history m"
  "history_size (count_edge d m) = history_size m" "num_prompt_tokens (count_edge d m) = num_prompt_tokens m"
  "max_retries (count_edge d m) = max_retries m" "sequence_epoch (count_edge d m) = sequence_epoch m"
  "num_computed_tokens (count_edge d m) = (if d = PREEMPTED then 0 else num_computed_tokens m)"
  "num_cached_tokens (count_edge d m) = (if d = PREEMPTED then 0 else num_cached_tokens m)"
  "retry_count (count_edge d m) = retry_count m + (if d = RETRYING then 1 else 0)"
  "preemption_count (count_edge d m) = preemption_count m + (if d = PREEMPTED then 1 else 0)"
  "swap_count (count_edge d m) = swap_count m + (if d = SWAPPED then 1 else 0)"
  "machine_id (count_edge d m) = machine_id m"
  by (simp_all add: count_edge_def)

lemma new_epoch_simps [simp]:
  "tokens_ok (m\<lparr>sequence_epoch := e\<rparr>) = tokens_ok m" "history_ok (m\<lparr>sequence_epoch := e\<rparr>) = history_ok m"
  "counts_ok (m\<lparr>sequence_epoch := e\<rparr>) = counts_ok m"
  by (simp_all add: tokens_ok_def history_ok_def counts_ok_def num_generated_tokens_def)

lemma transition_Inr:
  "transition d ts (m, ep) = (Inr s, m', ep') \<longleftrightarrow>
     is_legal (mstate m) d \<and> s = mstate m \<and>
     (let m1 = count_edge d (mark_latency d ts (enter_state d ts m)) in
        (m', ep') = (if new_incarnation d then (m1\<lparr>sequence_epoch := ep\<rparr>, ep + 1) else (m1, ep)))"
  by (auto simp: transition_def Let_def)

lemma transition_Inl: "transition d ts s = (Inl e, s') \<longleftrightarrow> \<not> is_legal (mstate (fst s)) d \<and> e = IllegalTransition \<and> s' = s"
  by (auto simp: transition_def Let_def split: prod.splits)

lemma history_after_append:
  assumes "history_ok m" "is_legal (mstate m) d" "history m' = deque_append (history_size m) (history m) (d, ts)"
    "history_size m' = history_size m" "mstate m' = d"
  shows "history_ok m'"
proof -
  let ?n = "history_size m" and ?h = "history m"
  have len: "length (deque_append ?n ?h (d, ts)) \<le> ?n" by (simp add: deque_append_def)
  have edge: "is_legal (fst ((?h @ [(d, ts)]) ! i)) (fst ((?h @ [(d, ts)]) ! Suc i))" if "Suc i < Suc (length ?h)" "0 < ?n" for i
  proof (cases "Suc i = length ?h")
    case True
    then have "(?h @ [(d, ts)]) ! i = last ?h" by (cases ?h rule: rev_cases) (auto simp: nth_append)
    with True that assms(1,2) show ?thesis by (auto simp: history_ok_def nth_append)
  next
    case False
    with that assms(1) show ?thesis by (auto simp: history_ok_def nth_append)
  qed
  have "is_legal (fst (deque_append ?n ?h (d, ts) ! i)) (fst (deque_append ?n ?h (d, ts) ! Suc i))"
    if "Suc i < length (deque_append ?n ?h (d, ts))" for i
  proof -
    have nth: "deque_append ?n ?h (d, ts) ! j = (?h @ [(d, ts)]) ! (length ?h + 1 - ?n + j)" for j
      unfolding deque_append_def by (rule nth_drop) simp
    from that len have "Suc (length ?h + 1 - ?n + i) < Suc (length ?h)" "0 < ?n" by (auto simp: deque_append_def)
    from edge [OF this] show ?thesis by (simp only: nth add_Suc_right)
  qed
  moreover have "deque_append ?n ?h (d, ts) \<noteq> [] \<and> fst (last (deque_append ?n ?h (d, ts))) = d" if "0 < ?n"
    using that assms(1) by (auto simp: deque_append_def history_ok_def last_drop)
  ultimately show ?thesis using len assms by (simp add: history_ok_def)
qed

lemma transition_inv:
  assumes inv: "machine_inv (m, ep)" and ok: "d = RETRYING \<Longrightarrow> retry_count m < max_retries m"
  shows "machine_inv (snd (transition d ts (m, ep)))"
proof (cases "is_legal (mstate m) d")
  case True
  let ?m = "count_edge d (mark_latency d ts (enter_state d ts m))"
  from inv have parts: "sequence_epoch m < ep" "timing_ok (timing m)" "tokens_ok m" "history_ok m" "counts_ok m"
    by (simp_all add: machine_inv_def)
  have h: "history_ok m'" if "history m' = history ?m" "history_size m' = history_size ?m" "mstate m' = d" for m'
    using that by (intro history_after_append [OF parts(4) True]) simp_all
  have t: "tokens_ok ?m"
    using parts(3) True legal_into_early [of "mstate m"] by (auto simp: tokens_ok_def num_generated_tokens_def)
  have c: "counts_ok ?m" using parts(5) ok by (auto simp: counts_ok_def)
  from True t c show ?thesis using parts h [of ?m]
    by (simp add: transition_def machine_inv_def Let_def)
next
  case False
  with inv show ?thesis by (simp add: transition_def)
qed

lemma transition_facts:
  "fst (snd (transition d ts (m, ep))) = m' \<Longrightarrow> num_prompt_tokens m' = num_prompt_tokens m"
  "fst (snd (transition d ts (m, ep))) = m' \<Longrightarrow> num_output_tokens (timing m') = num_output_tokens (timing m)"
  "fst (transition d ts (m, ep)) = Inr x \<Longrightarrow> mstate (fst (snd (transition d ts (m, ep)))) = d"
  by (auto simp: transition_def Let_def split: if_splits)

lemma keeps_transition [effect_intros]: "d \<noteq> RETRYING \<Longrightarrow> keeps machine_inv (discard (transition d ts))"
  by (rule keepsI) (auto intro: transition_inv)

lemma read_only_guard [effect_intros]: "read_only (guard c e)"
  by (simp add: guard_def read_only_base)

text \<open>Writes to a machine that keep its invariant.\<close>

lemma other_fields [simp]:
  "history_ok (m\<lparr>cancel_requested := b\<rparr>) = history_ok m" "history_ok (m\<lparr>failure_reason := r\<rparr>) = history_ok m"
  "history_ok (m\<lparr>timing := t\<rparr>) = history_ok m" "history_ok (m\<lparr>num_computed_tokens := n\<rparr>) = history_ok m"
  "history_ok (m\<lparr>num_cached_tokens := n\<rparr>) = history_ok m" "history_ok (m\<lparr>num_prompt_tokens := n\<rparr>) = history_ok m"
  "counts_ok (m\<lparr>cancel_requested := b\<rparr>) = counts_ok m" "counts_ok (m\<lparr>failure_reason := r\<rparr>) = counts_ok m"
  "counts_ok (m\<lparr>timing := t\<rparr>) = counts_ok m" "counts_ok (m\<lparr>num_computed_tokens := n\<rparr>) = counts_ok m"
  "counts_ok (m\<lparr>num_cached_tokens := n\<rparr>) = counts_ok m" "counts_ok (m\<lparr>num_prompt_tokens := n\<rparr>) = counts_ok m"
  "tokens_ok (m\<lparr>cancel_requested := b\<rparr>) = tokens_ok m" "tokens_ok (m\<lparr>failure_reason := r\<rparr>) = tokens_ok m"
  by (simp_all add: history_ok_def counts_ok_def tokens_ok_def num_generated_tokens_def)

lemma num_output_streamed [simp]: "num_output_tokens (mark_streamed ts t) = num_output_tokens t"
  by (simp add: mark_streamed_def)

lemma machine_inv_flags:
  "machine_inv (m, ep) \<Longrightarrow> machine_inv (m\<lparr>cancel_requested := b\<rparr>, ep)"
  "machine_inv (m, ep) \<Longrightarrow> machine_inv (m\<lparr>failure_reason := r\<rparr>, ep)"
  by (simp_all add: machine_inv_def)

lemma machine_inv_streamed: "machine_inv (m, ep) \<Longrightarrow> machine_inv (m\<lparr>timing := mark_streamed ts (timing m)\<rparr>, ep)"
  by (simp add: machine_inv_def timing_ok_streamed tokens_ok_def num_generated_tokens_def)

lemma machine_inv_progress:
  assumes "machine_inv (m, ep)" "mstate m \<notin> set [CREATED, VALIDATING, TOKENIZING]"
    "n \<le> num_prompt_tokens m + num_generated_tokens m"
  shows "num_cached_tokens m \<le> n \<Longrightarrow> machine_inv (m\<lparr>num_computed_tokens := n\<rparr>, ep)"
    and "0 \<le> n \<Longrightarrow> machine_inv (m\<lparr>num_cached_tokens := n, num_computed_tokens := n\<rparr>, ep)"
  using assms by (simp_all add: machine_inv_def tokens_ok_def num_generated_tokens_def)

lemma machine_inv_prompt:
  "machine_inv (m, ep) \<Longrightarrow> num_computed_tokens m \<le> n + num_generated_tokens m \<Longrightarrow> 0 \<le> n \<Longrightarrow>
     machine_inv (m\<lparr>num_prompt_tokens := n\<rparr>, ep)"
  by (simp add: machine_inv_def tokens_ok_def num_generated_tokens_def)

lemma machine_inv_count:
  "machine_inv (m, ep) \<Longrightarrow> mstate m \<in> set [DECODING, STREAMING] \<Longrightarrow> 0 \<le> c \<Longrightarrow> machine_inv (count_token c m, ep)"
  by (auto simp: machine_inv_def count_token_def tokens_ok_def num_generated_tokens_def)

lemma run_guard [simp]: "andthen (guard c e) f (m, ep) = (if c m then f () (m, ep) else (Inl e, m, ep))"
  by (simp add: andthen_def guard_def require_def)

lemma run_require_int [simp]: "andthen (reads (\<lambda>_. require_int v l)) f s = (if l \<le> v then f () s else (Inl ValueError, s))"
  by (simp add: andthen_def require_int_def require_def)

lemma run_on_machine [simp]: "on_machine f (m, ep) = (Inr (), f m, ep)"
  by (simp add: on_machine_def)

text \<open>A guarded transition followed by a write, on its success branch.\<close>

lemma after_transition:
  assumes inv: "machine_inv (m, ep)" and "d \<noteq> RETRYING"
    and f: "\<And>m' ep'. machine_inv (m', ep') \<Longrightarrow> mstate m' = d \<Longrightarrow> num_prompt_tokens m' = num_prompt_tokens m \<Longrightarrow>
      num_generated_tokens m' = num_generated_tokens m \<Longrightarrow>
      num_computed_tokens m' \<in> {0, num_computed_tokens m} \<Longrightarrow> is_legal (mstate m) d \<Longrightarrow> machine_inv (f m', ep')"
  shows "machine_inv (snd (andthen (transition d ts) (\<lambda>_. on_machine f) (m, ep)))"
proof -
  obtain r m' ep' where run: "transition d ts (m, ep) = (r, m', ep')" by (metis surj_pair)
  show ?thesis
  proof (cases r)
    case (Inl e)
    with run have "(m', ep') = (m, ep)" by (simp add: transition_Inl)
    with run Inl inv show ?thesis by (simp add: andthen_def)
  next
    case (Inr x)
    with run have run: "transition d ts (m, ep) = (Inr x, m', ep')" by simp
    have "machine_inv (m', ep')" using transition_inv [OF inv, of d ts] run assms(2) by simp
    then have "machine_inv (f m', ep')"
      using run by (intro f) (auto simp: transition_Inr Let_def num_generated_tokens_def split: if_splits)
    with run show ?thesis by (simp add: andthen_def)
  qed
qed

lemma on_tokenized_inv:
  assumes "machine_inv (m, ep)" "machine_legal (M_Tokenized n, ts) (m, ep)"
  shows "machine_inv (snd (on_tokenized n ts (m, ep)))"
proof (cases "1 \<le> n")
  case True
  have "machine_inv (snd (andthen (transition CACHE_LOOKUP ts) (\<lambda>_. on_machine (\<lambda>m. m\<lparr>num_prompt_tokens := n\<rparr>)) (m, ep)))"
    using assms True
    by (intro after_transition machine_inv_prompt) (auto simp: machine_inv_def tokens_ok_def)
  with True show ?thesis by (simp add: on_tokenized_def)
next
  case False
  with assms show ?thesis by (simp add: on_tokenized_def)
qed

lemma on_cache_looked_up_inv:
  assumes "machine_inv (m, ep)"
  shows "machine_inv (snd (on_cache_looked_up n ts (m, ep)))"
proof (cases "0 \<le> n \<and> n \<le> num_prompt_tokens m + num_generated_tokens m")
  case True
  have "machine_inv (snd (andthen (transition WAITING ts)
      (\<lambda>_. on_machine (\<lambda>m. m\<lparr>num_cached_tokens := n, num_computed_tokens := n\<rparr>)) (m, ep)))"
    using assms True by (intro after_transition machine_inv_progress(2)) auto
  with True show ?thesis by (simp add: on_cache_looked_up_def)
next
  case False
  with assms show ?thesis
    by (auto simp: on_cache_looked_up_def)
qed

lemma commit_range_cases:
  obtains (fail) e where "commit_range q n (m, ep) = (Inl e, m, ep)"
  | (ok) "commit_range q n (m, ep) = (Inr (), m\<lparr>num_computed_tokens := q + n\<rparr>, ep)" "0 \<le> q" "1 \<le> n"
      "mstate m \<in> set [PREFILL, DECODING, STREAMING]" "q = num_computed_tokens m"
      "q + n \<le> num_prompt_tokens m + num_generated_tokens m"
  proof (cases "0 \<le> q \<and> 1 \<le> n \<and> mstate m \<in> set [PREFILL, DECODING, STREAMING] \<and> q = num_computed_tokens m \<and>
    q + n \<le> num_prompt_tokens m + num_generated_tokens m")
  case True
  with ok show thesis by (auto simp: commit_range_def)
next
  case False
  then have "commit_range q n (m, ep) = (Inl ValueError, m, ep)" by (auto simp: commit_range_def)
  then show thesis by (rule fail)
qed

lemma commit_range_inv: "machine_inv (m, ep) \<Longrightarrow> machine_inv (snd (commit_range q n (m, ep)))"
proof (cases rule: commit_range_cases [of q n m ep])
  case ok
  moreover assume "machine_inv (m, ep)"
  moreover from this have "num_cached_tokens m \<le> num_computed_tokens m" by (simp add: machine_inv_def tokens_ok_def)
  ultimately show ?thesis using machine_inv_progress(1) [of m ep "q + n"] by auto
qed simp

lemma on_prefill_chunk_inv: "machine_inv (m, ep) \<Longrightarrow> machine_inv (snd (on_prefill_chunk n (m, ep)))"
  by (simp add: on_prefill_chunk_def commit_range_inv)

lemma on_token_generated_cases:
  obtains (fail) e where "on_token_generated c (m, ep) = (Inl e, m, ep)"
  | (none) "c = 0" "on_token_generated c (m, ep) = (Inr (), m, ep)"
  | (ok) "c = 1" "on_token_generated c (m, ep) = (Inr (), count_token 1 m, ep)" "mstate m \<in> set [DECODING, STREAMING]"
      "num_computed_tokens m = num_prompt_tokens m + num_generated_tokens m"
  proof -
  consider "c = 0" | "c < 0 \<or> 1 < c" | "c = 1" by linarith
  then show thesis
  proof cases
    case 1
    with none show thesis by (simp add: on_token_generated_def)
  next
    case 2
    then have "on_token_generated c (m, ep) = (Inl ValueError, m, ep)" by (auto simp: on_token_generated_def)
    then show thesis by (rule fail)
  next
    case 3
    show thesis
    proof (cases "mstate m \<in> set [DECODING, STREAMING] \<and> num_computed_tokens m = num_prompt_tokens m + num_generated_tokens m")
      case True
      with 3 ok show thesis by (auto simp: on_token_generated_def)
    next
      case False
      with 3 have "\<exists>e. on_token_generated c (m, ep) = (Inl e, m, ep)" by (auto simp: on_token_generated_def)
      with fail show thesis by blast
    qed
  qed
qed

lemma on_token_generated_inv: "machine_inv (m, ep) \<Longrightarrow> machine_inv (snd (on_token_generated c (m, ep)))"
  by (cases rule: on_token_generated_cases [of c m ep]) (auto intro!: machine_inv_count)

lemma keepsD_pair: "keeps machine_inv x \<Longrightarrow> machine_inv (m, ep) \<Longrightarrow> machine_inv (snd (x (m, ep)))"
  by (rule keepsD)

lemma on_error_inv:
  assumes "machine_inv (m, ep)"
  shows "machine_inv (snd (on_error reason ts (m, ep)))"
proof -
  have fin: "snd (andthen x (\<lambda>_. ret y) s) = snd (x s)" for x :: "(machine_state, 'a) py" and y :: bool and s
    by (auto simp: andthen_def split: prod.splits sum.splits)
  have "machine_inv (snd (on_failed r ts (m, ep)))" for r
    using assms by (auto simp: on_failed_def Let_def intro!: transition_inv machine_inv_flags)
  moreover have "machine_inv (snd (transition RETRYING ts (m\<lparr>failure_reason := reason\<rparr>, ep)))"
    if "retry_count m < max_retries m"
    using assms that by (intro transition_inv machine_inv_flags) simp_all
  ultimately show ?thesis by (simp add: on_error_def fin)
qed

lemma machine_exec_inv:
  assumes inv: "machine_inv s" and legal: "machine_legal x s"
  shows "machine_inv (snd (machine_exec x s))"
proof -
  obtain m ep where s: "s = (m, ep)" by force
  obtain y ts where x: "x = (y, ts)" by force
  note defs = on_validating_def on_validated_def on_remote_kv_wait_def on_remote_kv_ready_def
    on_remote_kv_abandoned_def on_admitted_def on_prefill_started_def on_preempted_def on_requeued_def on_finished_def
  from inv s have inv': "machine_inv (m, ep)" by simp
  have mv: "machine_inv (snd (transition d ts (m, ep)))" if "d \<noteq> RETRYING" for d
    using inv' that by (intro transition_inv) simp_all
  have flagged: "machine_inv (snd (transition d ts (m\<lparr>cancel_requested := True\<rparr>, ep)))"
    "machine_inv (snd (transition d ts (m\<lparr>failure_reason := r\<rparr>, ep)))" if "d \<noteq> RETRYING" for d r
    using inv' that by (auto intro!: transition_inv machine_inv_flags)
  show ?thesis
  proof (cases y)
    case (M_Tokenized n)
    with legal s x inv' show ?thesis by (simp add: on_tokenized_inv)
  qed (use s x inv' in \<open>simp_all add: defs mv flagged on_decode_started_def on_cache_looked_up_inv commit_range_inv
        on_prefill_chunk_inv on_token_generated_inv mark_published_def machine_inv_streamed on_streamed_def
        on_cancelled_def on_failed_def Let_def machine_inv_flags on_error_inv\<close>)
qed

interpretation request_machine: guarded_system machine_exec machine_legal machine_inv
  by unfold_locales (rule machine_exec_inv)

lemma machine_init_inv: "0 \<le> retries \<Longrightarrow> machine_inv (RequestStateMachine_init rid t0 retries hs ep)"
  by (auto simp: RequestStateMachine_init_def machine_inv_def timing_ok_def RequestTiming_init_def tokens_ok_def
      num_generated_tokens_def history_ok_def counts_ok_def deque_append_def MAX_INTER_TOKEN_SAMPLES_def)

section \<open>One edge at a time\<close>

text \<open>What a call does to the state and the incarnation: nothing, or one edge of the table.\<close>

definition one_edge :: "machine_state \<Rightarrow> machine_state \<Rightarrow> bool" where
  "one_edge = (\<lambda>(m, ep) (m', ep').
     max_retries m' = max_retries m \<and> history_size m' = history_size m \<and> machine_id m' = machine_id m \<and>
     (if mstate m' = mstate m
      then sequence_epoch m' = sequence_epoch m \<and> ep' = ep \<and>
        (mstate m \<in> set [PREFILL, DECODING, STREAMING] \<or>
           num_computed_tokens m' = num_computed_tokens m \<and> num_generated_tokens m' = num_generated_tokens m)
      else is_legal (mstate m) (mstate m') \<and>
        (sequence_epoch m', ep') = (if new_incarnation (mstate m') then (ep, ep + 1) else (sequence_epoch m, ep))))"

lemma not_legal_self: "\<not> is_legal s s"
  by (cases s) (simp_all add: is_legal_def legal_targets_def TERMINAL_STATES_def)

lemma one_edge_refl [simp]: "one_edge s s"
  by (simp add: one_edge_def split: prod.splits)

lemma mark_latency_rest [simp]:
  "cancel_requested (mark_latency d ts m) = cancel_requested m" "failure_reason (mark_latency d ts m) = failure_reason m"
  by (simp_all add: mark_latency_def Let_def)

lemma one_edge_transition: "one_edge (m, ep) (snd (transition d ts (m, ep)))"
  by (auto simp: one_edge_def transition_def Let_def not_legal_self num_generated_tokens_def)

text \<open>Writes around the edge that leave the state and the incarnation alone.\<close>

definition same_stage :: "RequestStateMachine \<Rightarrow> RequestStateMachine \<Rightarrow> bool" where
  "same_stage m m' \<longleftrightarrow>
     mstate m' = mstate m \<and> sequence_epoch m' = sequence_epoch m \<and> max_retries m' = max_retries m \<and>
     history_size m' = history_size m \<and> machine_id m' = machine_id m"

lemma one_edge_pre:
  "same_stage m0 m \<Longrightarrow> num_computed_tokens m = num_computed_tokens m0 \<Longrightarrow>
   num_generated_tokens m = num_generated_tokens m0 \<Longrightarrow> one_edge (m, ep) s \<Longrightarrow> one_edge (m0, ep) s"
  by (auto simp: one_edge_def same_stage_def split: if_splits prod.splits)

lemma one_edge_write:
  "same_stage m m' \<Longrightarrow> num_computed_tokens m' = num_computed_tokens m \<Longrightarrow>
   num_generated_tokens m' = num_generated_tokens m \<Longrightarrow> one_edge (m, ep) (m', ep)"
  by (auto simp: one_edge_def same_stage_def)

lemma one_edge_after:
  assumes "\<And>m'. same_stage m' (f m')"
  shows "one_edge (m, ep) (snd (andthen (transition d ts) (\<lambda>_. on_machine f) (m, ep)))"
proof (cases "is_legal (mstate m) d")
  case True
  with assms not_legal_self show ?thesis
    by (auto simp: andthen_def transition_def Let_def one_edge_def same_stage_def)
next
  case False
  then show ?thesis by (simp add: andthen_def transition_def)
qed

lemma one_edge_commit: "one_edge (m, ep) (snd (commit_range q n (m, ep)))"
  by (cases rule: commit_range_cases [of q n m ep]) (auto simp: one_edge_def)

lemma one_edge_token: "one_edge (m, ep) (snd (on_token_generated c (m, ep)))"
  by (cases rule: on_token_generated_cases [of c m ep]) (auto simp: one_edge_def count_token_def)

lemma one_edge_failed: "one_edge (m, ep) (snd (on_failed r ts (m, ep)))"
  by (auto simp: on_failed_def Let_def same_stage_def num_generated_tokens_def
      intro!: one_edge_write one_edge_pre [OF _ _ _ one_edge_transition])

lemma one_edge_error: "one_edge (m, ep) (snd (on_error r ts (m, ep)))"
proof -
  have fin: "snd (andthen x (\<lambda>_. ret y) s) = snd (x s)" for x :: "(machine_state, 'a) py" and y :: bool and s
    by (auto simp: andthen_def split: prod.splits sum.splits)
  have "one_edge (m, ep) (snd (transition RETRYING ts (m\<lparr>failure_reason := r\<rparr>, ep)))"
    by (rule one_edge_pre [OF _ _ _ one_edge_transition]) (simp_all add: same_stage_def num_generated_tokens_def)
  then show ?thesis by (simp add: on_error_def fin one_edge_failed)
qed

lemma one_edge_exec: "one_edge (m, ep) (snd (machine_exec (y, ts) (m, ep)))"
proof (cases y)
  case (M_Tokenized n)
  then show ?thesis
    by (simp add: on_tokenized_def one_edge_after same_stage_def)
next
  case (M_Cache_Looked_Up n)
  then show ?thesis by (simp add: on_cache_looked_up_def one_edge_after same_stage_def)
next
  case M_Cancelled
  then show ?thesis
    by (auto simp: on_cancelled_def Let_def same_stage_def num_generated_tokens_def
        intro!: one_edge_write one_edge_pre [OF _ _ _ one_edge_transition])
qed (simp_all add: on_validating_def on_validated_def on_remote_kv_wait_def on_remote_kv_ready_def
    on_remote_kv_abandoned_def on_admitted_def on_prefill_started_def on_preempted_def on_requeued_def on_finished_def
    one_edge_transition one_edge_commit one_edge_token one_edge_failed one_edge_error on_prefill_chunk_def
    on_decode_started_def on_streamed_def mark_published_def one_edge_write same_stage_def num_generated_tokens_def)

lemma run_one_edge:
  "max_retries (fst (run_ops machine_exec xs s)) = max_retries (fst s) \<and>
   history_size (fst (run_ops machine_exec xs s)) = history_size (fst s)"
proof (induction xs arbitrary: s)
  case (Cons x xs)
  obtain y ts m ep where "x = (y, ts)" "s = (m, ep)" by (metis surj_pair)
  with Cons one_edge_exec [of m ep y ts] show ?case by (auto simp: one_edge_def split: prod.splits)
qed simp

section \<open>Properties\<close>

lemma short_prompt_accepted:
  assumes "\<not> machine_legal (M_Tokenized n, ts) (m, ep)"
  shows "\<exists>m'. machine_exec (M_Tokenized n, ts) (m, ep) = (Inr (), m', ep) \<and>
    num_prompt_tokens m' + num_generated_tokens m' < num_computed_tokens m'"
proof -
  have ok: "1 \<le> n" "is_legal (mstate m) CACHE_LOOKUP" "n + num_generated_tokens m < num_computed_tokens m"
    using assms by auto
  let ?m = "count_edge CACHE_LOOKUP (mark_latency CACHE_LOOKUP ts (enter_state CACHE_LOOKUP ts m))"
  have "transition CACHE_LOOKUP ts (m, ep) = (Inr (mstate m), ?m, ep)"
    using ok(2) by (simp add: transition_def new_incarnation_def Let_def)
  then have "machine_exec (M_Tokenized n, ts) (m, ep) = (Inr (), ?m\<lparr>num_prompt_tokens := n\<rparr>, ep)"
    using ok(1) by (simp add: on_tokenized_def) (simp add: andthen_def)
  moreover have "num_generated_tokens ?m = num_generated_tokens m" "num_computed_tokens ?m = num_computed_tokens m"
    by (simp_all add: count_edge_def mark_latency_def enter_state_def num_generated_tokens_def TERMINAL_STATES_def)
  ultimately show ?thesis using ok(3) by (simp add: num_generated_tokens_def)
qed

text \<open>
  C30. The counters of a request stay in range, whatever calls are made on it, as long as
  \<open>on_tokenized\<close> does not report a prompt shorter than the progress already made: retries
  never exceed the budget, cached progress never exceeds computed progress, which never
  exceeds the known tokens; the history is a bounded path of the transition table that
  ends in the current state; and the latency samples are bounded in number, non-negative
  and add up to at most the time between the first and the last token.  The proviso is
  exact: a call of \<open>on_tokenized\<close> that violates it goes through and leaves more computed
  than known tokens.
\<close>

theorem machine_counters_bounded:
  assumes "0 \<le> retries" and "legal_run machine_exec machine_legal xs (RequestStateMachine_init rid t0 retries hs ep0)"
    and "run_ops machine_exec xs (RequestStateMachine_init rid t0 retries hs ep0) = (m, ep)"
  shows "0 \<le> retry_count m \<and> retry_count m \<le> retries \<and>
    0 \<le> num_cached_tokens m \<and> num_cached_tokens m \<le> num_computed_tokens m \<and>
    num_computed_tokens m \<le> num_prompt_tokens m + num_generated_tokens m \<and>
    length (history m) \<le> hs \<and> (0 < hs \<longrightarrow> fst (last (history m)) = mstate m) \<and>
    (\<forall>i. Suc i < length (history m) \<longrightarrow> is_legal (fst (history m ! i)) (fst (history m ! Suc i))) \<and>
    length (inter_token_intervals_ns (timing m)) \<le> 512 \<and>
    (\<forall>x\<in>set (inter_token_intervals_ns (timing m)). 0 \<le> x) \<and>
    sum_list (inter_token_intervals_ns (timing m)) \<le> last_token_ns (timing m) - first_token_ns (timing m) \<and>
    (\<forall>n ts. \<not> machine_legal (M_Tokenized n, ts) (m, ep) \<longrightarrow>
       (\<exists>m'. machine_exec (M_Tokenized n, ts) (m, ep) = (Inr (), m', ep) \<and>
          num_prompt_tokens m' + num_generated_tokens m' < num_computed_tokens m'))"
proof -
  let ?s = "RequestStateMachine_init rid t0 retries hs ep0"
  have "machine_inv (run_ops machine_exec xs ?s)"
    by (rule request_machine.run_inv [OF machine_init_inv [OF assms(1)] assms(2)])
  then have parts: "timing_ok (timing m)" "tokens_ok m" "history_ok m" "counts_ok m"
    by (simp_all add: assms(3) machine_inv_def)
  moreover have "max_retries m = retries" "history_size m = hs"
    using run_one_edge [of xs ?s] unfolding assms(3) by (simp_all add: RequestStateMachine_init_def)
  moreover have "\<forall>n ts. \<not> machine_legal (M_Tokenized n, ts) (m, ep) \<longrightarrow>
       (\<exists>m'. machine_exec (M_Tokenized n, ts) (m, ep) = (Inr (), m', ep) \<and>
          num_prompt_tokens m' + num_generated_tokens m' < num_computed_tokens m')"
    using short_prompt_accepted by blast
  ultimately show ?thesis using assms(1)
    by (simp add: tokens_ok_def history_ok_def counts_ok_def timing_ok_def MAX_INTER_TOKEN_SAMPLES_def split: if_splits)
qed

definition sample_machine :: machine_state where
  "sample_machine = RequestStateMachine_init ''r'' 5 1 4 7"

definition sample_calls :: "(machine_op \<times> int) list" where
  "sample_calls =
     [(M_Validating, 6), (M_Validated, 7), (M_Tokenized 2, 8), (M_Cache_Looked_Up 1, 9), (M_Admitted, 10),
      (M_Prefill_Started, 11), (M_Prefill_Chunk 1, 12), (M_Decode_Started, 13), (M_Token_Generated 1, 14),
      (M_Published, 15), (M_Commit_Range 2 1, 16), (M_Token_Generated 1, 17), (M_Published, 19), (M_Error ''nccl'', 20),
      (M_Error ''nccl'', 21)]"

text \<open>A request that fails after its prefill and is then tokenized again, to a shorter prompt.\<close>

definition retried_calls :: "(machine_op \<times> int) list" where
  "retried_calls =
     [(M_Validating, 6), (M_Validated, 7), (M_Tokenized 6, 8), (M_Cache_Looked_Up 0, 9), (M_Admitted, 10),
      (M_Prefill_Started, 11), (M_Prefill_Chunk 6, 12), (M_Error ''nccl'', 13)]"

theorem machine_counters_bounded_witness:
  "(\<exists>m ep. run_ops machine_exec sample_calls sample_machine = (m, ep) \<and> retry_count m \<le> 1 \<and>
     mstate m = FAILED \<and> num_computed_tokens m = 3 \<and> inter_token_intervals_ns (timing m) = [4]) \<and>
   (\<exists>m ep m'. run_ops machine_exec retried_calls sample_machine = (m, ep) \<and>
     num_computed_tokens m \<le> num_prompt_tokens m + num_generated_tokens m \<and>
     machine_exec (M_Tokenized 1, 14) (m, ep) = (Inr (), m', ep) \<and>
     num_prompt_tokens m' + num_generated_tokens m' < num_computed_tokens m')"
proof
  obtain m ep where run: "run_ops machine_exec sample_calls sample_machine = (m, ep)" by force
  have "legal_run machine_exec machine_legal sample_calls sample_machine" by code_simp
  then have "retry_count m \<le> 1"
    using machine_counters_bounded [of 1 sample_calls "''r''" 5 4 7 m ep] run by (simp add: sample_machine_def)
  moreover have "(\<lambda>(m, ep). (mstate m, num_computed_tokens m, inter_token_intervals_ns (timing m)))
      (run_ops machine_exec sample_calls sample_machine) = (FAILED, 3, [4])" by code_simp
  ultimately show "\<exists>m ep. run_ops machine_exec sample_calls sample_machine = (m, ep) \<and> retry_count m \<le> 1 \<and>
     mstate m = FAILED \<and> num_computed_tokens m = 3 \<and> inter_token_intervals_ns (timing m) = [4]" using run by auto
next
  obtain m ep where run: "run_ops machine_exec retried_calls sample_machine = (m, ep)" by force
  have legal: "legal_run machine_exec machine_legal retried_calls sample_machine" by code_simp
  have "\<not> machine_legal (M_Tokenized 1, 14) (run_ops machine_exec retried_calls sample_machine)" by code_simp
  then have "\<not> machine_legal (M_Tokenized 1, 14) (m, ep)" unfolding run .
  with machine_counters_bounded [of 1 retried_calls "''r''" 5 4 7 m ep] legal run
  show "\<exists>m ep m'. run_ops machine_exec retried_calls sample_machine = (m, ep) \<and>
     num_computed_tokens m \<le> num_prompt_tokens m + num_generated_tokens m \<and>
     machine_exec (M_Tokenized 1, 14) (m, ep) = (Inr (), m', ep) \<and>
     num_prompt_tokens m' + num_generated_tokens m' < num_computed_tokens m'"
    unfolding sample_machine_def by (metis zero_le_one)
qed

text \<open>
  C32. KV ownership follows the state.  A call makes a request a holder of KV blocks only
  by admitting it.  A call that makes a holder stop holding them either finishes the
  request or moves it to a new incarnation, whose epoch no request of the process has had
  before, so that late results for the old one can be told apart.  Epochs never go back.
\<close>

theorem kv_ownership_edges:
  assumes "sequence_epoch m < ep" and "snd (machine_exec x (m, ep)) = (m', ep')"
  shows "(holds_kv m' \<and> \<not> holds_kv m \<longrightarrow> mstate m' = ADMITTED) \<and>
    (holds_kv m \<and> \<not> holds_kv m' \<longrightarrow> mstate m' = FINISHED \<or> sequence_epoch m' = ep \<and> ep' = ep + 1) \<and>
    sequence_epoch m \<le> sequence_epoch m' \<and> sequence_epoch m' < ep'"
proof -
  obtain y ts where x: "x = (y, ts)" by force
  have into: "is_legal s d \<Longrightarrow> d \<in> set RUNNING_STATES \<Longrightarrow> s \<notin> set RUNNING_STATES \<Longrightarrow> d = ADMITTED" for s d
    by (cases s; cases d; simp add: is_legal_def legal_targets_def state_sets)
  have out: "is_legal s d \<Longrightarrow> s \<in> set RUNNING_STATES \<Longrightarrow> d \<notin> set RUNNING_STATES \<Longrightarrow> d = FINISHED \<or> new_incarnation d" for s d
    by (cases s; cases d; simp add: is_legal_def legal_targets_def state_sets new_incarnation_def)
  have "one_edge (m, ep) (m', ep')" using one_edge_exec [of m ep y ts] assms(2) x by simp
  then show ?thesis
    using assms(1) into [of "mstate m" "mstate m'"] out [of "mstate m" "mstate m'"]
    by (auto simp: one_edge_def holds_kv_def split: if_splits)
qed

theorem kv_ownership_edges_witness:
  "\<exists>m ep m' ep'. run_ops machine_exec (take 6 sample_calls) sample_machine = (m, ep) \<and> holds_kv m \<and>
     snd (machine_exec (M_Preempted False, 20) (m, ep)) = (m', ep') \<and> \<not> holds_kv m' \<and> sequence_epoch m' = ep"
proof -
  obtain m ep where run: "run_ops machine_exec (take 6 sample_calls) sample_machine = (m, ep)" by force
  obtain m' ep' where step: "snd (machine_exec (M_Preempted False, 20) (m, ep)) = (m', ep')" by force
  have "(\<lambda>(m, ep). sequence_epoch m < ep \<and> holds_kv m \<and>
      (let m' = fst (snd (machine_exec (M_Preempted False, 20) (m, ep))) in \<not> holds_kv m' \<and> mstate m' \<noteq> FINISHED))
      (run_ops machine_exec (take 6 sample_calls) sample_machine)" by code_simp
  then have "sequence_epoch m < ep" "holds_kv m" "\<not> holds_kv m'" "mstate m' \<noteq> FINISHED"
    by (simp_all add: run step Let_def del: machine_exec.simps)
  with kv_ownership_edges [OF this(1) step] run step show ?thesis by blast
qed

text \<open>
  C31. A terminal request stays as it ended: no sequence of calls changes its state, its
  incarnation or its token counts, and a late cancellation or failure report is accepted
  without an error.
\<close>

theorem terminal_request_is_final:
  assumes "is_terminal m" and "run_ops machine_exec xs (m, ep) = (m', ep')"
  shows "mstate m' = mstate m \<and> sequence_epoch m' = sequence_epoch m \<and> ep' = ep \<and>
    num_computed_tokens m' = num_computed_tokens m \<and> num_generated_tokens m' = num_generated_tokens m \<and>
    fst (on_cancelled ts (m', ep')) = Inr () \<and> fst (on_failed r ts (m', ep')) = Inr ()"
  using assms
proof (induction xs arbitrary: m ep)
  case Nil
  then show ?case by (simp add: on_cancelled_def on_failed_def is_terminal_def)
next
  case (Cons x xs)
  obtain y t where x: "x = (y, t)" by force
  obtain m1 ep1 where step: "snd (machine_exec x (m, ep)) = (m1, ep1)" by force
  with x have "one_edge (m, ep) (m1, ep1)" using one_edge_exec [of m ep y t] by simp
  with Cons.prems(1) have same: "mstate m1 = mstate m" "sequence_epoch m1 = sequence_epoch m" "ep1 = ep"
    "num_computed_tokens m1 = num_computed_tokens m" "num_generated_tokens m1 = num_generated_tokens m"
    by (auto simp: one_edge_def is_terminal_def not_legal_from_terminal TERMINAL_STATES_def split: if_splits)
  from same(1) Cons.prems(1) have "is_terminal m1" by (simp add: is_terminal_def)
  moreover from Cons.prems(2) step have "run_ops machine_exec xs (m1, ep1) = (m', ep')" by simp
  ultimately show ?case using Cons.IH [of m1 ep1] unfolding same by blast
qed

theorem terminal_request_is_final_witness:
  "\<exists>m ep m' ep'. run_ops machine_exec sample_calls sample_machine = (m, ep) \<and>
     run_ops machine_exec [(M_Cancelled, 30), (M_Admitted, 31), (M_Token_Generated 1, 32)] (m, ep) = (m', ep') \<and>
     mstate m' = FAILED"
proof -
  obtain m ep where run: "run_ops machine_exec sample_calls sample_machine = (m, ep)" by force
  obtain m' ep' where more:
    "run_ops machine_exec [(M_Cancelled, 30), (M_Admitted, 31), (M_Token_Generated 1, 32)] (m, ep) = (m', ep')" by force
  have "(\<lambda>(m, ep). is_terminal m \<and> mstate m = FAILED) (run_ops machine_exec sample_calls sample_machine)" by code_simp
  with run have "is_terminal m" "mstate m = FAILED" by simp_all
  with terminal_request_is_final [OF this(1) more] run more show ?thesis by metis
qed

end
