(* ===== verification/Step_Plan.thy ===== *)
theory Step_Plan
  imports Sequence_Arena
begin

text \<open>
  The step contracts of \<open>sched/plan.py\<close> and \<open>speculative/plan.py\<close>: the scheduled slice of a
  request, the input snapshot it is checked against, the draft rows that may extend a
  decode slice, and the batch plan of one iteration with its validation and the row
  layout derived from it.  Token ids, positions and row numbers are Python integers.  The
  plan of memory, communication and weight residency that a batch plan carries along is not
  read here and is left out, and so is the type test of every field, which typing discharges.
\<close>

section \<open>Slices and input snapshots\<close>

datatype Phase = PhasePrefill | PhaseDecode

record ScheduledSlice =
  sl_request_id :: string
  sl_epoch :: int
  expected_state_version :: int
  query_start :: int
  query_count :: int
  phase :: Phase
  sample_last_query :: bool

definition slice_validate :: "ScheduledSlice \<Rightarrow> pyerror + unit" where
  "slice_validate s =
     ebind (require_text (sl_request_id s)) (\<lambda>_.
     ebind (require_int (sl_epoch s) 1) (\<lambda>_.
     ebind (require_int (expected_state_version s) 0) (\<lambda>_.
     ebind (require_int (query_start s) 0) (\<lambda>_.
     ebind (require_int (query_count s) 1) (\<lambda>_.
     require (\<not> (phase s = PhaseDecode \<and> query_count s \<noteq> 1)) ValueError)))))"

definition query_end :: "ScheduledSlice \<Rightarrow> int" where
  "query_end s = query_start s + query_count s"

record RequestStepInput =
  in_request_id :: string
  in_sequence :: SequenceHandle
  in_epoch :: int
  in_version :: int
  in_prompt :: int
  in_known :: "int list"
  in_computed :: int
  in_max_output :: int

definition input_validate :: "RequestStepInput \<Rightarrow> pyerror + unit" where
  "input_validate v =
     ebind (require_text (in_request_id v)) (\<lambda>_.
     ebind (require_int (in_epoch v) 1) (\<lambda>_.
     ebind (require_int (in_version v) 0) (\<lambda>_.
     ebind (require_int (in_prompt v) 1) (\<lambda>_.
     ebind (require_int (in_computed v) 0) (\<lambda>_.
     ebind (require_int (in_max_output v) 1) (\<lambda>_.
     ebind (traverse (\<lambda>t. require_int t 0) (in_known v)) (\<lambda>_.
     if \<not> (in_prompt v \<le> int (length (in_known v)) \<and> int (length (in_known v)) \<le> in_prompt v + in_max_output v)
     then Inl ValueError
     else require (in_computed v \<le> int (length (in_known v))) ValueError)))))))"

definition mk_step_input :: "RequestStepInput \<Rightarrow> pyerror + RequestStepInput" where
  "mk_step_input v = ebind (input_validate v) (\<lambda>_. Inr v)"

definition validate_slice :: "RequestStepInput \<Rightarrow> ScheduledSlice \<Rightarrow> pyerror + unit" where
  "validate_slice v s =
     (if sl_request_id s \<noteq> in_request_id v \<or> sl_epoch s \<noteq> in_epoch v \<or> expected_state_version s \<noteq> in_version v
      then Inl ValueError
      else if query_start s \<noteq> in_computed v then Inl ValueError
      else if query_end s > int (length (in_known v)) then Inl ValueError
      else if phase s = PhasePrefill \<and> (query_start s \<ge> in_prompt v \<or> query_end s > in_prompt v) then Inl ValueError
      else if phase s \<noteq> PhasePrefill \<and> query_start s < in_prompt v then Inl ValueError
      else if sample_last_query s \<and> query_end s \<noteq> int (length (in_known v)) then Inl ValueError
      else if sample_last_query s \<and> int (length (in_known v)) - in_prompt v \<ge> in_max_output v then Inl ValueError
      else Inr ())"

section \<open>Draft extensions\<close>

datatype SpeculativeMode = SpecNone | SpecAuto | NGRAM | DRAFT_MODEL | MTP | EAGLE3

definition MAX_DRAFT_TOKENS :: int where
  "MAX_DRAFT_TOKENS = 64"

record SpeculativeSlicePlan =
  sp_slice_index :: int
  sp_request_id :: string
  sp_mode :: SpeculativeMode
  requested_k :: int
  effective_k :: int
  draft_token_ids :: "int list"
  reserve_tokens :: int
  verify_tokens :: int
  graph_bucket :: "int option"

definition spec_validate :: "SpeculativeSlicePlan \<Rightarrow> pyerror + unit" where
  "spec_validate q =
     ebind (require_int (sp_slice_index q) 0) (\<lambda>_.
     ebind (require_text (sp_request_id q)) (\<lambda>_.
     if sp_mode q \<in> set [SpecNone, SpecAuto] then Inl ValueError
     else ebind (require_int (requested_k q) 1) (\<lambda>_.
     ebind (require_int (effective_k q) 1) (\<lambda>_.
     if effective_k q > requested_k q \<or> requested_k q > MAX_DRAFT_TOKENS then Inl ValueError
     else if int (length (draft_token_ids q)) \<noteq> effective_k q then Inl ValueError
     else ebind (traverse (\<lambda>t. require_int t 0) (draft_token_ids q)) (\<lambda>_.
     ebind (require_int (reserve_tokens q) 2) (\<lambda>_.
     ebind (require_int (verify_tokens q) 2) (\<lambda>_.
     if reserve_tokens q \<noteq> 1 + effective_k q then Inl ValueError
     else if verify_tokens q \<noteq> reserve_tokens q then Inl ValueError
     else (case graph_bucket q of None \<Rightarrow> Inr () | Some b \<Rightarrow> require_int b 1))))))))"

text \<open>\<open>replace\<close> constructs a new plan, which validates itself.\<close>

definition truncated :: "int \<Rightarrow> SpeculativeSlicePlan \<Rightarrow> pyerror + SpeculativeSlicePlan" where
  "truncated k q =
     (if \<not> (1 \<le> k \<and> k \<le> effective_k q) then Inl ValueError
      else let base = reserve_tokens q - effective_k q;
               q' = q\<lparr>effective_k := k, draft_token_ids := take (nat k) (draft_token_ids q),
                      reserve_tokens := base + k, verify_tokens := base + k\<rparr>
           in ebind (spec_validate q') (\<lambda>_. Inr q'))"

definition with_slice_index :: "int \<Rightarrow> SpeculativeSlicePlan \<Rightarrow> pyerror + SpeculativeSlicePlan" where
  "with_slice_index i q = (let q' = q\<lparr>sp_slice_index := i\<rparr> in ebind (spec_validate q') (\<lambda>_. Inr q'))"

section \<open>The other parts of a batch plan\<close>

record PromptLogprobSlicePlan =
  pl_slice_index :: int
  pl_k :: int
  pl_positions :: "int list"

fun check_ascending :: "int \<Rightarrow> int list \<Rightarrow> pyerror + unit" where
  "check_ascending previous [] = Inr ()"
| "check_ascending previous (x # xs) =
     ebind (require_int x 0) (\<lambda>_. if x \<le> previous then Inl ValueError else check_ascending x xs)"

definition prompt_logprob_validate :: "PromptLogprobSlicePlan \<Rightarrow> pyerror + unit" where
  "prompt_logprob_validate e =
     ebind (require_int (pl_slice_index e) 0) (\<lambda>_.
     ebind (require_int (pl_k e) 0) (\<lambda>_.
     ebind (check_ascending (- 1) (pl_positions e)) (\<lambda>_.
     require (pl_positions e \<noteq> []) ValueError)))"

record KVRequirement =
  group_id :: int
  append_tokens :: int
  cow_pages :: int
  restore_bytes :: int
  growth_bytes :: int
  request_tokens :: "(string \<times> int) list"

definition kv_requirement_validate :: "KVRequirement \<Rightarrow> pyerror + unit" where
  "kv_requirement_validate k =
     ebind (traverse (\<lambda>n. require_int n 0)
       [group_id k, append_tokens k, cow_pages k, restore_bytes k, growth_bytes k]) (\<lambda>_.
     ebind (traverse (\<lambda>(rid, n). ebind (require_text rid) (\<lambda>_. require_int n 1)) (request_tokens k)) (\<lambda>_.
     if \<not> distinct (map fst (request_tokens k)) then Inl ValueError
     else require (request_tokens k = [] \<or> sum_list (map snd (request_tokens k)) = append_tokens k) ValueError))"

record StepDependency =
  producer_id :: string
  dep_kind :: string

definition dependency_validate :: "StepDependency \<Rightarrow> pyerror + unit" where
  "dependency_validate d = ebind (require_text (producer_id d)) (\<lambda>_. require_text (dep_kind d))"

record DistributedStepIdentity =
  participating_ranks :: "int list"
  collective_sequence :: int
  worker_generation :: int

definition distributed_validate :: "DistributedStepIdentity \<Rightarrow> pyerror + unit" where
  "distributed_validate d =
     ebind (require_int (collective_sequence d) 0) (\<lambda>_.
     ebind (require_int (worker_generation d) 0) (\<lambda>_.
     if participating_ranks d = [] \<or> \<not> distinct (participating_ranks d) then Inl ValueError
     else ebind (traverse (\<lambda>r. require_int r 0) (participating_ranks d)) (\<lambda>_. Inr ())))"

datatype GraphMode = EAGER | CAPTURE | REPLAY

text \<open>
  The sampling plan of \<open>plan.py\<close>; of a custom operation's capability set only the
  \<open>CUDAGRAPH_SAFE\<close> bit is read.
\<close>

record SamplingPlan =
  num_rows :: int
  num_mask_rows :: int
  custom_ops :: "string list"
  custom_ops_graph_safe :: "bool list"

definition sampling_validate :: "SamplingPlan \<Rightarrow> pyerror + unit" where
  "sampling_validate sp =
     (if num_rows sp < 0 \<or> num_mask_rows sp < 0 then Inl ValueError
      else if num_mask_rows sp \<noteq> 0 \<and> num_mask_rows sp < num_rows sp then Inl ValueError
      else require (length (custom_ops_graph_safe sp) = length (custom_ops sp)) ValueError)"

definition graph_capturable :: "SamplingPlan \<Rightarrow> bool" where
  "graph_capturable sp \<longleftrightarrow> list_all (\<lambda>b. b) (custom_ops_graph_safe sp)"

section \<open>The batch plan\<close>

record BatchStepPlan =
  step_id :: int
  execution_plan_id :: string
  slices :: "ScheduledSlice list"
  inputs :: "RequestStepInput list"
  padded_num_tokens :: int
  sampling_rows :: "int list"
  sampling :: SamplingPlan
  prompt_logprobs :: "PromptLogprobSlicePlan list"
  kv_requirements :: "KVRequirement list"
  dependencies :: "StepDependency list"
  distributed :: "DistributedStepIdentity option"
  graph_mode :: GraphMode
  created_ns :: int
  speculative :: "SpeculativeSlicePlan list"

text \<open>\<open>_validate_speculative\<close>: the loop, and the dictionary it returns.\<close>

fun check_speculative ::
  "ScheduledSlice list \<Rightarrow> int \<Rightarrow> SpeculativeSlicePlan list \<Rightarrow> pyerror + (int \<times> int) list" where
  "check_speculative ss previous [] = Inr []"
| "check_speculative ss previous (q # qs) =
     ebind (spec_validate q) (\<lambda>_.
     if sp_slice_index q \<le> previous then Inl ValueError
     else if sp_slice_index q \<ge> int (length ss) then Inl IndexError
     else let s = ss ! nat (sp_slice_index q) in
       if sp_request_id q \<noteq> sl_request_id s then Inl ValueError
       else if phase s \<noteq> PhaseDecode \<or> \<not> sample_last_query s then Inl ValueError
       else if reserve_tokens q \<noteq> query_count s + effective_k q then Inl ValueError
       else ebind (check_speculative ss (sp_slice_index q) qs) (\<lambda>rest.
         Inr ((sp_slice_index q, effective_k q) # rest)))"

text \<open>The loop over slices and inputs: the sampling rows it expects and the rows it counts.\<close>

fun check_slices ::
  "(int \<times> int) list \<Rightarrow> int \<Rightarrow> string list \<Rightarrow> int \<Rightarrow> (ScheduledSlice \<times> RequestStepInput) list
    \<Rightarrow> pyerror + int list \<times> int" where
  "check_slices drafts i seen offset [] = Inr ([], offset)"
| "check_slices drafts i seen offset ((s, v) # rest) =
     (if sl_request_id s \<in> set seen then Inl ValueError
      else ebind (slice_validate s) (\<lambda>_.
        ebind (input_validate v) (\<lambda>_.
        ebind (validate_slice v s) (\<lambda>_.
        let d = (case map_of drafts i of None \<Rightarrow> 0 | Some k \<Rightarrow> k) in
        if map_of drafts i \<noteq> None \<and> d \<ge> in_max_output v - (int (length (in_known v)) - in_prompt v)
        then Inl ValueError
        else ebind (check_slices drafts (i + 1) (sl_request_id s # seen) (offset + query_count s + d) rest)
          (\<lambda>(rows, n). Inr (if sample_last_query s then (offset + query_count s - 1) # rows else rows, n))))))"

fun check_prompt_logprobs ::
  "ScheduledSlice list \<Rightarrow> RequestStepInput list \<Rightarrow> int \<Rightarrow> PromptLogprobSlicePlan list \<Rightarrow> pyerror + unit" where
  "check_prompt_logprobs ss vs previous [] = Inr ()"
| "check_prompt_logprobs ss vs previous (e # es) =
     ebind (prompt_logprob_validate e) (\<lambda>_.
     if pl_slice_index e \<ge> int (length ss) then Inl IndexError
     else if pl_slice_index e \<le> previous then Inl ValueError
     else let s = ss ! nat (pl_slice_index e);
              hi = min (query_end s) (in_prompt (vs ! nat (pl_slice_index e))) in
       if \<not> list_all (\<lambda>p. query_start s \<le> p \<and> p < hi) (pl_positions e) then Inl IndexError
       else check_prompt_logprobs ss vs (pl_slice_index e) es)"

datatype BatchMode = BatchIdle | BatchPrefill | BatchDecode | BatchMixed

datatype ForwardMode = ForwardIdle | ForwardPrefill | ForwardExtend | ForwardDecode | TargetVerify | DraftExtend

definition semantic_mode :: "BatchStepPlan \<Rightarrow> BatchMode" where
  "semantic_mode p =
     (if slices p = [] then BatchIdle
      else let has_prefill = list_ex (\<lambda>s. phase s = PhasePrefill) (slices p);
               has_decode = list_ex (\<lambda>s. phase s = PhaseDecode) (slices p)
           in if has_prefill \<and> has_decode then BatchMixed
              else if has_prefill then BatchPrefill else BatchDecode)"

definition forward_mode :: "BatchStepPlan \<Rightarrow> ForwardMode" where
  "forward_mode p =
     (let m = semantic_mode p in
      if m = BatchIdle then ForwardIdle
      else if m = BatchDecode then (if speculative p \<noteq> [] then ForwardExtend else ForwardDecode)
      else if m = BatchPrefill \<and> list_all (\<lambda>s. query_start s = 0) (slices p) then ForwardPrefill
      else ForwardExtend)"

definition is_pure_decode :: "BatchStepPlan \<Rightarrow> bool" where
  "is_pure_decode p \<longleftrightarrow> semantic_mode p = BatchDecode"

definition is_mixed :: "BatchStepPlan \<Rightarrow> bool" where
  "is_mixed p \<longleftrightarrow> semantic_mode p = BatchMixed"

text \<open>
  \<open>BatchStepPlan.validate\<close>.  The length test comes first, so the code's \<open>zip(strict=True)\<close>
  never raises.
\<close>

definition plan_validate :: "BatchStepPlan \<Rightarrow> pyerror + unit" where
  "plan_validate p =
     ebind (require_int (step_id p) 0) (\<lambda>_.
     ebind (require_text (execution_plan_id p)) (\<lambda>_.
     ebind (require_int (padded_num_tokens p) 0) (\<lambda>_.
     ebind (require_int (created_ns p) 0) (\<lambda>_.
     if length (inputs p) \<noteq> length (slices p) then Inl ValueError
     else ebind (check_speculative (slices p) (- 1) (speculative p)) (\<lambda>drafts.
     ebind (check_slices drafts 0 [] 0 (zip (slices p) (inputs p))) (\<lambda>(expected_rows, offset).
     if \<not> distinct (map in_sequence (inputs p)) then Inl ValueError
     else if padded_num_tokens p < offset then Inl ValueError
     else ebind (traverse (\<lambda>r. require_int r 0) (sampling_rows p)) (\<lambda>_.
     if sampling_rows p \<noteq> expected_rows then Inl ValueError
     else if num_rows (sampling p) \<noteq> int (length (sampling_rows p)) then Inl ValueError
     else ebind (check_prompt_logprobs (slices p) (inputs p) (- 1) (prompt_logprobs p)) (\<lambda>_.
     ebind (traverse kv_requirement_validate (kv_requirements p)) (\<lambda>_.
     ebind (traverse dependency_validate (dependencies p)) (\<lambda>_.
     ebind (case distributed p of None \<Rightarrow> Inr () | Some d \<Rightarrow> distributed_validate d) (\<lambda>_.
     if \<not> distinct (map group_id (kv_requirements p)) then Inl ValueError
     else if graph_mode p = REPLAY \<and> \<not> is_pure_decode p then Inl ValueError
     else if graph_mode p = REPLAY \<and> \<not> graph_capturable (sampling p) then Inl ValueError
     else require (\<not> (graph_mode p = REPLAY \<and> speculative p \<noteq> [])) ValueError)))))))))))"

section \<open>Row layout\<close>

text \<open>The views are read on constructed, hence validated, plans: indices are in range.\<close>

fun draft_rows_in :: "int \<Rightarrow> SpeculativeSlicePlan list \<Rightarrow> int" where
  "draft_rows_in i [] = 0"
| "draft_rows_in i (q # qs) = (if sp_slice_index q = i then effective_k q else draft_rows_in i qs)"

definition draft_rows :: "BatchStepPlan \<Rightarrow> int \<Rightarrow> int" where
  "draft_rows p i = draft_rows_in i (speculative p)"

definition draft_row_counts :: "BatchStepPlan \<Rightarrow> int list" where
  "draft_row_counts p =
     fold (\<lambda>q counts. counts[nat (sp_slice_index q) := effective_k q]) (speculative p)
       (replicate (length (slices p)) 0)"

definition num_draft_tokens :: "BatchStepPlan \<Rightarrow> int" where
  "num_draft_tokens p = sum_list (map effective_k (speculative p))"

definition num_tokens :: "BatchStepPlan \<Rightarrow> int" where
  "num_tokens p = sum_list (map query_count (slices p))"

definition execution_num_tokens :: "BatchStepPlan \<Rightarrow> int" where
  "execution_num_tokens p = num_tokens p + num_draft_tokens p"

text \<open>\<open>offsets = [0]\<close>, then \<open>offsets.append(offsets[-1] + n)\<close> for each width.\<close>

fun running_offsets :: "int \<Rightarrow> int list \<Rightarrow> int list" where
  "running_offsets acc [] = [acc]"
| "running_offsets acc (n # ns) = acc # running_offsets (acc + n) ns"

definition query_start_loc :: "BatchStepPlan \<Rightarrow> int list" where
  "query_start_loc p = running_offsets 0 (map query_count (slices p))"

definition execution_query_start_loc :: "BatchStepPlan \<Rightarrow> int list" where
  "execution_query_start_loc p =
     running_offsets 0 (map (\<lambda>(s, d). query_count s + d) (zip (slices p) (draft_row_counts p)))"

definition py_slice :: "int \<Rightarrow> int \<Rightarrow> 'a list \<Rightarrow> 'a list" where
  "py_slice a b xs = take (nat (b - a)) (drop (nat a) xs)"

definition token_ids :: "BatchStepPlan \<Rightarrow> int list" where
  "token_ids p =
     concat (map (\<lambda>(s, v). py_slice (query_start s) (query_end s) (in_known v)) (zip (slices p) (inputs p)))"

definition positions :: "BatchStepPlan \<Rightarrow> int list" where
  "positions p = concat (map (\<lambda>s. [query_start s .. query_end s - 1]) (slices p))"

definition drafts_of :: "BatchStepPlan \<Rightarrow> int \<Rightarrow> int list" where
  "drafts_of p i =
     (case map_of (rev (map (\<lambda>q. (sp_slice_index q, draft_token_ids q)) (speculative p))) i of
        None \<Rightarrow> [] | Some ts \<Rightarrow> ts)"

definition execution_token_ids :: "BatchStepPlan \<Rightarrow> int list" where
  "execution_token_ids p =
     (if speculative p = [] then token_ids p
      else concat (map (\<lambda>(i, s, v). py_slice (query_start s) (query_end s) (in_known v) @ drafts_of p (int i))
             (enumerate 0 (zip (slices p) (inputs p)))))"

definition execution_positions :: "BatchStepPlan \<Rightarrow> int list" where
  "execution_positions p =
     (if speculative p = [] then positions p
      else concat (map (\<lambda>(s, d). [query_start s .. query_end s + d - 1]) (zip (slices p) (draft_row_counts p))))"

definition execution_ends :: "BatchStepPlan \<Rightarrow> int list" where
  "execution_ends p = map (\<lambda>(s, d). query_end s + d) (zip (slices p) (draft_row_counts p))"

definition extension_rows :: "BatchStepPlan \<Rightarrow> int list" where
  "extension_rows p =
     concat (map (\<lambda>q.
       let first = execution_query_start_loc p ! nat (sp_slice_index q)
                   + query_count (slices p ! nat (sp_slice_index q))
       in [first .. first + effective_k q - 1]) (speculative p))"

definition request_order :: "BatchStepPlan \<Rightarrow> string list" where
  "request_order p = map sl_request_id (slices p)"

definition num_prefill_tokens :: "BatchStepPlan \<Rightarrow> int" where
  "num_prefill_tokens p = sum_list (map query_count (filter (\<lambda>s. phase s = PhasePrefill) (slices p)))"

definition num_decode_tokens :: "BatchStepPlan \<Rightarrow> int" where
  "num_decode_tokens p = sum_list (map query_count (filter (\<lambda>s. phase s = PhaseDecode) (slices p)))"

end
