(* ===== verification/Plan_Properties.thy ===== *)
theory Plan_Properties
  imports Step_Plan
begin

text \<open>
  Correctness of the row layout of a batch plan: in a plan that passes validation, the
  packed tokens, positions, sampling rows and draft rows address each other consistently.
\<close>

section \<open>Blocks laid end to end\<close>

lemma concat_block_nth:
  "i < length xss \<Longrightarrow> j < length (xss ! i) \<Longrightarrow>
   concat xss ! (sum_list (map length (take i xss)) + j) = xss ! i ! j"
proof (induction xss arbitrary: i)
  case (Cons xs xss)
  then show ?case by (cases i) (auto simp: nth_append)
qed simp

lemma running_offsets_nth: "i \<le> length ns \<Longrightarrow> running_offsets acc ns ! i = acc + sum_list (take i ns)"
proof (induction ns arbitrary: acc i)
  case (Cons n ns)
  then show ?case by (cases i) auto
qed simp

lemma length_running_offsets [simp]: "length (running_offsets acc ns) = Suc (length ns)"
  by (induction ns arbitrary: acc) auto

lemma sum_list_length_take:
  "(\<And>i. i < length xss \<Longrightarrow> int (length (xss ! i)) = ns ! i) \<Longrightarrow> length ns = length xss \<Longrightarrow>
   i \<le> length xss \<Longrightarrow> int (sum_list (map length (take i xss))) = sum_list (take i ns)"
proof (induction i)
  case (Suc i)
  then show ?case by (simp add: take_Suc_conv_app_nth)
qed simp

text \<open>One block per slice: the row \<open>start + j\<close> of the packed list is entry \<open>j\<close> of its block.\<close>

lemma packed_nth:
  assumes len: "\<And>i. i < length xss \<Longrightarrow> int (length (xss ! i)) = ns ! i" and n: "length ns = length xss"
    and i: "i < length xss" and j: "0 \<le> j" "j < ns ! i"
  shows "concat xss ! nat (running_offsets 0 ns ! i + j) = xss ! i ! nat j"
proof -
  have "running_offsets 0 ns ! i = int (sum_list (map length (take i xss)))"
    using sum_list_length_take [OF len n, of i] i n by (simp add: running_offsets_nth)
  then have "nat (running_offsets 0 ns ! i + j) = sum_list (map length (take i xss)) + nat j" using j by simp
  moreover have "nat j < length (xss ! i)" using len [OF i] j by simp
  ultimately show ?thesis using concat_block_nth [OF i, of "nat j"] by simp
qed

lemma packed_length:
  assumes len: "\<And>i. i < length xss \<Longrightarrow> int (length (xss ! i)) = ns ! i" and n: "length ns = length xss"
  shows "int (length (concat xss)) = sum_list ns"
  using sum_list_length_take [OF len n, of "length xss"] n by (simp add: length_concat)

section \<open>What validation establishes\<close>

definition spec_ok :: "ScheduledSlice list \<Rightarrow> SpeculativeSlicePlan \<Rightarrow> bool" where
  "spec_ok ss q \<longleftrightarrow>
     0 \<le> sp_slice_index q \<and> sp_slice_index q < int (length ss) \<and> 1 \<le> effective_k q \<and> effective_k q \<le> MAX_DRAFT_TOKENS \<and>
     int (length (draft_token_ids q)) = effective_k q \<and>
     (let s = ss ! nat (sp_slice_index q) in
        sp_request_id q = sl_request_id s \<and> phase s = PhaseDecode \<and> sample_last_query s)"

lemma require_int_Inr [simp]: "require_int v l = Inr u \<longleftrightarrow> l \<le> v"
  by (simp add: require_int_def)

lemma spec_validate_Inr:
  "spec_validate q = Inr u \<Longrightarrow>
     0 \<le> sp_slice_index q \<and> 1 \<le> effective_k q \<and> effective_k q \<le> MAX_DRAFT_TOKENS \<and>
     int (length (draft_token_ids q)) = effective_k q \<and> reserve_tokens q = 1 + effective_k q"
  by (auto simp: spec_validate_def ebind_Inr_iff split: if_splits)

lemma check_speculative_Inr:
  "check_speculative ss previous qs = Inr ds \<Longrightarrow>
     ds = map (\<lambda>q. (sp_slice_index q, effective_k q)) qs \<and> sorted_wrt (<) (map sp_slice_index qs) \<and>
     (\<forall>q\<in>set qs. previous < sp_slice_index q \<and> spec_ok ss q)"
proof (induction qs arbitrary: previous ds)
  case (Cons q qs)
  from Cons.prems obtain rest where v: "spec_validate q = Inr ()" and lt: "previous < sp_slice_index q"
    and rest: "check_speculative ss (sp_slice_index q) qs = Inr rest"
    and ds: "ds = (sp_slice_index q, effective_k q) # rest"
    and s: "sp_slice_index q < int (length ss)" "sp_request_id q = sl_request_id (ss ! nat (sp_slice_index q))"
      "phase (ss ! nat (sp_slice_index q)) = PhaseDecode" "sample_last_query (ss ! nat (sp_slice_index q))"
    by (auto simp: ebind_Inr_iff Let_def split: if_splits)
  from spec_validate_Inr [OF v] s have "spec_ok ss q" by (simp add: spec_ok_def Let_def)
  with Cons.IH [OF rest] lt ds show ?case by force
qed simp

lemma slice_validate_Inr:
  "slice_validate s = Inr u \<Longrightarrow> 1 \<le> sl_epoch s \<and> 0 \<le> expected_state_version s \<and> 0 \<le> query_start s \<and> 1 \<le> query_count s \<and>
     (phase s = PhaseDecode \<longrightarrow> query_count s = 1)"
  by (auto simp: slice_validate_def ebind_Inr_iff)

lemma validate_slice_Inr:
  "validate_slice v s = Inr u \<longleftrightarrow>
     sl_request_id s = in_request_id v \<and> sl_epoch s = in_epoch v \<and> expected_state_version s = in_version v \<and>
     query_start s = in_computed v \<and> query_end s \<le> int (length (in_known v)) \<and>
     (if phase s = PhasePrefill then query_start s < in_prompt v \<and> query_end s \<le> in_prompt v
      else in_prompt v \<le> query_start s) \<and>
     (sample_last_query s \<longrightarrow> query_end s = int (length (in_known v)) \<and>
        int (length (in_known v)) - in_prompt v < in_max_output v)"
  by (auto simp: validate_slice_def)

definition pair_ok :: "(int \<times> int) list \<Rightarrow> int \<Rightarrow> ScheduledSlice \<times> RequestStepInput \<Rightarrow> bool" where
  "pair_ok drafts i = (\<lambda>(s, v). slice_validate s = Inr () \<and> input_validate v = Inr () \<and> validate_slice v s = Inr () \<and>
     (\<forall>d. map_of drafts i = Some d \<longrightarrow> d < in_max_output v - (int (length (in_known v)) - in_prompt v)))"

definition width :: "(int \<times> int) list \<Rightarrow> int \<Rightarrow> ScheduledSlice \<Rightarrow> int" where
  "width drafts i s = query_count s + (case map_of drafts i of None \<Rightarrow> 0 | Some k \<Rightarrow> k)"

fun widths :: "(int \<times> int) list \<Rightarrow> int \<Rightarrow> ScheduledSlice list \<Rightarrow> int list" where
  "widths drafts i [] = []"
| "widths drafts i (s # ss) = width drafts i s # widths drafts (i + 1) ss"

lemma widths_nth: "j < length ss \<Longrightarrow> widths drafts i ss ! j = width drafts (i + int j) (ss ! j)"
proof (induction ss arbitrary: i j)
  case (Cons s ss)
  then show ?case by (cases j) (auto simp: algebra_simps)
qed simp

lemma length_widths [simp]: "length (widths drafts i ss) = length ss"
  by (induction ss arbitrary: i) auto

fun sample_rows_from :: "int \<Rightarrow> int list \<Rightarrow> ScheduledSlice list \<Rightarrow> int list" where
  "sample_rows_from off (w # ws) (s # ss) =
     (if sample_last_query s then [off + query_count s - 1] else []) @ sample_rows_from (off + w) ws ss"
| "sample_rows_from off _ _ = []"

lemma check_slices_Inr:
  "check_slices drafts i seen off ps = Inr (rows, n) \<Longrightarrow>
     (\<forall>j<length ps. pair_ok drafts (i + int j) (ps ! j)) \<and>
     distinct (map (sl_request_id \<circ> fst) ps) \<and> set (map (sl_request_id \<circ> fst) ps) \<inter> set seen = {} \<and>
     n = off + sum_list (widths drafts i (map fst ps)) \<and>
     rows = sample_rows_from off (widths drafts i (map fst ps)) (map fst ps)"
proof (induction drafts i seen off ps arbitrary: rows n rule: check_slices.induct)
  case (2 drafts i seen offset s v rest)
  let ?d = "case map_of drafts i of None \<Rightarrow> 0 | Some k \<Rightarrow> k"
  from 2(2) obtain rows' where
    new: "sl_request_id s \<notin> set seen" and ok: "slice_validate s = Inr ()" "input_validate v = Inr ()" "validate_slice v s = Inr ()"
    and budget: "map_of drafts i \<noteq> None \<Longrightarrow> ?d < in_max_output v - (int (length (in_known v)) - in_prompt v)"
    and rest: "check_slices drafts (i + 1) (sl_request_id s # seen) (offset + query_count s + ?d) rest = Inr (rows', n)"
    and rows: "rows = (if sample_last_query s then (offset + query_count s - 1) # rows' else rows')"
    by (auto simp: ebind_Inr_iff Let_def split: if_splits)
  have p: "pair_ok drafts i (s, v)" using ok budget by (auto simp: pair_ok_def)
  have IH: "(\<forall>j<length rest. pair_ok drafts (i + 1 + int j) (rest ! j)) \<and>
     distinct (map (sl_request_id \<circ> fst) rest) \<and> set (map (sl_request_id \<circ> fst) rest) \<inter> set (sl_request_id s # seen) = {} \<and>
     n = offset + query_count s + ?d + sum_list (widths drafts (i + 1) (map fst rest)) \<and>
     rows' = sample_rows_from (offset + query_count s + ?d) (widths drafts (i + 1) (map fst rest)) (map fst rest)"
    using budget by (intro 2(1) [OF new refl _ rest]) auto
  with p have IH': "\<forall>j<length ((s, v) # rest). pair_ok drafts (i + int j) (((s, v) # rest) ! j)"
    by (auto simp: nth_Cons add.assoc split: nat.split)
  have w: "width drafts i s = query_count s + ?d" by (simp add: width_def)
  show ?case
  proof (intro conjI)
    show "\<forall>j<length ((s, v) # rest). pair_ok drafts (i + int j) (((s, v) # rest) ! j)" by (rule IH')
  qed (use IH new rows in \<open>auto simp: w add.assoc comp_def\<close>)
qed auto

lemma plan_validate_Inr:
  assumes "plan_validate p = Inr ()"
  obtains drafts where "length (inputs p) = length (slices p)"
    "check_speculative (slices p) (- 1) (speculative p) = Inr drafts"
    "check_slices drafts 0 [] 0 (zip (slices p) (inputs p)) =
       Inr (sampling_rows p, sum_list (widths drafts 0 (slices p)))"
    "sum_list (widths drafts 0 (slices p)) \<le> padded_num_tokens p"
    "distinct (map in_sequence (inputs p))" "num_rows (sampling p) = int (length (sampling_rows p))"
proof -
  from assms obtain drafts rows off where len: "length (inputs p) = length (slices p)"
    and spec: "check_speculative (slices p) (- 1) (speculative p) = Inr drafts"
    and run: "check_slices drafts 0 [] 0 (zip (slices p) (inputs p)) = Inr (rows, off)"
    and rest: "off \<le> padded_num_tokens p" "distinct (map in_sequence (inputs p))" "sampling_rows p = rows"
      "num_rows (sampling p) = int (length (sampling_rows p))"
    by (auto simp: plan_validate_def ebind_Inr_iff split: if_splits)
  have "off = sum_list (widths drafts 0 (slices p))"
    using check_slices_Inr [OF run] len by simp
  with that [OF len spec] run rest show thesis by simp
qed

section \<open>The layout of a valid plan\<close>

definition dmap :: "BatchStepPlan \<Rightarrow> (int \<times> int) list" where
  "dmap p = map (\<lambda>q. (sp_slice_index q, effective_k q)) (speculative p)"

lemma draft_rows_in_map_of:
  "draft_rows_in i qs = (case map_of (map (\<lambda>q. (sp_slice_index q, effective_k q)) qs) i of None \<Rightarrow> 0 | Some k \<Rightarrow> k)"
  by (induction qs) auto

lemma fold_counts:
  "distinct (map sp_slice_index qs) \<Longrightarrow> (\<forall>q\<in>set qs. 0 \<le> sp_slice_index q \<and> sp_slice_index q < int (length c)) \<Longrightarrow> i < length c \<Longrightarrow>
   fold (\<lambda>q counts. counts[nat (sp_slice_index q) := effective_k q]) qs c ! i =
     (if int i \<in> set (map sp_slice_index qs) then draft_rows_in (int i) qs else c ! i)"
proof (induction qs arbitrary: c)
  case (Cons q qs)
  have "nat (sp_slice_index q) = i \<longleftrightarrow> sp_slice_index q = int i" using Cons.prems(2) by auto
  moreover have "fold (\<lambda>q counts. counts[nat (sp_slice_index q) := effective_k q]) qs (c[nat (sp_slice_index q) := effective_k q]) ! i =
      (if int i \<in> set (map sp_slice_index qs) then draft_rows_in (int i) qs else c[nat (sp_slice_index q) := effective_k q] ! i)"
    using Cons.prems by (intro Cons.IH) auto
  ultimately show ?case using Cons.prems by (auto simp: nth_list_update)
qed simp

lemma length_fold_counts: "length (fold (\<lambda>q counts. counts[f q := g q]) qs c) = length c"
  by (induction qs arbitrary: c) auto

lemma length_draft_row_counts [simp]: "length (draft_row_counts p) = length (slices p)"
  by (simp add: draft_row_counts_def length_fold_counts)

text \<open>The facts about a valid plan that the layout proofs use.\<close>

lemma valid_plan:
  assumes "plan_validate p = Inr ()"
  shows "length (inputs p) = length (slices p)"
    and "check_slices (dmap p) 0 [] 0 (zip (slices p) (inputs p)) =
       Inr (sampling_rows p, sum_list (widths (dmap p) 0 (slices p)))"
    and "sum_list (widths (dmap p) 0 (slices p)) \<le> padded_num_tokens p"
    and "sorted_wrt (<) (map sp_slice_index (speculative p))"
    and "q \<in> set (speculative p) \<Longrightarrow> spec_ok (slices p) q"
    and "i < length (slices p) \<Longrightarrow> pair_ok (dmap p) (int i) (slices p ! i, inputs p ! i)"
    and "distinct (request_order p)"
proof -
  from assms obtain drafts where d: "length (inputs p) = length (slices p)"
    "check_speculative (slices p) (- 1) (speculative p) = Inr drafts"
    "check_slices drafts 0 [] 0 (zip (slices p) (inputs p)) = Inr (sampling_rows p, sum_list (widths drafts 0 (slices p)))"
    "sum_list (widths drafts 0 (slices p)) \<le> padded_num_tokens p" by (rule plan_validate_Inr)
  from check_speculative_Inr [OF d(2)] have s: "drafts = dmap p" "sorted_wrt (<) (map sp_slice_index (speculative p))"
    "\<forall>q\<in>set (speculative p). spec_ok (slices p) q" by (auto simp: dmap_def)
  from check_slices_Inr [OF d(3)] d(1)
  have c: "\<forall>j<length (slices p). pair_ok drafts (int j) (slices p ! j, inputs p ! j)"
    "distinct (map (sl_request_id \<circ> fst) (zip (slices p) (inputs p)))" by auto
  have "map (sl_request_id \<circ> fst) (zip (slices p) (inputs p)) = request_order p"
    using d(1) by (simp add: request_order_def map_map [symmetric] del: map_map)
  with c(2) show "distinct (request_order p)" by simp
  show "length (inputs p) = length (slices p)"
    "check_slices (dmap p) 0 [] 0 (zip (slices p) (inputs p)) = Inr (sampling_rows p, sum_list (widths (dmap p) 0 (slices p)))"
    "sum_list (widths (dmap p) 0 (slices p)) \<le> padded_num_tokens p"
    "sorted_wrt (<) (map sp_slice_index (speculative p))"
    "q \<in> set (speculative p) \<Longrightarrow> spec_ok (slices p) q"
    "i < length (slices p) \<Longrightarrow> pair_ok (dmap p) (int i) (slices p ! i, inputs p ! i)"
    using d s c by auto
qed

lemma valid_distinct: "plan_validate p = Inr () \<Longrightarrow> distinct (map sp_slice_index (speculative p))"
  using valid_plan(4) strict_sorted_iff by blast

lemma draft_counts_nth:
  assumes v: "plan_validate p = Inr ()" and i: "i < length (slices p)"
  shows "draft_row_counts p ! i = draft_rows p (int i)"
proof -
  have "draft_row_counts p ! i = (if int i \<in> set (map sp_slice_index (speculative p)) then draft_rows_in (int i) (speculative p)
      else replicate (length (slices p)) 0 ! i)"
    unfolding draft_row_counts_def using valid_distinct [OF v] valid_plan(5) [OF v] i
    by (intro fold_counts) (auto simp: spec_ok_def)
  moreover have "draft_rows_in (int i) qs = 0" if "int i \<notin> set (map sp_slice_index qs)" for qs
    using that by (induction qs) auto
  ultimately show ?thesis using i by (simp add: draft_rows_def)
qed

lemma width_rows: "width (dmap p) i s = query_count s + draft_rows p i"
  by (simp add: width_def dmap_def draft_rows_def draft_rows_in_map_of)

lemma drafts_of_spec:
  assumes v: "plan_validate p = Inr ()" and q: "q \<in> set (speculative p)"
  shows "drafts_of p (sp_slice_index q) = draft_token_ids q" "draft_rows p (sp_slice_index q) = effective_k q"
proof -
  let ?f = "\<lambda>q. (sp_slice_index q, draft_token_ids q)" and ?g = "\<lambda>q. (sp_slice_index q, effective_k q)"
  have d: "distinct (map sp_slice_index (speculative p))" by (rule valid_distinct [OF v])
  have "map_of (rev (map ?f (speculative p))) (sp_slice_index q) = Some (draft_token_ids q)"
    using d q by (intro map_of_is_SomeI) (auto simp: comp_def rev_map [symmetric])
  then show "drafts_of p (sp_slice_index q) = draft_token_ids q" by (simp add: drafts_of_def)
  have "map_of (map ?g (speculative p)) (sp_slice_index q) = Some (effective_k q)"
    using d q by (intro map_of_is_SomeI) (auto simp: comp_def)
  then show "draft_rows p (sp_slice_index q) = effective_k q" by (simp add: draft_rows_def draft_rows_in_map_of)
qed

lemma no_drafts:
  assumes "i \<notin> set (map sp_slice_index (speculative p))"
  shows "drafts_of p i = []" "draft_rows p i = 0"
proof -
  have "map_of (rev (map (\<lambda>q. (sp_slice_index q, draft_token_ids q)) (speculative p))) i = None"
    using assms by (auto simp: map_of_eq_None_iff)
  then show "drafts_of p i = []" by (simp add: drafts_of_def)
  have "draft_rows_in i qs = 0" if "i \<notin> set (map sp_slice_index qs)" for qs using that by (induction qs) auto
  with assms show "draft_rows p i = 0" by (simp add: draft_rows_def)
qed

lemma length_drafts_of: "plan_validate p = Inr () \<Longrightarrow> int (length (drafts_of p i)) = draft_rows p i"
  by (cases "i \<in> set (map sp_slice_index (speculative p))")
     (use valid_plan(5) in \<open>force simp: drafts_of_spec spec_ok_def\<close>, simp add: no_drafts)

definition pos_blocks :: "BatchStepPlan \<Rightarrow> int list list" where
  "pos_blocks p = map (\<lambda>i. [query_start (slices p ! i) .. query_end (slices p ! i) + draft_rows p (int i) - 1])
     [0..<length (slices p)]"

definition tok_blocks :: "BatchStepPlan \<Rightarrow> int list list" where
  "tok_blocks p = map (\<lambda>i. py_slice (query_start (slices p ! i)) (query_end (slices p ! i)) (in_known (inputs p ! i)) @
     drafts_of p (int i)) [0..<length (slices p)]"

lemma start_loc:
  assumes "plan_validate p = Inr ()"
  shows "execution_query_start_loc p = running_offsets 0 (widths (dmap p) 0 (slices p))"
proof -
  have "map (\<lambda>(s, d). query_count s + d) (zip (slices p) (draft_row_counts p)) = widths (dmap p) 0 (slices p)"
    by (rule nth_equalityI) (simp_all add: widths_nth width_rows draft_counts_nth [OF assms])
  then show ?thesis by (simp add: execution_query_start_loc_def)
qed

lemma execution_positions_blocks:
  assumes "plan_validate p = Inr ()"
  shows "execution_positions p = concat (pos_blocks p)"
proof (cases "speculative p = []")
  case True
  then have "draft_rows p i = 0" for i by (simp add: no_drafts)
  then have "map (\<lambda>s. [query_start s .. query_end s - 1]) (slices p) = pos_blocks p"
    by (intro nth_equalityI) (simp_all add: pos_blocks_def)
  with True show ?thesis by (simp add: execution_positions_def positions_def)
next
  case False
  have "map (\<lambda>(s, d). [query_start s .. query_end s + d - 1]) (zip (slices p) (draft_row_counts p)) = pos_blocks p"
    by (rule nth_equalityI) (simp_all add: pos_blocks_def draft_counts_nth [OF assms])
  with False show ?thesis by (simp add: execution_positions_def)
qed

lemma execution_tokens_blocks:
  assumes "plan_validate p = Inr ()"
  shows "execution_token_ids p = concat (tok_blocks p)"
proof (cases "speculative p = []")
  case True
  then have "drafts_of p i = []" for i by (simp add: no_drafts)
  then have "map (\<lambda>(s, v). py_slice (query_start s) (query_end s) (in_known v)) (zip (slices p) (inputs p)) = tok_blocks p"
    using valid_plan(1) [OF assms] by (intro nth_equalityI) (simp_all add: tok_blocks_def)
  with True show ?thesis by (simp add: execution_token_ids_def token_ids_def)
next
  case False
  have "map (\<lambda>(i, s, v). py_slice (query_start s) (query_end s) (in_known v) @ drafts_of p (int i))
      (enumerate 0 (zip (slices p) (inputs p))) = tok_blocks p"
    using valid_plan(1) [OF assms] by (intro nth_equalityI) (simp_all add: tok_blocks_def nth_enumerate_eq)
  with False show ?thesis by (simp add: execution_token_ids_def)
qed

text \<open>The bounds a valid slice gives.\<close>

lemma slice_bounds:
  assumes "plan_validate p = Inr ()" "i < length (slices p)"
  shows "0 \<le> query_start (slices p ! i)" "1 \<le> query_count (slices p ! i)"
    "query_end (slices p ! i) \<le> int (length (in_known (inputs p ! i)))" "0 \<le> draft_rows p (int i)"
    "sample_last_query (slices p ! i) \<Longrightarrow> query_end (slices p ! i) = int (length (in_known (inputs p ! i)))"
proof -
  note ok = valid_plan(6) [OF assms]
  from ok have s: "slice_validate (slices p ! i) = Inr ()" and v: "validate_slice (inputs p ! i) (slices p ! i) = Inr ()"
    by (simp_all add: pair_ok_def)
  from slice_validate_Inr [OF s] show "0 \<le> query_start (slices p ! i)" "1 \<le> query_count (slices p ! i)" by simp_all
  from v show "query_end (slices p ! i) \<le> int (length (in_known (inputs p ! i)))"
    "sample_last_query (slices p ! i) \<Longrightarrow> query_end (slices p ! i) = int (length (in_known (inputs p ! i)))"
    by (auto simp: validate_slice_Inr split: if_splits)
  show "0 \<le> draft_rows p (int i)" using length_drafts_of [OF assms(1), of "int i"] by linarith
qed

lemma block_lengths:
  assumes v: "plan_validate p = Inr ()" and i: "i < length (slices p)"
  shows "int (length (pos_blocks p ! i)) = widths (dmap p) 0 (slices p) ! i"
    and "int (length (tok_blocks p ! i)) = widths (dmap p) 0 (slices p) ! i"
  using slice_bounds [OF v i] i length_drafts_of [OF v, of "int i"]
  by (auto simp: pos_blocks_def tok_blocks_def widths_nth width_rows py_slice_def query_end_def)

lemma layout_row:
  assumes v: "plan_validate p = Inr ()" and i: "i < length (slices p)"
    and j: "0 \<le> j" "j < query_count (slices p ! i) + draft_rows p (int i)"
  shows "execution_positions p ! nat (execution_query_start_loc p ! i + j) = query_start (slices p ! i) + j"
    and "execution_token_ids p ! nat (execution_query_start_loc p ! i + j) =
      (if j < query_count (slices p ! i) then in_known (inputs p ! i) ! nat (query_start (slices p ! i) + j)
       else drafts_of p (int i) ! nat (j - query_count (slices p ! i)))"
proof -
  let ?s = "slices p ! i" and ?ns = "widths (dmap p) 0 (slices p)"
  note b = slice_bounds [OF v i]
  from j i have w: "j < ?ns ! i" by (simp add: widths_nth width_rows)
  have lens: "length (pos_blocks p) = length (slices p)" "length (tok_blocks p) = length (slices p)"
    by (simp_all add: pos_blocks_def tok_blocks_def)
  have "execution_positions p ! nat (execution_query_start_loc p ! i + j) = pos_blocks p ! i ! nat j"
    unfolding execution_positions_blocks [OF v] start_loc [OF v]
    using block_lengths(1) [OF v] i j w lens by (intro packed_nth) auto
  also have "\<dots> = query_start ?s + j" using i j by (simp add: pos_blocks_def query_end_def)
  finally show "execution_positions p ! nat (execution_query_start_loc p ! i + j) = query_start ?s + j" .
  have len: "length (py_slice (query_start ?s) (query_end ?s) (in_known (inputs p ! i))) = nat (query_count ?s)"
    using b by (simp add: py_slice_def query_end_def)
  have "execution_token_ids p ! nat (execution_query_start_loc p ! i + j) = tok_blocks p ! i ! nat j"
    unfolding execution_tokens_blocks [OF v] start_loc [OF v]
    using block_lengths(2) [OF v] i j w lens by (intro packed_nth) auto
  also have "\<dots> = (if j < query_count ?s then in_known (inputs p ! i) ! nat (query_start ?s + j)
       else drafts_of p (int i) ! nat (j - query_count ?s))"
  proof (cases "j < query_count ?s")
    case True
    then have "nat j < nat (query_count ?s)" using j by simp
    moreover have "nat (query_start ?s + j) = nat (query_start ?s) + nat j" using b j by simp
    ultimately show ?thesis using True i len b by (simp add: tok_blocks_def nth_append py_slice_def query_end_def)
  next
    case False
    then have "\<not> nat j < nat (query_count ?s)" "nat j - nat (query_count ?s) = nat (j - query_count ?s)" using b j by simp_all
    with False i len show ?thesis by (simp add: tok_blocks_def nth_append)
  qed
  finally show "execution_token_ids p ! nat (execution_query_start_loc p ! i + j) =
      (if j < query_count ?s then in_known (inputs p ! i) ! nat (query_start ?s + j)
       else drafts_of p (int i) ! nat (j - query_count ?s))" .
qed

lemma draft_rows_sum:
  assumes "distinct (map sp_slice_index qs)" "\<forall>q\<in>set qs. 0 \<le> sp_slice_index q \<and> sp_slice_index q < int n"
  shows "(\<Sum>i<n. draft_rows_in (int i) qs) = sum_list (map effective_k qs)"
  using assms
proof (induction qs)
  case (Cons q qs)
  let ?k = "nat (sp_slice_index q)"
  have zero: "draft_rows_in i xs = 0" if "i \<notin> set (map sp_slice_index xs)" for i xs using that by (induction xs) auto
  have "draft_rows_in (int i) (q # qs) = (if i = ?k then effective_k q else 0) + draft_rows_in (int i) qs" for i
    using Cons.prems zero [of "sp_slice_index q" qs] by auto
  moreover have "(\<Sum>i<n. if i = ?k then effective_k q else 0) = effective_k q" using Cons.prems(2) by (simp add: nat_less_iff)
  ultimately show ?case using Cons by (simp add: sum.distrib)
qed simp

lemma widths_total: "plan_validate p = Inr () \<Longrightarrow> sum_list (widths (dmap p) 0 (slices p)) = execution_num_tokens p"
proof -
  assume v: "plan_validate p = Inr ()"
  have "sum_list (widths (dmap p) 0 (slices p)) = (\<Sum>i<length (slices p). query_count (slices p ! i) + draft_rows p (int i))"
    by (simp add: sum_list_sum_nth widths_nth width_rows atLeast0LessThan)
  also have "\<dots> = num_tokens p + (\<Sum>i<length (slices p). draft_rows_in (int i) (speculative p))"
    by (simp add: sum.distrib num_tokens_def sum_list_sum_nth atLeast0LessThan draft_rows_def)
  also have "(\<Sum>i<length (slices p). draft_rows_in (int i) (speculative p)) = num_draft_tokens p"
    unfolding num_draft_tokens_def
    using valid_distinct [OF v] valid_plan(5) [OF v] by (intro draft_rows_sum) (auto simp: spec_ok_def)
  finally show ?thesis by (simp add: execution_num_tokens_def)
qed

lemma start_step:
  assumes v: "plan_validate p = Inr ()" and i: "i < length (slices p)"
  shows "execution_query_start_loc p ! Suc i =
    execution_query_start_loc p ! i + (query_count (slices p ! i) + draft_rows p (int i))"
  using i by (simp add: start_loc [OF v] running_offsets_nth take_Suc_conv_app_nth widths_nth width_rows)

lemma start_after:
  assumes v: "plan_validate p = Inr ()"
  shows "i < k \<Longrightarrow> k \<le> length (slices p) \<Longrightarrow>
    execution_query_start_loc p ! i + (query_count (slices p ! i) + draft_rows p (int i)) \<le> execution_query_start_loc p ! k"
proof (induction k)
  case (Suc k)
  then show ?case using start_step [OF v, of k] slice_bounds(2,4) [OF v, of k] by (cases "i = k") auto
qed simp

text \<open>A row belongs to one slice.\<close>

lemma row_owner:
  assumes v: "plan_validate p = Inr ()" and i: "i < length (slices p)" "k < length (slices p)"
    and j: "0 \<le> a" "a < query_count (slices p ! i) + draft_rows p (int i)"
      "0 \<le> b" "b < query_count (slices p ! k) + draft_rows p (int k)"
    and eq: "execution_query_start_loc p ! i + a = execution_query_start_loc p ! k + b"
  shows "i = k \<and> a = b"
proof (cases i k rule: linorder_cases)
  case less
  with start_after [OF v less] i j eq show ?thesis by simp
next
  case greater
  with start_after [OF v greater] i j eq show ?thesis by simp
qed (use eq in simp)

lemma sample_rows_eq:
  "length ws = length ss \<Longrightarrow>
   sample_rows_from off ws ss =
     map (\<lambda>i. off + sum_list (take i ws) + query_count (ss ! i) - 1) (filter (\<lambda>i. sample_last_query (ss ! i)) [0..<length ss])"
proof (induction off ws ss rule: sample_rows_from.induct)
  case (1 off w ws s ss)
  have up: "[0..<length (s # ss)] = 0 # map Suc [0..<length ss]"
    by (simp add: upt_conv_Cons map_Suc_upt del: upt_Suc)
  show ?case using 1 by (simp only: up) (simp add: filter_map comp_def add.assoc)
qed auto

lemma sampling_rows_eq:
  assumes v: "plan_validate p = Inr ()"
  shows "sampling_rows p = map (\<lambda>i. execution_query_start_loc p ! i + query_count (slices p ! i) - 1)
    (filter (\<lambda>i. sample_last_query (slices p ! i)) [0..<length (slices p)])"
proof -
  have "sampling_rows p = sample_rows_from 0 (widths (dmap p) 0 (slices p)) (slices p)"
    using check_slices_Inr [OF valid_plan(2) [OF v]] valid_plan(1) [OF v] by simp
  then show ?thesis by (simp add: sample_rows_eq start_loc [OF v] running_offsets_nth)
qed

section \<open>Properties\<close>

text \<open>
  C34. The packed layout of a valid plan is coherent.  There are exactly
  \<open>execution_num_tokens\<close> tokens and positions and they fit into the padded batch.  Row
  \<open>start + j\<close> of a slice holds position \<open>query_start + j\<close>; it carries the known token at
  that position as long as \<open>j\<close> is a query row, and the draft token after it otherwise.
\<close>

theorem execution_layout_coherent:
  assumes v: "plan_validate p = Inr ()"
  shows "int (length (execution_token_ids p)) = execution_num_tokens p \<and>
    int (length (execution_positions p)) = execution_num_tokens p \<and> execution_num_tokens p \<le> padded_num_tokens p \<and>
    (\<forall>i j. i < length (slices p) \<and> 0 \<le> j \<and> j < query_count (slices p ! i) + draft_rows p (int i) \<longrightarrow>
       (let row = nat (execution_query_start_loc p ! i + j) in
          execution_positions p ! row = query_start (slices p ! i) + j \<and>
          execution_token_ids p ! row =
            (if j < query_count (slices p ! i) then in_known (inputs p ! i) ! nat (query_start (slices p ! i) + j)
             else drafts_of p (int i) ! nat (j - query_count (slices p ! i)))))"
proof -
  have "int (length (execution_token_ids p)) = sum_list (widths (dmap p) 0 (slices p))"
    unfolding execution_tokens_blocks [OF v] using block_lengths(2) [OF v] by (intro packed_length) (simp_all add: tok_blocks_def)
  moreover have "int (length (execution_positions p)) = sum_list (widths (dmap p) 0 (slices p))"
    unfolding execution_positions_blocks [OF v] using block_lengths(1) [OF v] by (intro packed_length) (simp_all add: pos_blocks_def)
  ultimately show ?thesis
    using valid_plan(3) [OF v] layout_row [OF v] by (simp add: widths_total [OF v] Let_def)
qed

definition sample_slice :: "string \<Rightarrow> int \<Rightarrow> int \<Rightarrow> Phase \<Rightarrow> bool \<Rightarrow> ScheduledSlice" where
  "sample_slice rid q n ph sample =
     \<lparr>sl_request_id = rid, sl_epoch = 1, expected_state_version = 0, query_start = q, query_count = n, phase = ph,
      sample_last_query = sample\<rparr>"

definition sample_input :: "string \<Rightarrow> nat \<Rightarrow> int \<Rightarrow> int list \<Rightarrow> int \<Rightarrow> RequestStepInput" where
  "sample_input rid k prompt known computed =
     \<lparr>in_request_id = rid, in_sequence = \<lparr>seq_index = k, seq_generation = 1\<rparr>, in_epoch = 1, in_version = 0,
      in_prompt = prompt, in_known = known, in_computed = computed, in_max_output = 8\<rparr>"

definition sample_plan :: BatchStepPlan where
  "sample_plan =
     \<lparr>step_id = 3, execution_plan_id = ''x'',
      slices = [sample_slice ''a'' 1 2 PhasePrefill False, sample_slice ''b'' 3 1 PhaseDecode True],
      inputs = [sample_input ''a'' 0 4 [10, 11, 12, 13] 1, sample_input ''b'' 1 2 [20, 21, 22, 23] 3],
      padded_num_tokens = 8, sampling_rows = [2],
      sampling = \<lparr>num_rows = 1, num_mask_rows = 0, custom_ops = [], custom_ops_graph_safe = []\<rparr>,
      prompt_logprobs = [], kv_requirements = [], dependencies = [], distributed = None, graph_mode = EAGER,
      created_ns = 0,
      speculative = [\<lparr>sp_slice_index = 1, sp_request_id = ''b'', sp_mode = NGRAM, requested_k = 4, effective_k = 2,
        draft_token_ids = [30, 31], reserve_tokens = 3, verify_tokens = 3, graph_bucket = None\<rparr>]\<rparr>"

lemma sample_plan_valid: "plan_validate sample_plan = Inr ()"
  by code_simp

theorem execution_layout_coherent_witness:
  "int (length (execution_token_ids sample_plan)) = 5 \<and> execution_token_ids sample_plan ! 4 = 31 \<and>
   execution_positions sample_plan ! 4 = 5"
proof -
  have "execution_num_tokens sample_plan = 5" "execution_query_start_loc sample_plan ! 1 = 2" "draft_rows sample_plan 1 = 2"
    "drafts_of sample_plan 1 = [30, 31]" by code_simp+
  moreover have "length (slices sample_plan) = 2" "query_count (slices sample_plan ! 1) = 1"
    "query_start (slices sample_plan ! 1) = 3" by code_simp+
  ultimately show ?thesis
    using execution_layout_coherent [OF sample_plan_valid]
    by (auto simp: Let_def dest!: spec [of _ "1::nat"] spec [of _ "2::int"])
qed

text \<open>
  C35. Sampling and verification read the right rows.  The sampling rows of a valid plan
  are the last query rows of the sampling slices, in order; each carries the last known
  token of its request.  The draft rows follow the query rows of their slice, carry the
  draft tokens in order at the positions after the known tokens, and no sampling row is a
  draft row.
\<close>

theorem sampling_and_draft_rows:
  assumes v: "plan_validate p = Inr ()"
  shows "sampling_rows p = map (\<lambda>i. execution_query_start_loc p ! i + query_count (slices p ! i) - 1)
      (filter (\<lambda>i. sample_last_query (slices p ! i)) [0..<length (slices p)]) \<and>
    (\<forall>i<length (slices p). sample_last_query (slices p ! i) \<longrightarrow>
       execution_token_ids p ! nat (execution_query_start_loc p ! i + query_count (slices p ! i) - 1) = last (in_known (inputs p ! i))) \<and>
    (\<forall>q\<in>set (speculative p). \<forall>j<length (draft_token_ids q).
       let i = nat (sp_slice_index q); row = execution_query_start_loc p ! i + query_count (slices p ! i) + int j in
       row \<in> set (extension_rows p) \<and> execution_token_ids p ! nat row = draft_token_ids q ! j \<and>
       execution_positions p ! nat row = int (length (in_known (inputs p ! i))) + int j) \<and>
    set (sampling_rows p) \<inter> set (extension_rows p) = {}"
proof -
  let ?st = "\<lambda>i. execution_query_start_loc p ! i" and ?qc = "\<lambda>i. query_count (slices p ! i)"
  have sampled: "execution_token_ids p ! nat (?st i + ?qc i - 1) = last (in_known (inputs p ! i))"
    if i: "i < length (slices p)" and s: "sample_last_query (slices p ! i)" for i
  proof -
    note b = slice_bounds [OF v i]
    let ?k = "in_known (inputs p ! i)"
    have e: "query_start (slices p ! i) + ?qc i = int (length ?k)" using b(5) [OF s] by (simp add: query_end_def)
    have "execution_token_ids p ! nat (?st i + (?qc i - 1)) = ?k ! nat (query_start (slices p ! i) + (?qc i - 1))"
      using layout_row(2) [OF v i, of "?qc i - 1"] b by simp
    moreover have "nat (query_start (slices p ! i) + (?qc i - 1)) = length ?k - 1" using e by linarith
    moreover have "?k \<noteq> []" using e b by auto
    ultimately show ?thesis by (simp add: last_conv_nth add_diff_eq)
  qed
  have drafted: "?st i + ?qc i + int j \<in> set (extension_rows p)"
    "execution_token_ids p ! nat (?st i + ?qc i + int j) = draft_token_ids q ! j"
    "execution_positions p ! nat (?st i + ?qc i + int j) = int (length (in_known (inputs p ! i))) + int j"
    if q: "q \<in> set (speculative p)" and j: "j < length (draft_token_ids q)" and i: "i = nat (sp_slice_index q)" for q j i
  proof -
    from valid_plan(5) [OF v q] have ok: "int i = sp_slice_index q" "i < length (slices p)"
      "int (length (draft_token_ids q)) = effective_k q" "sample_last_query (slices p ! i)"
      using i by (auto simp: spec_ok_def Let_def)
    note d = drafts_of_spec [OF v q, folded ok(1)] and b = slice_bounds [OF v ok(2)]
    have r: "0 \<le> ?qc i + int j" "?qc i + int j < ?qc i + draft_rows p (int i)" using b d ok j by simp_all
    show "execution_token_ids p ! nat (?st i + ?qc i + int j) = draft_token_ids q ! j"
      using layout_row(2) [OF v ok(2) r] d by (simp add: add.assoc)
    show "execution_positions p ! nat (?st i + ?qc i + int j) = int (length (in_known (inputs p ! i))) + int j"
      using layout_row(1) [OF v ok(2) r] b(5) [OF ok(4)] by (simp add: add.assoc query_end_def)
    show "?st i + ?qc i + int j \<in> set (extension_rows p)"
      using q ok j i by (auto simp: extension_rows_def Let_def intro!: bexI [of _ q])
  qed
  have apart: "r \<notin> set (extension_rows p)" if "r \<in> set (sampling_rows p)" for r
  proof
    assume "r \<in> set (extension_rows p)"
    then obtain q where q: "q \<in> set (speculative p)"
      and "?st (nat (sp_slice_index q)) + ?qc (nat (sp_slice_index q)) \<le> r"
        "r < ?st (nat (sp_slice_index q)) + ?qc (nat (sp_slice_index q)) + effective_k q"
      by (auto simp: extension_rows_def Let_def)
    moreover define k where "k = nat (sp_slice_index q)"
    ultimately have rq: "?st k + ?qc k \<le> r" "r < ?st k + ?qc k + effective_k q" by simp_all
    from that obtain i where i: "i < length (slices p)" and ri: "r = ?st i + (?qc i - 1)"
      by (auto simp: sampling_rows_eq [OF v])
    from valid_plan(5) [OF v q] have k: "k < length (slices p)" "int k = sp_slice_index q" by (auto simp: spec_ok_def k_def)
    note dk = drafts_of_spec(2) [OF v q, folded k(2)] and bi = slice_bounds [OF v i] and bk = slice_bounds [OF v k(1)]
    have "i = k \<and> ?qc i - 1 = r - ?st k"
      using rq ri dk bi bk by (intro row_owner [OF v i k(1)]) auto
    with rq show False by auto
  qed
  show ?thesis
  proof (intro conjI ballI allI impI)
    show "sampling_rows p = map (\<lambda>i. ?st i + ?qc i - 1) (filter (\<lambda>i. sample_last_query (slices p ! i)) [0..<length (slices p)])"
      by (rule sampling_rows_eq [OF v])
    show "set (sampling_rows p) \<inter> set (extension_rows p) = {}" using apart by blast
  next
    fix q j assume "q \<in> set (speculative p)" "j < length (draft_token_ids q)"
    from drafted [OF this refl]
    show "let i = nat (sp_slice_index q); row = ?st i + ?qc i + int j in row \<in> set (extension_rows p) \<and>
        execution_token_ids p ! nat row = draft_token_ids q ! j \<and>
        execution_positions p ! nat row = int (length (in_known (inputs p ! i))) + int j" by (simp add: Let_def)
  qed (rule sampled)
qed

theorem sampling_and_draft_rows_witness:
  "execution_token_ids sample_plan ! 2 = 23 \<and> set (sampling_rows sample_plan) \<inter> set (extension_rows sample_plan) = {}"
proof -
  have "execution_query_start_loc sample_plan ! 1 = 2" "length (slices sample_plan) = 2"
    "query_count (slices sample_plan ! 1) = 1" "sample_last_query (slices sample_plan ! 1)"
    "last (in_known (inputs sample_plan ! 1)) = 23" by code_simp+
  moreover from sampling_and_draft_rows [OF sample_plan_valid]
  have "\<forall>i<length (slices sample_plan). sample_last_query (slices sample_plan ! i) \<longrightarrow>
      execution_token_ids sample_plan ! nat (execution_query_start_loc sample_plan ! i + query_count (slices sample_plan ! i) - 1) =
      last (in_known (inputs sample_plan ! i))"
    and "set (sampling_rows sample_plan) \<inter> set (extension_rows sample_plan) = {}" by blast+
  ultimately show ?thesis by (auto dest: spec [of _ 1])
qed

end
