(* ===== verification/Request_Lifecycle.thy ===== *)
theory Request_Lifecycle
  imports Request_Machine Step_Plan
begin

text \<open>
  One request from admission to its last token, \<open>request/lifecycle.py\<close>, with the request
  record (\<open>request/schema.py\<close>), its cancellation flag (\<open>request/cancel.py\<close>), the reports the
  scheduler sends (\<open>sched/outcome.py\<close>) and the registry that applies them.  A lifecycle
  operation acts on the lifecycle object and the process-wide epoch counter.  Timestamps are
  arguments, as in the machine.  The callbacks registered on a cancellation token run outside
  the request and are not part of its state.
\<close>

section \<open>Requests\<close>

record StopCriteria =
  max_tokens :: int
  min_tokens :: int
  stop_token_ids :: "int list"
  stop_strings :: "string list"
  ignore_eos :: bool
  include_stop_str_in_output :: bool

definition mk_stop :: "StopCriteria \<Rightarrow> pyerror + StopCriteria" where
  "mk_stop c =
     (if max_tokens c < 1 then Inl ValueError
      else if \<not> (0 \<le> min_tokens c \<and> min_tokens c \<le> max_tokens c) then Inl ValueError
      else Inr c)"

text \<open>
  Of a multimodal span the request reads its start and its number of rows; the sampling
  parameters, the constraint and the cache hints are carried along unread.
\<close>

record Request =
  rq_id :: string
  prompt_token_ids :: "int list"
  stop :: StopCriteria
  multimodal :: "(int \<times> nat) list"
  priority :: int
  rq_arrival_ns :: int
  deadline_ns :: "int option"
  queue_deadline_ns :: "int option"

definition prompt_len :: "Request \<Rightarrow> int" where
  "prompt_len r = int (length (prompt_token_ids r))"

definition max_total_len :: "Request \<Rightarrow> int" where
  "max_total_len r = prompt_len r + max_tokens (stop r)"

fun check_spans :: "int \<Rightarrow> int \<Rightarrow> (int \<times> nat) list \<Rightarrow> pyerror + unit" where
  "check_spans n previous_end [] = Inr ()"
| "check_spans n previous_end ((start, rows) # es) =
     (if start < previous_end \<or> start + int rows > n then Inl ValueError
      else check_spans n (start + int rows) es)"

definition mk_request :: "Request \<Rightarrow> pyerror + Request" where
  "mk_request r =
     ebind (require_text (rq_id r)) (\<lambda>_.
     ebind (traverse (\<lambda>t. require_int t 0) (prompt_token_ids r)) (\<lambda>_.
     ebind (check_spans (prompt_len r) 0 (multimodal r)) (\<lambda>_.
     if prompt_token_ids r = [] then Inl ValueError else Inr r)))"

record CancellationToken =
  tok_cancelled :: bool
  tok_reason :: string

definition token_cancel :: "string \<Rightarrow> CancellationToken \<Rightarrow> bool \<times> CancellationToken" where
  "token_cancel reason t =
     (if tok_cancelled t then (False, t) else (True, t\<lparr>tok_reason := reason, tok_cancelled := True\<rparr>))"

section \<open>One lifecycle\<close>

datatype FinishReason = FR_STOP | FR_LENGTH | FR_EOS | FR_ABORT | FR_ERROR | FR_TIMEOUT | FR_QUEUE_TIMEOUT

record RequestLifecycle =
  request :: Request
  machine :: RequestStateMachine
  token :: CancellationToken
  output_token_ids :: "int list"
  known_tokens :: "int list"
  finish_reason :: "FinishReason option"
  sequence :: "SequenceHandle option"
  binding_epoch :: int
  state_version :: int
  inflight :: "(int \<times> ScheduledSlice) option"
  input_snapshot :: "RequestStepInput option"
  forward_committed :: bool
  last_scheduled_step :: int

type_synonym lc_state = "RequestLifecycle \<times> int"

definition RequestLifecycle_init :: "Request \<Rightarrow> int \<Rightarrow> int \<Rightarrow> int \<Rightarrow> lc_state" where
  "RequestLifecycle_init r retries now ep =
     (let (m, ep') = RequestStateMachine_init (rq_id r)
                       (if rq_arrival_ns r \<noteq> 0 then rq_arrival_ns r else now) retries 16 ep in
      (\<lparr>request = r, machine = m, token = \<lparr>tok_cancelled = False, tok_reason = []\<rparr>, output_token_ids = [],
        known_tokens = prompt_token_ids r, finish_reason = None, sequence = None, binding_epoch = 0,
        state_version = 0, inflight = None, input_snapshot = None, forward_committed = False,
        last_scheduled_step = - 1\<rparr>, ep'))"

text \<open>A machine operation, a write and a guard, at the level of the lifecycle.\<close>

definition via_machine :: "(machine_state, 'a) py \<Rightarrow> (lc_state, 'a) py" where
  "via_machine f = (\<lambda>(lc, ep). case f (machine lc, ep) of (r, m, ep') \<Rightarrow> (r, lc\<lparr>machine := m\<rparr>, ep'))"

definition on_lc :: "(RequestLifecycle \<Rightarrow> RequestLifecycle) \<Rightarrow> (lc_state, unit) py" where
  "on_lc f = modify (\<lambda>(lc, ep). (f lc, ep))"

definition check_lc :: "(RequestLifecycle \<Rightarrow> pyerror + 'a) \<Rightarrow> (lc_state, 'a) py" where
  "check_lc f = reads (\<lambda>(lc, ep). f lc)"

definition stopped :: "RequestLifecycle \<Rightarrow> bool" where
  "stopped lc \<longleftrightarrow> is_terminal (machine lc) \<or> tok_cancelled (token lc)"

definition step_input :: "RequestLifecycle \<Rightarrow> SequenceHandle \<Rightarrow> int \<Rightarrow> int \<Rightarrow> RequestStepInput" where
  "step_input lc h ver computed =
     \<lparr>in_request_id = rq_id (request lc), in_sequence = h, in_epoch = sequence_epoch (machine lc),
      in_version = ver, in_prompt = prompt_len (request lc), in_known = known_tokens lc,
      in_computed = computed, in_max_output = max_tokens (stop (request lc))\<rparr>"

definition new_epoch :: "(lc_state, unit) py" where
  "new_epoch = (\<lambda>(lc, ep). (Inr (), (lc\<lparr>machine := (machine lc)\<lparr>sequence_epoch := ep\<rparr>\<rparr>, ep + 1)))"

definition renew_epoch :: "(lc_state, unit) py" where
  "renew_epoch = (\<lambda>(lc, ep). if sequence lc \<noteq> None then new_epoch (lc, ep) else ret () (lc, ep))"

definition bind_sequence :: "SequenceHandle \<Rightarrow> int \<Rightarrow> int \<Rightarrow> (lc_state, unit) py" where
  "bind_sequence h ver computed =
     andthen (check_lc (\<lambda>lc. require (inflight lc = None) ValueError)) (\<lambda>_.
     andthen (check_lc (\<lambda>lc. require (\<not> stopped lc) ValueError)) (\<lambda>_.
     andthen (check_lc (\<lambda>lc. require (num_prompt_tokens (machine lc) = prompt_len (request lc)) ValueError)) (\<lambda>_.
     andthen (check_lc (\<lambda>lc. mk_step_input (step_input lc h ver computed))) (\<lambda>v.
     andthen renew_epoch (\<lambda>_.
     on_lc (\<lambda>lc. lc\<lparr>sequence := Some h, binding_epoch := sequence_epoch (machine lc), state_version := in_version v,
                    machine := (machine lc)\<lparr>num_computed_tokens := computed, num_cached_tokens := computed\<rparr>\<rparr>))))))"

definition lc_snapshot :: "RequestLifecycle \<Rightarrow> pyerror + RequestStepInput" where
  "lc_snapshot lc =
     (case sequence lc of
        None \<Rightarrow> Inl ValueError
      | Some h \<Rightarrow>
          if binding_epoch lc \<noteq> sequence_epoch (machine lc) then Inl ValueError
          else if num_generated_tokens (machine lc) \<noteq> int (length (output_token_ids lc)) then Inl ValueError
          else mk_step_input (step_input lc h (state_version lc) (num_computed_tokens (machine lc))))"

definition validate_phase_state :: "ScheduledSlice \<Rightarrow> RequestLifecycle \<Rightarrow> pyerror + unit" where
  "validate_phase_state s lc =
     require (mstate (machine lc) \<in> set (if phase s = PhasePrefill then [ADMITTED, PREFILL]
                                         else [ADMITTED, DECODING, STREAMING])) ValueError"

definition validate_begin_slice :: "int \<Rightarrow> ScheduledSlice \<Rightarrow> RequestLifecycle \<Rightarrow> pyerror + RequestStepInput" where
  "validate_begin_slice step s lc =
     ebind (require_int step 0) (\<lambda>_.
     ebind (require (inflight lc = None) ValueError) (\<lambda>_.
     ebind (require (\<not> stopped lc) ValueError) (\<lambda>_.
     ebind (require (last_scheduled_step lc < step) ValueError) (\<lambda>_.
     ebind (lc_snapshot lc) (\<lambda>v.
     ebind (validate_slice v s) (\<lambda>_.
     ebind (validate_phase_state s lc) (\<lambda>_. Inr v)))))))"

text \<open>
  The transition out of ADMITTED, by the phase of the slice; \<open>begin_slice\<close> and both commits
  make it.
\<close>

definition start_executing :: "ScheduledSlice \<Rightarrow> int \<Rightarrow> (lc_state, unit) py" where
  "start_executing s ts = (\<lambda>(lc, ep).
     if mstate (machine lc) = ADMITTED
     then discard (via_machine (transition (if phase s = PhasePrefill then PREFILL else DECODING) ts)) (lc, ep)
     else ret () (lc, ep))"

definition begin_slice :: "int \<Rightarrow> ScheduledSlice \<Rightarrow> int \<Rightarrow> (lc_state, RequestStepInput) py" where
  "begin_slice step s ts =
     andthen (check_lc (validate_begin_slice step s)) (\<lambda>v.
     andthen (start_executing s ts) (\<lambda>_.
     andthen (on_lc (\<lambda>lc. lc\<lparr>inflight := Some (step, s), input_snapshot := Some v, forward_committed := False,
                            last_scheduled_step := step\<rparr>)) (\<lambda>_. ret v)))"

definition owns_slice :: "int \<Rightarrow> ScheduledSlice \<Rightarrow> RequestLifecycle \<Rightarrow> bool" where
  "owns_slice step s lc \<longleftrightarrow> inflight lc = Some (step, s)"

definition accepts_completion :: "int \<Rightarrow> ScheduledSlice \<Rightarrow> RequestLifecycle \<Rightarrow> bool" where
  "accepts_completion step s lc \<longleftrightarrow>
     owns_slice step s lc \<and> sequence_epoch (machine lc) = sl_epoch s \<and> \<not> is_terminal (machine lc) \<and>
     \<not> tok_cancelled (token lc)"

definition require_slice :: "int \<Rightarrow> ScheduledSlice \<Rightarrow> RequestLifecycle \<Rightarrow> pyerror + unit" where
  "require_slice step s lc =
     (if inflight lc \<noteq> Some (step, s) then Inl ValueError
      else if sl_epoch s \<noteq> sequence_epoch (machine lc) \<or> stopped lc then Inl ValueError
      else Inr ())"

text \<open>
  The comparison with the snapshot taken at the start of the slice: the field tests and the
  debug test of the whole record amount to equality.  The sequence handle is compared by
  identity in the first of them; it is the same object because a request cannot be rebound
  while a slice is unfinished.
\<close>

definition validate_forward_commit :: "int \<Rightarrow> ScheduledSlice \<Rightarrow> int \<Rightarrow> RequestLifecycle \<Rightarrow> pyerror + unit" where
  "validate_forward_commit step s ver lc =
     ebind (require_slice step s lc) (\<lambda>_.
     ebind (require (\<not> forward_committed lc) ValueError) (\<lambda>_.
     ebind (require_int ver 0) (\<lambda>_.
     ebind (require (ver = expected_state_version s + 1) ValueError) (\<lambda>_.
     ebind (validate_phase_state s lc) (\<lambda>_.
     ebind (lc_snapshot lc) (\<lambda>v.
     ebind (validate_slice v s) (\<lambda>_.
     case input_snapshot lc of
       None \<Rightarrow> Inl AssertionError
     | Some baseline \<Rightarrow> require (v = baseline) ValueError)))))))"

definition clear_slice :: "RequestLifecycle \<Rightarrow> RequestLifecycle" where
  "clear_slice lc = lc\<lparr>inflight := None, input_snapshot := None, forward_committed := False\<rparr>"

definition commit_computed_range :: "int \<Rightarrow> ScheduledSlice \<Rightarrow> int \<Rightarrow> int \<Rightarrow> (lc_state, unit) py" where
  "commit_computed_range step s ver ts =
     andthen (check_lc (validate_forward_commit step s ver)) (\<lambda>_.
     andthen (start_executing s ts) (\<lambda>_.
     andthen (via_machine (commit_range (query_start s) (query_count s))) (\<lambda>_.
     andthen (on_lc (\<lambda>lc. lc\<lparr>state_version := ver\<rparr>)) (\<lambda>_.
     andthen (\<lambda>(lc, ep).
        if phase s = PhasePrefill \<and> query_end s = prompt_len (request lc)
        then discard (via_machine (transition DECODING ts)) (lc, ep)
        else ret () (lc, ep)) (\<lambda>_.
     on_lc (\<lambda>lc. let lc1 = lc\<lparr>forward_committed := True\<rparr>
                 in if \<not> sample_last_query s then clear_slice lc1 else lc1))))))"

definition append_output :: "int \<Rightarrow> RequestLifecycle \<Rightarrow> RequestLifecycle" where
  "append_output t lc = lc\<lparr>output_token_ids := output_token_ids lc @ [t], known_tokens := known_tokens lc @ [t]\<rparr>"

definition publish_sample :: "int \<Rightarrow> ScheduledSlice \<Rightarrow> int \<Rightarrow> int \<Rightarrow> (lc_state, unit) py" where
  "publish_sample step s t ts =
     andthen (check_lc (require_slice step s)) (\<lambda>_.
     andthen (check_lc (\<lambda>_. require_int t 0)) (\<lambda>_.
     andthen (check_lc (\<lambda>lc. require (forward_committed lc \<and> sample_last_query s) ValueError)) (\<lambda>_.
     andthen (check_lc (\<lambda>lc. require (int (length (output_token_ids lc)) < max_tokens (stop (request lc))) ValueError)) (\<lambda>_.
     andthen (via_machine (on_token_generated 1)) (\<lambda>_.
     andthen (via_machine (mark_published ts)) (\<lambda>_.
     on_lc (\<lambda>lc. clear_slice (append_output t lc))))))))"

text \<open>
  The loop of \<open>commit_speculative_range\<close>: one row and one token at a time.  The code reads the
  clock for each token; the model reads it once per call.
\<close>

fun settle_tokens :: "int \<Rightarrow> int list \<Rightarrow> int \<Rightarrow> (lc_state, unit) py" where
  "settle_tokens pos [] ts = ret ()"
| "settle_tokens pos (t # rest) ts =
     andthen (via_machine (commit_range pos 1)) (\<lambda>_.
     andthen (via_machine (on_token_generated 1)) (\<lambda>_.
     andthen (via_machine (mark_published ts)) (\<lambda>_.
     andthen (on_lc (append_output t)) (\<lambda>_.
     settle_tokens (pos + 1) rest ts))))"

definition commit_speculative_range ::
  "int \<Rightarrow> ScheduledSlice \<Rightarrow> int list \<Rightarrow> int \<Rightarrow> int \<Rightarrow> (lc_state, unit) py" where
  "commit_speculative_range step s tks ver ts =
     andthen (check_lc (validate_forward_commit step s ver)) (\<lambda>_.
     andthen (check_lc (\<lambda>_. require (phase s = PhaseDecode \<and> sample_last_query s) ValueError)) (\<lambda>_.
     andthen (check_lc (\<lambda>_. require (tks \<noteq> []) ValueError)) (\<lambda>_.
     andthen (check_lc (\<lambda>_. traverse (\<lambda>t. require_int t 0) tks)) (\<lambda>_.
     andthen (check_lc (\<lambda>lc. require (int (length (output_token_ids lc)) + int (length tks)
                                       \<le> max_tokens (stop (request lc))) ValueError)) (\<lambda>_.
     andthen (start_executing s ts) (\<lambda>_.
     andthen (settle_tokens (query_start s) tks ts) (\<lambda>_.
     on_lc (\<lambda>lc. clear_slice (lc\<lparr>state_version := ver\<rparr>)))))))))"

definition discard_slice :: "int \<Rightarrow> ScheduledSlice \<Rightarrow> (lc_state, unit) py" where
  "discard_slice step s =
     andthen (check_lc (\<lambda>lc. require (inflight lc = Some (step, s)) ValueError)) (\<lambda>_.
     andthen (on_lc clear_slice) (\<lambda>_. new_epoch))"

section \<open>Reports\<close>

datatype RequestOutcome =
    O_QUEUED | O_WAITING_ON_KV | O_ADMITTED | O_PREFILL_CHUNK | O_PREFILL_DONE | O_DECODED | O_STREAMED
  | O_PREEMPTED_RECOMPUTE | O_PREEMPTED_SWAP | O_RESUMED | O_FINISHED | O_ABORTED | O_FAILED

record RequestReport =
  rep_request_id :: string
  outcome :: RequestOutcome
  rep_epoch :: int
  completed_slice :: "ScheduledSlice option"
  committed_state_version :: "int option"
  new_token_ids :: "int list"
  rep_cached_tokens :: int
  rep_finish_reason :: "FinishReason option"
  detail :: string

definition computational :: "RequestOutcome \<Rightarrow> bool" where
  "computational oc \<longleftrightarrow> oc \<in> set [O_PREFILL_CHUNK, O_PREFILL_DONE, O_DECODED]"

definition report_validate :: "RequestReport \<Rightarrow> pyerror + unit" where
  "report_validate e =
     ebind (require_text (rep_request_id e)) (\<lambda>_.
     ebind (require_int (rep_epoch e) 1) (\<lambda>_.
     ebind (require_int (rep_cached_tokens e) 0) (\<lambda>_.
     if outcome e = O_FINISHED \<and> rep_finish_reason e = None then Inl ValueError
     else ebind (traverse (\<lambda>t. require_int t 0) (new_token_ids e)) (\<lambda>_.
     if \<not> computational (outcome e)
     then (if completed_slice e \<noteq> None \<or> committed_state_version e \<noteq> None then Inl ValueError
           else require (new_token_ids e = []) ValueError)
     else case (completed_slice e, committed_state_version e) of
       (Some s, Some v) \<Rightarrow>
         if sl_request_id s \<noteq> rep_request_id e \<or> sl_epoch s \<noteq> rep_epoch e then Inl ValueError
         else if v < 0 then Inl ValueError
         else if v \<noteq> expected_state_version s + 1 then Inl ValueError
         else if (outcome e = O_DECODED) \<noteq> (phase s = PhaseDecode) then Inl ValueError
         else if outcome e = O_PREFILL_CHUNK \<and> sample_last_query s then Inl ValueError
         else require (length (new_token_ids e) = (if sample_last_query s then 1 else 0)) ValueError
     | _ \<Rightarrow> Inl ValueError))))"

record SchedulerReport =
  srep_step_id :: int
  reports :: "RequestReport list"

definition scheduler_report_validate :: "SchedulerReport \<Rightarrow> pyerror + unit" where
  "scheduler_report_validate sr =
     ebind (require_int (srep_step_id sr) 0) (\<lambda>_.
     require (distinct (map rep_request_id (reports sr))) ValueError)"

fun outcome_state :: "RequestOutcome \<Rightarrow> RequestState option" where
  "outcome_state O_QUEUED = Some WAITING"
| "outcome_state O_WAITING_ON_KV = Some WAITING_KV"
| "outcome_state O_ADMITTED = Some ADMITTED"
| "outcome_state O_PREFILL_CHUNK = Some PREFILL"
| "outcome_state O_PREFILL_DONE = Some DECODING"
| "outcome_state O_DECODED = None"
| "outcome_state O_STREAMED = Some STREAMING"
| "outcome_state O_PREEMPTED_RECOMPUTE = Some PREEMPTED"
| "outcome_state O_PREEMPTED_SWAP = Some SWAPPED"
| "outcome_state O_RESUMED = Some WAITING"
| "outcome_state O_FINISHED = Some FINISHED"
| "outcome_state O_ABORTED = Some CANCELLED"
| "outcome_state O_FAILED = Some FAILED"

text \<open>\<open>entry.detail or default\<close>.\<close>

definition or_default :: "string \<Rightarrow> string \<Rightarrow> string" where
  "or_default s d = (if s = [] then d else s)"

text \<open>
  The part of \<open>apply_one\<close> that acts on the addressed lifecycle.  The result says whether the
  lifecycle is to be retired when terminal; the compute outcomes return before that.
\<close>

definition apply_compute :: "RequestReport \<Rightarrow> int \<Rightarrow> int \<Rightarrow> (lc_state, bool) py" where
  "apply_compute e step ts =
     (case (completed_slice e, committed_state_version e) of
        (Some s, Some v) \<Rightarrow>
          andthen (check_lc (\<lambda>lc. require (phase s = PhasePrefill \<longrightarrow>
             outcome e = (if query_end s = prompt_len (request lc) then O_PREFILL_DONE else O_PREFILL_CHUNK)) ValueError)) (\<lambda>_.
          andthen (check_lc (validate_forward_commit step s v)) (\<lambda>_.
          andthen (commit_computed_range step s v ts) (\<lambda>_.
          andthen (if new_token_ids e \<noteq> [] then publish_sample step s (hd (new_token_ids e)) ts else ret ()) (\<lambda>_.
          ret False))))
      | _ \<Rightarrow> raise AssertionError)"

definition apply_transition :: "RequestReport \<Rightarrow> int \<Rightarrow> (lc_state, bool) py" where
  "apply_transition e ts =
     (case outcome_state (outcome e) of
        None \<Rightarrow> ret False
      | Some target \<Rightarrow>
          andthen
           (if outcome e = O_FINISHED then
              andthen (check_lc (\<lambda>lc. require (inflight lc = None) ValueError)) (\<lambda>_.
              andthen (on_lc (\<lambda>lc. lc\<lparr>finish_reason := rep_finish_reason e\<rparr>)) (\<lambda>_.
              via_machine (on_finished ts)))
            else if outcome e = O_ABORTED then
              andthen (on_lc (\<lambda>lc. lc\<lparr>token := snd (token_cancel (or_default (detail e) ''aborted by scheduler'') (token lc))\<rparr>)) (\<lambda>_.
              andthen (on_lc (\<lambda>lc. if rep_finish_reason e \<noteq> None then lc\<lparr>finish_reason := rep_finish_reason e\<rparr> else lc)) (\<lambda>_.
              via_machine (on_cancelled ts)))
            else if outcome e = O_FAILED then
              via_machine (on_failed (or_default (detail e) ''scheduler reported failure'') ts)
            else if outcome e = O_STREAMED then via_machine (on_streamed ts)
            else (\<lambda>(lc, ep).
              if outcome e = O_QUEUED \<and> mstate (machine lc) = WAITING then ret () (lc, ep)
              else discard (via_machine (transition target ts)) (lc, ep)))
           (\<lambda>_. ret True))"

definition apply_report :: "RequestReport \<Rightarrow> int \<Rightarrow> int \<Rightarrow> (lc_state, bool) py" where
  "apply_report e step ts =
     (if computational (outcome e) then apply_compute e step ts else apply_transition e ts)"

section \<open>Queueing\<close>

text \<open>The pipeline that \<open>advance_to_queue\<close> drives on the machine of the addressed lifecycle.\<close>

definition enter_queue :: "int \<Rightarrow> bool \<Rightarrow> int \<Rightarrow> (lc_state, unit) py" where
  "enter_queue cached defer_remote ts =
     andthen (via_machine (on_validating ts)) (\<lambda>_.
     andthen (via_machine (on_validated ts)) (\<lambda>_.
     andthen (\<lambda>(lc, ep). via_machine (on_tokenized (prompt_len (request lc)) ts) (lc, ep)) (\<lambda>_.
     if defer_remote then via_machine (on_remote_kv_wait ts)
     else via_machine (on_cache_looked_up cached ts))))"

end
