(* ===== verification/Lifecycle_Invariant.thy ===== *)
theory Lifecycle_Invariant
  imports Request_Lifecycle Request_Properties Plan_Properties
begin

text \<open>
  The invariant of a request lifecycle and that every operation keeps it: the known tokens
  are the prompt followed by the published output, the counters agree with them, and an
  unfinished slice that may still complete is in step with the snapshot taken when it began.
\<close>

section \<open>Running the lifecycle combinators\<close>

lemma run_check_lc [simp]:
  "andthen (check_lc c) f (lc, ep) = (case c lc of Inl e \<Rightarrow> (Inl e, lc, ep) | Inr x \<Rightarrow> f x (lc, ep))"
  by (simp add: andthen_def check_lc_def split: sum.split)

lemma run_on_lc [simp]: "on_lc g (lc, ep) = (Inr (), g lc, ep)" "andthen (on_lc g) f (lc, ep) = f () (g lc, ep)"
  by (simp_all add: andthen_def on_lc_def)

lemma run_via_machine: "x (machine lc, ep) = (r, m, ep') \<Longrightarrow> via_machine x (lc, ep) = (r, lc\<lparr>machine := m\<rparr>, ep')"
  by (simp add: via_machine_def)

lemma snd_via_machine: "snd (via_machine x (lc, ep)) = (lc\<lparr>machine := fst (snd (x (machine lc, ep)))\<rparr>, snd (snd (x (machine lc, ep))))"
  by (simp add: via_machine_def split: prod.split)

lemma run_andthen: "x s = (Inr y, s') \<Longrightarrow> andthen x f s = f y s'"
  by (simp add: andthen_def)

lemma run_andthen_Inl: "x s = (Inl e, s') \<Longrightarrow> andthen x f s = (Inl e, s')"
  by (simp add: andthen_def)

lemma require_cases [simp]: "(case require c e of Inl x \<Rightarrow> f x | Inr y \<Rightarrow> g y) = (if c then g () else f e)"
  by (simp add: require_def)

section \<open>The invariant\<close>

definition request_ok :: "Request \<Rightarrow> bool" where
  "request_ok r \<longleftrightarrow> mk_request r = Inr r \<and> mk_stop (stop r) = Inr (stop r)"

lemma request_okD:
  assumes "request_ok r"
  shows "require_text (rq_id r) = Inr ()" "traverse (\<lambda>t. require_int t 0) (prompt_token_ids r) \<noteq> Inl e"
    "1 \<le> prompt_len r" "1 \<le> max_tokens (stop r)" "\<forall>t\<in>set (prompt_token_ids r). 0 \<le> t"
proof -
  from assms obtain ys where ys: "traverse (\<lambda>t. require_int t 0) (prompt_token_ids r) = Inr ys"
    and rest: "require_text (rq_id r) = Inr ()" "prompt_token_ids r \<noteq> []" "1 \<le> max_tokens (stop r)"
    by (auto simp: request_ok_def mk_request_def mk_stop_def ebind_Inr_iff split: if_splits)
  show "\<forall>t\<in>set (prompt_token_ids r). 0 \<le> t" using traverse_Inr_mem [OF ys] by fastforce
  show "1 \<le> prompt_len r" using rest(2) by (cases "prompt_token_ids r") (auto simp: prompt_len_def)
  show "traverse (\<lambda>t. require_int t 0) (prompt_token_ids r) \<noteq> Inl e" by (simp add: ys)
qed (use assms in \<open>auto simp: request_ok_def mk_request_def mk_stop_def ebind_Inr_iff split: if_splits\<close>)

abbreviation early :: "RequestState \<Rightarrow> bool" where
  "early s \<equiv> s \<in> set [CREATED, VALIDATING, TOKENIZING]"

definition output_ok :: "RequestLifecycle \<Rightarrow> bool" where
  "output_ok lc \<longleftrightarrow>
     request_ok (request lc) \<and> known_tokens lc = prompt_token_ids (request lc) @ output_token_ids lc \<and>
     num_generated_tokens (machine lc) = int (length (output_token_ids lc)) \<and>
     int (length (output_token_ids lc)) \<le> max_tokens (stop (request lc)) \<and> (\<forall>t\<in>set (output_token_ids lc). 0 \<le> t) \<and>
     num_prompt_tokens (machine lc) \<in> {0, prompt_len (request lc)} \<and>
     (early (mstate (machine lc)) \<longrightarrow> num_prompt_tokens (machine lc) = 0) \<and>
     (sequence lc \<noteq> None \<longrightarrow> num_prompt_tokens (machine lc) = prompt_len (request lc)) \<and> 0 \<le> state_version lc"

text \<open>A slice that may still complete, before and after its forward range is committed.\<close>

definition slice_ready :: "ScheduledSlice \<Rightarrow> RequestStepInput \<Rightarrow> RequestLifecycle \<Rightarrow> bool" where
  "slice_ready s b0 lc \<longleftrightarrow>
     validate_slice b0 s = Inr () \<and>
     (if forward_committed lc
      then sample_last_query s \<and> num_computed_tokens (machine lc) = query_end s \<and>
        query_end s = int (length (known_tokens lc)) \<and> mstate (machine lc) \<in> set [DECODING, STREAMING] \<and>
        num_prompt_tokens (machine lc) = prompt_len (request lc) \<and>
        int (length (output_token_ids lc)) < max_tokens (stop (request lc))
      else lc_snapshot lc = Inr b0 \<and> num_prompt_tokens (machine lc) = prompt_len (request lc) \<and>
        mstate (machine lc) \<in> set (if phase s = PhasePrefill then [PREFILL] else [DECODING, STREAMING]))"

definition flight_ok :: "lc_state \<Rightarrow> bool" where
  "flight_ok = (\<lambda>(lc, ep).
     case inflight lc of
       None \<Rightarrow> input_snapshot lc = None \<and> \<not> forward_committed lc
     | Some (step, s) \<Rightarrow>
         step = last_scheduled_step lc \<and> sl_epoch s < ep \<and> slice_validate s = Inr () \<and>
         (\<exists>b0. input_snapshot lc = Some b0 \<and>
            (sl_epoch s = sequence_epoch (machine lc) \<and> \<not> is_terminal (machine lc) \<longrightarrow> slice_ready s b0 lc)))"

definition lc_inv :: "lc_state \<Rightarrow> bool" where
  "lc_inv = (\<lambda>(lc, ep). machine_inv (machine lc, ep) \<and> 1 \<le> sequence_epoch (machine lc) \<and> output_ok lc \<and> flight_ok (lc, ep) \<and>
     machine_id (machine lc) = rq_id (request lc))"

lemma lc_invD:
  assumes "lc_inv (lc, ep)"
  shows "machine_inv (machine lc, ep)" "1 \<le> sequence_epoch (machine lc)" "output_ok lc" "flight_ok (lc, ep)"
    "sequence_epoch (machine lc) < ep" "machine_id (machine lc) = rq_id (request lc)"
  using assms by (simp_all add: lc_inv_def machine_inv_def)

lemma lc_invI:
  "machine_inv (machine lc, ep) \<Longrightarrow> 1 \<le> sequence_epoch (machine lc) \<Longrightarrow> output_ok lc \<Longrightarrow> flight_ok (lc, ep) \<Longrightarrow>
   machine_id (machine lc) = rq_id (request lc) \<Longrightarrow> lc_inv (lc, ep)"
  by (simp add: lc_inv_def)

lemma progress_bound:
  assumes "lc_inv (lc, ep)"
  shows "0 \<le> num_computed_tokens (machine lc)" "num_computed_tokens (machine lc) \<le> int (length (known_tokens lc))"
  using assms by (auto simp: lc_inv_def machine_inv_def tokens_ok_def output_ok_def prompt_len_def)

text \<open>A current binding can always be captured.\<close>

lemma step_input_valid:
  assumes inv: "lc_inv (lc, ep)" and v: "0 \<le> ver" "0 \<le> c" "c \<le> int (length (known_tokens lc))"
  shows "mk_step_input (step_input lc h ver c) = Inr (step_input lc h ver c)"
proof -
  note O = lc_invD(3) [OF inv, unfolded output_ok_def]
  note R = request_okD [OF O [THEN conjunct1]]
  have "\<exists>ys. traverse (\<lambda>t. require_int t 0) (known_tokens lc) = Inr ys"
    using O R(5) by (intro traverse_total) (auto simp: require_int_def)
  then obtain ys where "traverse (\<lambda>t. require_int t 0) (known_tokens lc) = Inr ys" ..
  with O R v lc_invD(2) [OF inv] show ?thesis
    by (simp add: mk_step_input_def input_validate_def step_input_def require_int_def require_def prompt_len_def)
qed

lemma snapshot_current:
  assumes inv: "lc_inv (lc, ep)" and "sequence lc = Some h" "binding_epoch lc = sequence_epoch (machine lc)"
  shows "lc_snapshot lc = Inr (step_input lc h (state_version lc) (num_computed_tokens (machine lc)))"
  using assms progress_bound [OF inv] lc_invD(3) [OF inv]
  by (simp add: lc_snapshot_def step_input_valid [OF inv] output_ok_def)

lemma snapshot_Inr:
  "lc_snapshot lc = Inr v \<Longrightarrow> \<exists>h. sequence lc = Some h \<and> binding_epoch lc = sequence_epoch (machine lc) \<and>
     v = step_input lc h (state_version lc) (num_computed_tokens (machine lc))"
  by (auto simp: lc_snapshot_def mk_step_input_def ebind_Inr_iff split: option.splits if_splits)

section \<open>Machine operations below a lifecycle\<close>

text \<open>
  A machine operation that leaves an unfinished slice in step: it changes no token count,
  and either starts a new incarnation, ends the request, or keeps the executing state.
\<close>

definition calm :: "int \<Rightarrow> RequestStateMachine \<Rightarrow> RequestStateMachine \<Rightarrow> bool" where
  "calm ep m m' \<longleftrightarrow>
     num_generated_tokens m' = num_generated_tokens m \<and> num_prompt_tokens m' = num_prompt_tokens m \<and>
     machine_id m' = machine_id m \<and> (early (mstate m') \<longrightarrow> early (mstate m)) \<and> (is_terminal m \<longrightarrow> is_terminal m') \<and>
     (sequence_epoch m' = ep \<or> sequence_epoch m' = sequence_epoch m \<and>
        (is_terminal m' \<or> mstate m \<notin> set [PREFILL, DECODING, STREAMING] \<or>
         num_computed_tokens m' = num_computed_tokens m \<and>
           (mstate m' = mstate m \<or> mstate m = DECODING \<and> mstate m' = STREAMING)))"

lemma calm_refl [simp]: "calm ep m m"
  by (simp add: calm_def)

lemma calm_flags [simp]:
  "calm ep (m\<lparr>cancel_requested := b\<rparr>) m' = calm ep m m'" "calm ep (m\<lparr>failure_reason := r\<rparr>) m' = calm ep m m'"
  "calm ep m (m'\<lparr>cancel_requested := b\<rparr>) = calm ep m m'" "calm ep m (m'\<lparr>failure_reason := r\<rparr>) = calm ep m m'"
  by (simp_all add: calm_def is_terminal_def num_generated_tokens_def)

lemma calm_streamed [simp]: "calm ep m (m\<lparr>timing := mark_streamed ts (timing m)\<rparr>)"
  by (simp add: calm_def is_terminal_def num_generated_tokens_def)

lemma calm_transition:
  assumes "d \<notin> set [PREFILL, DECODING, PAUSED, MIGRATING]"
  shows "calm ep m (fst (snd (transition d ts (m, ep))))"
proof (cases "is_legal (mstate m) d")
  case True
  have "\<not> early d \<or> early (mstate m)" "mstate m \<notin> set TERMINAL_STATES"
    using True legal_into_early [of "mstate m"] not_legal_from_terminal by auto
  moreover have "new_incarnation d \<or> d \<in> set TERMINAL_STATES \<or> mstate m \<notin> set [PREFILL, DECODING, STREAMING] \<or>
      mstate m = DECODING \<and> d = STREAMING \<and> d \<noteq> PREEMPTED"
    using True assms
    by (cases "mstate m"; cases d; simp add: is_legal_def legal_targets_def TERMINAL_STATES_def new_incarnation_def)
  ultimately show ?thesis
    using True by (auto simp: transition_def Let_def calm_def is_terminal_def num_generated_tokens_def)
next
  case False
  then show ?thesis by (simp add: transition_def)
qed

lemma lc_inv_machine:
  assumes inv: "lc_inv (lc, ep)" and m: "machine_inv (m, ep')" and calm: "calm ep (machine lc) m" and ep: "ep \<le> ep'"
  shows "lc_inv (lc\<lparr>machine := m\<rparr>, ep')"
proof (rule lc_invI)
  note I = lc_invD [OF inv]
  show "machine_inv (machine (lc\<lparr>machine := m\<rparr>), ep')" using m by simp
  show "1 \<le> sequence_epoch (machine (lc\<lparr>machine := m\<rparr>))" using calm I(2,5) by (auto simp: calm_def)
  show "output_ok (lc\<lparr>machine := m\<rparr>)" using calm I(3) by (auto simp: calm_def output_ok_def)
  show "machine_id (machine (lc\<lparr>machine := m\<rparr>)) = rq_id (request (lc\<lparr>machine := m\<rparr>))" using calm I(6) by (simp add: calm_def)
  show "flight_ok (lc\<lparr>machine := m\<rparr>, ep')"
  proof (cases "inflight lc")
    case None
    with I(4) show ?thesis by (simp add: flight_ok_def)
  next
    case (Some f)
    obtain step s where f: "f = (step, s)" by force
    with Some I(4) obtain b0 where b0: "step = last_scheduled_step lc" "sl_epoch s < ep" "slice_validate s = Inr ()"
      "input_snapshot lc = Some b0"
      "sl_epoch s = sequence_epoch (machine lc) \<and> \<not> is_terminal (machine lc) \<longrightarrow> slice_ready s b0 lc"
      by (auto simp: flight_ok_def)
    have "slice_ready s b0 (lc\<lparr>machine := m\<rparr>)" if e: "sl_epoch s = sequence_epoch m" and t: "\<not> is_terminal m"
    proof -
      from e b0(2) calm t have same: "sequence_epoch m = sequence_epoch (machine lc)" "\<not> is_terminal (machine lc)"
        by (auto simp: calm_def)
      with b0(5) e have ready: "slice_ready s b0 lc" by simp
      then have "mstate (machine lc) \<in> set [PREFILL, DECODING, STREAMING]"
        by (auto simp: slice_ready_def split: if_splits)
      with calm t same(1) b0(2) e
      have st: "num_computed_tokens m = num_computed_tokens (machine lc)" "num_generated_tokens m = num_generated_tokens (machine lc)"
        "num_prompt_tokens m = num_prompt_tokens (machine lc)"
        "mstate m = mstate (machine lc) \<or> mstate (machine lc) = DECODING \<and> mstate m = STREAMING"
        by (auto simp: calm_def)
      have "lc_snapshot (lc\<lparr>machine := m\<rparr>) = lc_snapshot lc"
        using st same(1) by (simp add: lc_snapshot_def step_input_def split: option.split)
      with ready st show ?thesis by (auto simp: slice_ready_def split: if_splits)
    qed
    with Some f b0 ep show ?thesis by (simp add: flight_ok_def)
  qed
qed

lemma transition_epoch_mono: "ep \<le> snd (snd (transition d ts (m, ep)))"
  by (simp add: transition_def Let_def)

lemma lc_inv_transition:
  assumes inv: "lc_inv (lc, ep)" and d: "d \<notin> set [PREFILL, DECODING, PAUSED, MIGRATING, RETRYING]"
  shows "lc_inv (snd (via_machine (transition d ts) (lc, ep)))"
proof -
  have "machine_inv (snd (transition d ts (machine lc, ep)))" using d lc_invD(1) [OF inv] by (intro transition_inv) auto
  then show ?thesis unfolding snd_via_machine
    using d by (intro lc_inv_machine [OF inv] calm_transition transition_epoch_mono) auto
qed

text \<open>The flags a machine sets before a transition.\<close>

lemma lc_inv_flag:
  assumes "lc_inv (lc, ep)"
  shows "lc_inv (lc\<lparr>machine := (machine lc)\<lparr>cancel_requested := b\<rparr>\<rparr>, ep)"
    "lc_inv (lc\<lparr>machine := (machine lc)\<lparr>failure_reason := r\<rparr>\<rparr>, ep)"
  using lc_invD(1) [OF assms] by (auto intro!: lc_inv_machine [OF assms] machine_inv_flags)

lemma via_flagged:
  "via_machine (\<lambda>(m, ep). f (g m, ep)) (lc, ep) = via_machine f (lc\<lparr>machine := g (machine lc)\<rparr>, ep)"
  by (simp add: via_machine_def split: prod.split)

lemma snd_via_discard: "snd (via_machine (discard x) s) = snd (via_machine x s)"
  by (cases s) (simp add: snd_via_machine)

lemma lc_inv_cancelled: "lc_inv (lc, ep) \<Longrightarrow> lc_inv (snd (via_machine (on_cancelled ts) (lc, ep)))"
proof -
  assume inv: "lc_inv (lc, ep)"
  let ?lc = "lc\<lparr>machine := (machine lc)\<lparr>cancel_requested := True\<rparr>\<rparr>"
  have "via_machine (on_cancelled ts) (lc, ep) =
      (if is_terminal (machine lc) then (Inr (), ?lc, ep) else via_machine (discard (transition CANCELLED ts)) (?lc, ep))"
    by (simp add: via_machine_def on_cancelled_def Let_def is_terminal_def split: prod.split)
  with inv show ?thesis by (simp add: lc_inv_flag snd_via_discard lc_inv_transition)
qed

lemma lc_inv_failed: "lc_inv (lc, ep) \<Longrightarrow> lc_inv (snd (via_machine (on_failed r ts) (lc, ep)))"
proof -
  assume inv: "lc_inv (lc, ep)"
  let ?lc = "lc\<lparr>machine := (machine lc)\<lparr>failure_reason := r\<rparr>\<rparr>"
  have "via_machine (on_failed r ts) (lc, ep) =
      (if is_terminal (machine lc) then (Inr (), ?lc, ep) else via_machine (discard (transition FAILED ts)) (?lc, ep))"
    by (simp add: via_machine_def on_failed_def Let_def is_terminal_def split: prod.split)
  with inv show ?thesis by (simp add: lc_inv_flag snd_via_discard lc_inv_transition)
qed

lemma lc_inv_published: "lc_inv (lc, ep) \<Longrightarrow> lc_inv (lc\<lparr>machine := (machine lc)\<lparr>timing := mark_streamed ts (timing (machine lc))\<rparr>\<rparr>, ep)"
  using lc_invD(1) by (auto intro!: lc_inv_machine machine_inv_streamed)

lemma lc_inv_streamed: "lc_inv (lc, ep) \<Longrightarrow> lc_inv (snd (via_machine (on_streamed ts) (lc, ep)))"
proof -
  assume inv: "lc_inv (lc, ep)"
  have "via_machine (on_streamed ts) (lc, ep) =
      (if mstate (machine lc) = STREAMING then via_machine (mark_published ts) (lc, ep)
       else via_machine (discard (transition STREAMING ts)) (lc, ep))"
    by (simp add: via_machine_def on_streamed_def)
  with inv show ?thesis
    by (simp add: snd_via_discard lc_inv_transition) (simp add: via_machine_def mark_published_def lc_inv_published)
qed

section \<open>Operations of the lifecycle\<close>

lemma machine_inv_epoch: "machine_inv (m, ep) \<Longrightarrow> machine_inv (m\<lparr>sequence_epoch := ep\<rparr>, ep + 1)"
  by (simp add: machine_inv_def)

lemma run_renew_epoch [simp]:
  "andthen renew_epoch f (lc, ep) =
     (if sequence lc \<noteq> None then f () (lc\<lparr>machine := (machine lc)\<lparr>sequence_epoch := ep\<rparr>\<rparr>, ep + 1) else f () (lc, ep))"
  by (simp add: andthen_def renew_epoch_def new_epoch_def)

lemma flight_none: "inflight lc = None \<Longrightarrow> input_snapshot lc = None \<Longrightarrow> \<not> forward_committed lc \<Longrightarrow> flight_ok (lc, ep)"
  by (simp add: flight_ok_def)

lemma bind_sequence_cases:
  obtains (fail) e where "bind_sequence h ver c (lc, ep) = (Inl e, lc, ep)"
  | (ok) m ep' where "bind_sequence h ver c (lc, ep) = (Inr (), lc\<lparr>sequence := Some h, binding_epoch := sequence_epoch m,
        state_version := ver, machine := m\<lparr>num_computed_tokens := c, num_cached_tokens := c\<rparr>\<rparr>, ep')"
      "(m, ep') = (if sequence lc \<noteq> None then ((machine lc)\<lparr>sequence_epoch := ep\<rparr>, ep + 1) else (machine lc, ep))"
      "inflight lc = None" "\<not> stopped lc" "num_prompt_tokens (machine lc) = prompt_len (request lc)"
      "0 \<le> ver" "0 \<le> c" "c \<le> int (length (known_tokens lc))"
proof -
  let ?v = "step_input lc h ver c"
  consider "inflight lc \<noteq> None \<or> stopped lc \<or> num_prompt_tokens (machine lc) \<noteq> prompt_len (request lc)"
    | (invalid) e where "inflight lc = None" "\<not> stopped lc" "num_prompt_tokens (machine lc) = prompt_len (request lc)" "mk_step_input ?v = Inl e"
    | (valid) v where "inflight lc = None" "\<not> stopped lc" "num_prompt_tokens (machine lc) = prompt_len (request lc)" "mk_step_input ?v = Inr v"
    by (cases "mk_step_input ?v") blast+
  then show thesis
  proof cases
    case 1
    then show thesis by (intro fail [of ValueError]) (auto simp: bind_sequence_def)
  next
    case invalid
    then show thesis by (intro fail [of e]) (simp add: bind_sequence_def)
  next
    case valid
    then have v: "v = ?v" "0 \<le> ver" "0 \<le> c" "c \<le> int (length (known_tokens lc))"
      by (auto simp: mk_step_input_def input_validate_def ebind_Inr_iff step_input_def split: if_splits)
    show thesis
    proof (cases "sequence lc")
      case None
      with valid v show thesis
        by (intro ok [of "machine lc" ep]) (simp_all add: bind_sequence_def, simp add: step_input_def)
    next
      case (Some g)
      with valid v show thesis
        by (intro ok [of "(machine lc)\<lparr>sequence_epoch := ep\<rparr>" "ep + 1"])
           (simp_all add: bind_sequence_def, simp add: step_input_def)
    qed
  qed
qed

lemma bind_sequence_inv:
  assumes inv: "lc_inv (lc, ep)"
  shows "lc_inv (snd (bind_sequence h ver c (lc, ep)))"
proof (cases rule: bind_sequence_cases [of h ver c lc ep])
  case (ok m ep')
  note I = lc_invD [OF inv]
  have m: "machine_inv (m, ep')" "1 \<le> sequence_epoch m" using ok(2) I machine_inv_epoch by (auto split: if_splits)
  have same: "mstate m = mstate (machine lc)" "num_prompt_tokens m = num_prompt_tokens (machine lc)"
    "num_generated_tokens m = num_generated_tokens (machine lc)" "machine_id m = machine_id (machine lc)"
    using ok(2) by (auto simp: num_generated_tokens_def split: if_splits)
  have O: "output_ok lc" "input_snapshot lc = None" "\<not> forward_committed lc" using I(3,4) ok(3) by (simp_all add: flight_ok_def)
  have "1 \<le> prompt_len (request lc)" using O request_okD(3) by (auto simp: output_ok_def)
  with ok(5) O(1) have late: "\<not> early (mstate (machine lc))" by (auto simp: output_ok_def)
  have "c \<le> num_prompt_tokens m + num_generated_tokens m"
    using ok(5,8) O(1) same by (simp add: output_ok_def prompt_len_def)
  then have "machine_inv (m\<lparr>num_cached_tokens := c, num_computed_tokens := c\<rparr>, ep')"
    using m(1) late same ok(7) by (intro machine_inv_progress(2)) auto
  moreover have "m\<lparr>num_cached_tokens := c, num_computed_tokens := c\<rparr> = m\<lparr>num_computed_tokens := c, num_cached_tokens := c\<rparr>"
    by (cases m) simp
  ultimately have "lc_inv (lc\<lparr>sequence := Some h, binding_epoch := sequence_epoch m, state_version := ver,
      machine := m\<lparr>num_computed_tokens := c, num_cached_tokens := c\<rparr>\<rparr>, ep')"
    using m O ok(3,5,6) I(6) same late
    by (intro lc_invI flight_none) (auto simp: output_ok_def num_generated_tokens_def)
  with ok(1) show ?thesis by simp
qed (use inv in simp)

lemma started_machine:
  assumes "mstate m = ADMITTED" "d \<in> set [PREFILL, DECODING]"
  shows "transition d ts (m, ep) = (Inr ADMITTED, count_edge d (mark_latency d ts (enter_state d ts m)), ep)"
  using assms by (auto simp: transition_def is_legal_def legal_targets_def new_incarnation_def)

text \<open>The machine after the claim of a slice.\<close>

definition executing :: "ScheduledSlice \<Rightarrow> int \<Rightarrow> RequestStateMachine \<Rightarrow> RequestStateMachine" where
  "executing s ts m =
     (if mstate m = ADMITTED
      then let d = (if phase s = PhasePrefill then PREFILL else DECODING)
           in count_edge d (mark_latency d ts (enter_state d ts m))
      else m)"

lemma executing_simps [simp]:
  "sequence_epoch (executing s ts m) = sequence_epoch m" "num_computed_tokens (executing s ts m) = num_computed_tokens m"
  "num_prompt_tokens (executing s ts m) = num_prompt_tokens m" "machine_id (executing s ts m) = machine_id m"
  "num_generated_tokens (executing s ts m) = num_generated_tokens m"
  "mstate (executing s ts m) = (if mstate m = ADMITTED then (if phase s = PhasePrefill then PREFILL else DECODING) else mstate m)"
  by (simp_all add: executing_def Let_def num_generated_tokens_def)

lemma executing_inv: "machine_inv (m, ep) \<Longrightarrow> machine_inv (executing s ts m, ep)"
proof (cases "mstate m = ADMITTED")
  case True
  let ?d = "if phase s = PhasePrefill then PREFILL else DECODING"
  assume "machine_inv (m, ep)"
  then have "machine_inv (snd (transition ?d ts (m, ep)))" by (intro transition_inv) (auto split: if_splits)
  then show ?thesis using started_machine [OF True, of ?d ts ep] True by (cases "phase s") (simp_all add: executing_def)
qed (simp add: executing_def)

lemma run_executing [simp]:
  "start_executing s ts (lc, ep) = (Inr (), lc\<lparr>machine := executing s ts (machine lc)\<rparr>, ep)"
  "andthen (start_executing s ts) f (lc, ep) = f () (lc\<lparr>machine := executing s ts (machine lc)\<rparr>, ep)"
proof -
  show "start_executing s ts (lc, ep) = (Inr (), lc\<lparr>machine := executing s ts (machine lc)\<rparr>, ep)"
  proof (cases "mstate (machine lc) = ADMITTED")
    case True
    from started_machine [OF this, of "if phase s = PhasePrefill then PREFILL else DECODING" ts ep] True
    show ?thesis by (cases "phase s") (simp_all add: start_executing_def discard_def andthen_def via_machine_def executing_def)
  qed (simp add: start_executing_def executing_def)
  then show "andthen (start_executing s ts) f (lc, ep) = f () (lc\<lparr>machine := executing s ts (machine lc)\<rparr>, ep)"
    by (rule run_andthen)
qed

lemma begin_slice_cases:
  obtains (fail) e where "begin_slice step s ts (lc, ep) = (Inl e, lc, ep)"
  | (ok) v where "validate_begin_slice step s lc = Inr v"
      "begin_slice step s ts (lc, ep) = (Inr v, lc\<lparr>machine := executing s ts (machine lc), inflight := Some (step, s),
         input_snapshot := Some v, forward_committed := False, last_scheduled_step := step\<rparr>, ep)"
proof (cases "validate_begin_slice step s lc")
  case (Inl e)
  then show thesis by (intro fail [of e]) (simp add: begin_slice_def)
next
  case (Inr v)
  then show thesis
    by (intro ok [of v]) (simp_all add: begin_slice_def)
qed

lemma validate_begin_Inr:
  "validate_begin_slice step s lc = Inr v \<longleftrightarrow>
     0 \<le> step \<and> inflight lc = None \<and> \<not> stopped lc \<and> last_scheduled_step lc < step \<and> lc_snapshot lc = Inr v \<and>
     validate_slice v s = Inr () \<and>
     mstate (machine lc) \<in> set (if phase s = PhasePrefill then [ADMITTED, PREFILL] else [ADMITTED, DECODING, STREAMING])"
  by (auto simp: validate_begin_slice_def ebind_Inr_iff validate_phase_state_def)

lemma snapshot_machine:
  "sequence_epoch m = sequence_epoch (machine lc) \<Longrightarrow> num_generated_tokens m = num_generated_tokens (machine lc) \<Longrightarrow>
   num_computed_tokens m = num_computed_tokens (machine lc) \<Longrightarrow>
   lc_snapshot (lc\<lparr>machine := m, inflight := a, input_snapshot := b, forward_committed := c, last_scheduled_step := d\<rparr>) =
   lc_snapshot lc"
  by (simp add: lc_snapshot_def step_input_def split: option.split)

lemma begin_slice_inv:
  assumes inv: "lc_inv (lc, ep)" and s: "slice_validate s = Inr ()"
  shows "lc_inv (snd (begin_slice step s ts (lc, ep)))"
proof (cases rule: begin_slice_cases [of step s ts lc ep])
  case (ok v)
  note I = lc_invD [OF inv]
  note V = ok(1) [unfolded validate_begin_Inr]
  have v: "in_epoch v = sequence_epoch (machine lc)" using V snapshot_Inr [of lc v] by (auto simp: step_input_def)
  with V have e: "sl_epoch s = sequence_epoch (machine lc)" by (simp add: validate_slice_Inr)
  have late: "\<not> early (mstate (machine lc))" using V by (auto split: if_splits)
  have prompt: "num_prompt_tokens (machine lc) = prompt_len (request lc)"
    using V snapshot_Inr [of lc v] I(3) by (auto simp: output_ok_def)
  let ?lc = "lc\<lparr>machine := executing s ts (machine lc), inflight := Some (step, s), input_snapshot := Some v,
      forward_committed := False, last_scheduled_step := step\<rparr>"
  have "slice_ready s v ?lc"
    using V prompt snapshot_machine [of "executing s ts (machine lc)" lc] by (auto simp: slice_ready_def split: if_splits)
  then have "flight_ok (?lc, ep)" using s e I(5) by (simp add: flight_ok_def)
  moreover have "output_ok ?lc" using I(3) late by (auto simp: output_ok_def)
  ultimately have "lc_inv (?lc, ep)" using I executing_inv by (intro lc_invI) simp_all
  with ok(2) show ?thesis by simp
qed (use inv in simp)

lemma require_slice_Inr:
  "require_slice step s lc = Inr () \<longleftrightarrow>
     inflight lc = Some (step, s) \<and> sl_epoch s = sequence_epoch (machine lc) \<and> \<not> stopped lc"
  by (auto simp: require_slice_def)

lemma ready_slice:
  assumes inv: "lc_inv (lc, ep)" and r: "require_slice step s lc = Inr ()"
  obtains b0 where "input_snapshot lc = Some b0" "slice_ready s b0 lc" "slice_validate s = Inr ()" "step = last_scheduled_step lc"
  using lc_invD(4) [OF inv] r by (auto simp: flight_ok_def require_slice_Inr stopped_def)

text \<open>
  For an owned, accepted slice the commit check comes down to the version and to the slice
  not having been committed before.
\<close>

lemma validate_forward_iff:
  assumes inv: "lc_inv (lc, ep)"
  shows "validate_forward_commit step s ver lc = Inr () \<longleftrightarrow>
    require_slice step s lc = Inr () \<and> \<not> forward_committed lc \<and> ver = expected_state_version s + 1"
proof
  assume "validate_forward_commit step s ver lc = Inr ()"
  then show "require_slice step s lc = Inr () \<and> \<not> forward_committed lc \<and> ver = expected_state_version s + 1"
    by (auto simp: validate_forward_commit_def ebind_Inr_iff)
next
  assume r: "require_slice step s lc = Inr () \<and> \<not> forward_committed lc \<and> ver = expected_state_version s + 1"
  from r obtain b0 where b0: "input_snapshot lc = Some b0" "slice_ready s b0 lc" "slice_validate s = Inr ()"
    using ready_slice [OF inv] by metis
  from slice_validate_Inr [OF b0(3)] have "0 \<le> expected_state_version s" by simp
  with r b0 show "validate_forward_commit step s ver lc = Inr ()"
    by (auto simp: validate_forward_commit_def slice_ready_def validate_phase_state_def require_int_def require_def
        split: if_splits)
qed

text \<open>The machine and the lifecycle after a committed range.\<close>

definition moved :: "ScheduledSlice \<Rightarrow> int \<Rightarrow> RequestLifecycle \<Rightarrow> RequestStateMachine" where
  "moved s ts lc =
     (let m = (machine lc)\<lparr>num_computed_tokens := query_end s\<rparr> in
      if phase s = PhasePrefill \<and> query_end s = prompt_len (request lc)
      then count_edge DECODING (mark_latency DECODING ts (enter_state DECODING ts m)) else m)"

definition range_committed :: "ScheduledSlice \<Rightarrow> int \<Rightarrow> int \<Rightarrow> RequestLifecycle \<Rightarrow> RequestLifecycle" where
  "range_committed s ver ts lc =
     (let lc1 = lc\<lparr>machine := moved s ts lc, state_version := ver, forward_committed := True\<rparr>
      in if \<not> sample_last_query s then clear_slice lc1 else lc1)"

lemma moved_simps [simp]:
  "sequence_epoch (moved s ts lc) = sequence_epoch (machine lc)" "num_computed_tokens (moved s ts lc) = query_end s"
  "num_prompt_tokens (moved s ts lc) = num_prompt_tokens (machine lc)" "machine_id (moved s ts lc) = machine_id (machine lc)"
  "num_generated_tokens (moved s ts lc) = num_generated_tokens (machine lc)"
  "mstate (moved s ts lc) = (if phase s = PhasePrefill \<and> query_end s = prompt_len (request lc) then DECODING else mstate (machine lc))"
  by (simp_all add: moved_def Let_def num_generated_tokens_def)

lemma ready_open:
  assumes inv: "lc_inv (lc, ep)" and r: "require_slice step s lc = Inr ()" "\<not> forward_committed lc"
  shows "query_start s = num_computed_tokens (machine lc)" "0 \<le> query_start s" "1 \<le> query_count s"
    "mstate (machine lc) \<in> set (if phase s = PhasePrefill then [PREFILL] else [DECODING, STREAMING])"
    "query_end s \<le> num_prompt_tokens (machine lc) + num_generated_tokens (machine lc)"
    "num_prompt_tokens (machine lc) = prompt_len (request lc)"
    "sample_last_query s \<Longrightarrow> query_end s = int (length (known_tokens lc)) \<and> int (length (output_token_ids lc)) < max_tokens (stop (request lc))"
    "phase s = PhasePrefill \<Longrightarrow> query_end s \<le> prompt_len (request lc)"
    "phase s = PhaseDecode \<Longrightarrow> query_count s = 1"
    "expected_state_version s = state_version lc" "sl_request_id s = rq_id (request lc)"
    "num_cached_tokens (machine lc) \<le> query_end s" "phase s = PhaseDecode \<Longrightarrow> prompt_len (request lc) \<le> query_start s"
proof -
  obtain b0 where b0: "slice_ready s b0 lc" "slice_validate s = Inr ()" using ready_slice [OF inv r(1)] by metis
  then have snap: "lc_snapshot lc = Inr b0" and v: "validate_slice b0 s = Inr ()" using r(2) by (simp_all add: slice_ready_def)
  from snapshot_Inr [OF snap] obtain h where
    b: "b0 = step_input lc h (state_version lc) (num_computed_tokens (machine lc))" by blast
  note V = v [unfolded validate_slice_Inr b step_input_def]
  note O = lc_invD(3) [OF inv, unfolded output_ok_def] and S = slice_validate_Inr [OF b0(2)]
  show "query_start s = num_computed_tokens (machine lc)" "0 \<le> query_start s" "1 \<le> query_count s"
    "mstate (machine lc) \<in> set (if phase s = PhasePrefill then [PREFILL] else [DECODING, STREAMING])"
    "num_prompt_tokens (machine lc) = prompt_len (request lc)" "phase s = PhaseDecode \<Longrightarrow> query_count s = 1"
    "expected_state_version s = state_version lc" "sl_request_id s = rq_id (request lc)"
    "phase s = PhasePrefill \<Longrightarrow> query_end s \<le> prompt_len (request lc)"
    "phase s = PhaseDecode \<Longrightarrow> prompt_len (request lc) \<le> query_start s"
    using V S b0(1) r(2) by (auto simp: slice_ready_def)
  show "query_end s \<le> num_prompt_tokens (machine lc) + num_generated_tokens (machine lc)"
    using V O b0(1) r(2) by (simp add: slice_ready_def prompt_len_def)
  show "query_end s = int (length (known_tokens lc)) \<and> int (length (output_token_ids lc)) < max_tokens (stop (request lc))"
    if "sample_last_query s" using V O that by (simp add: prompt_len_def)
  show "num_cached_tokens (machine lc) \<le> query_end s"
    using V S lc_invD(1) [OF inv] by (simp add: machine_inv_def tokens_ok_def query_end_def)
qed

lemma run_via_commit:
  assumes "query_start s = num_computed_tokens (machine lc)" "0 \<le> query_start s" "1 \<le> query_count s"
    "mstate (machine lc) \<in> set [PREFILL, DECODING, STREAMING]"
    "query_end s \<le> num_prompt_tokens (machine lc) + num_generated_tokens (machine lc)"
  shows "via_machine (commit_range (query_start s) (query_count s)) (lc, ep) =
    (Inr (), lc\<lparr>machine := (machine lc)\<lparr>num_computed_tokens := query_end s\<rparr>\<rparr>, ep)"
    "andthen (via_machine (commit_range (query_start s) (query_count s))) f (lc, ep) =
     f () (lc\<lparr>machine := (machine lc)\<lparr>num_computed_tokens := query_end s\<rparr>\<rparr>, ep)"
proof -
  show "via_machine (commit_range (query_start s) (query_count s)) (lc, ep) =
      (Inr (), lc\<lparr>machine := (machine lc)\<lparr>num_computed_tokens := query_end s\<rparr>\<rparr>, ep)"
    using assms by (auto simp: via_machine_def commit_range_def query_end_def)
  then show "andthen (via_machine (commit_range (query_start s) (query_count s))) f (lc, ep) =
      f () (lc\<lparr>machine := (machine lc)\<lparr>num_computed_tokens := query_end s\<rparr>\<rparr>, ep)"
    by (rule run_andthen)
qed

lemma commit_accepted:
  assumes inv: "lc_inv (lc, ep)" and r: "require_slice step s lc = Inr ()" "\<not> forward_committed lc"
  shows "commit_computed_range step s (expected_state_version s + 1) ts (lc, ep) =
    (Inr (), range_committed s (expected_state_version s + 1) ts lc, ep)"
proof -
  note R = ready_open [OF inv r]
  have st: "mstate (machine lc) \<in> set [PREFILL, DECODING, STREAMING]" "mstate (machine lc) \<noteq> ADMITTED"
    using R(4) by (auto split: if_splits)
  then have ex: "lc\<lparr>machine := executing s ts (machine lc)\<rparr> = lc" by (simp add: executing_def)
  have v: "validate_forward_commit step s (expected_state_version s + 1) lc = Inr ()"
    using r by (simp add: validate_forward_iff [OF inv])
  note c = run_via_commit(2) [OF R(1-3) st(1) R(5)]
  show ?thesis
  proof (cases "phase s = PhasePrefill \<and> query_end s = prompt_len (request lc)")
    case True
    then have "is_legal (mstate (machine lc)) DECODING" using R(4) by (simp add: is_legal_def legal_targets_def)
    then have t: "transition DECODING ts ((machine lc)\<lparr>num_computed_tokens := query_end s\<rparr>, ep) = (Inr (mstate (machine lc)), moved s ts lc, ep)"
      using True by (simp add: transition_def moved_def Let_def new_incarnation_def)
    have swap: "lc\<lparr>state_version := x, machine := m, forward_committed := b\<rparr> =
        lc\<lparr>machine := m, state_version := x, forward_committed := b\<rparr>" for x m b by (cases lc) simp
    show ?thesis
      using True v t by (simp add: commit_computed_range_def ex c)
        (simp add: andthen_def discard_def via_machine_def range_committed_def Let_def swap)
  next
    case False
    then show ?thesis
      using v by (simp add: commit_computed_range_def ex c)
        (auto simp: andthen_def range_committed_def moved_def Let_def)
  qed
qed

lemma commit_cases:
  assumes inv: "lc_inv (lc, ep)"
  obtains (fail) e where "commit_computed_range step s ver ts (lc, ep) = (Inl e, lc, ep)"
    "\<not> (require_slice step s lc = Inr () \<and> \<not> forward_committed lc \<and> ver = expected_state_version s + 1)"
  | (ok) "require_slice step s lc = Inr ()" "\<not> forward_committed lc" "ver = expected_state_version s + 1"
      "commit_computed_range step s ver ts (lc, ep) = (Inr (), range_committed s ver ts lc, ep)"
proof (cases "validate_forward_commit step s ver lc")
  case (Inl e)
  then have "commit_computed_range step s ver ts (lc, ep) = (Inl e, lc, ep)" by (simp add: commit_computed_range_def)
  moreover have "\<not> (require_slice step s lc = Inr () \<and> \<not> forward_committed lc \<and> ver = expected_state_version s + 1)"
    using Inl validate_forward_iff [OF inv, of step s ver] by auto
  ultimately show thesis by (rule fail)
next
  case (Inr u)
  then have "validate_forward_commit step s ver lc = Inr ()" by simp
  with validate_forward_iff [OF inv] have r: "require_slice step s lc = Inr ()" "\<not> forward_committed lc"
    "ver = expected_state_version s + 1" by blast+
  with commit_accepted [OF inv r(1,2), of ts] show thesis by (intro ok) simp_all
qed

lemma moved_inv:
  assumes inv: "lc_inv (lc, ep)" and r: "require_slice step s lc = Inr ()" "\<not> forward_committed lc"
  shows "machine_inv (moved s ts lc, ep)"
proof -
  note R = ready_open [OF inv r]
  let ?m = "(machine lc)\<lparr>num_computed_tokens := query_end s\<rparr>"
  have "\<not> early (mstate (machine lc))" using R(4) by (auto split: if_splits)
  then have m: "machine_inv (?m, ep)" using lc_invD(1) [OF inv] R by (intro machine_inv_progress(1)) auto
  then have "machine_inv (snd (transition DECODING ts (?m, ep)))" by (intro transition_inv) simp_all
  moreover have "is_legal (mstate (machine lc)) DECODING" if "phase s = PhasePrefill"
    using that R(4) by (simp add: is_legal_def legal_targets_def)
  ultimately show ?thesis using m by (auto simp: moved_def Let_def transition_def new_incarnation_def)
qed

lemma lc_commit_inv:
  assumes inv: "lc_inv (lc, ep)"
  shows "lc_inv (snd (commit_computed_range step s ver ts (lc, ep)))"
proof (cases rule: commit_cases [OF inv, of step s ver ts])
  case 2
  note ok = 2
  note R = ready_open [OF inv ok(1,2)] and I = lc_invD [OF inv]
  obtain b0 where b0: "input_snapshot lc = Some b0" "slice_ready s b0 lc" "slice_validate s = Inr ()" "step = last_scheduled_step lc"
    using ready_slice [OF inv ok(1)] by metis
  have fl: "inflight lc = Some (step, s)" "\<not> is_terminal (machine lc)" using ok(1) by (simp_all add: require_slice_Inr stopped_def)
  have late: "\<not> early (mstate (machine lc))" using R(4) by (auto split: if_splits)
  have ver: "0 \<le> ver" using ok(3) slice_validate_Inr [OF b0(3)] by simp
  let ?lc = "lc\<lparr>machine := moved s ts lc, state_version := ver, forward_committed := True\<rparr>"
  have out: "output_ok ?lc" "output_ok (clear_slice ?lc)"
    using I(3) ver late by (auto simp: output_ok_def clear_slice_def)
  note m = moved_inv [OF inv ok(1,2), of ts]
  have "lc_inv (?lc, ep)" if smp: "sample_last_query s"
  proof (rule lc_invI)
    have st: "mstate (moved s ts lc) \<in> set [DECODING, STREAMING]"
    proof (cases "phase s = PhasePrefill")
      case True
      have "query_end s = prompt_len (request lc)"
        using R(7) [OF smp] R(8) [OF True] I(3) by (simp add: output_ok_def prompt_len_def)
      with True show ?thesis by simp
    qed (use R(4) in \<open>simp split: if_splits\<close>)
    have "slice_ready s b0 ?lc" using b0(2) smp st R(6) R(7) [OF smp] by (simp add: slice_ready_def)
    with fl b0 I(4) show "flight_ok (?lc, ep)" by (simp add: flight_ok_def)
  qed (use m out I in simp_all)
  moreover have "lc_inv (clear_slice ?lc, ep)"
    using m out I by (intro lc_invI flight_none) (simp_all add: clear_slice_def)
  ultimately show ?thesis using ok(4) by (simp add: range_committed_def Let_def)
qed (use inv in simp)

end
