(* ===== verification/Lifecycle_Steps.thy ===== *)
theory Lifecycle_Steps
  imports Lifecycle_Invariant
begin

text \<open>
  The invariant is kept by publication, by the settlement of speculative tokens, by
  discarding a slice, by the queueing pipeline and by every scheduler report; what each of
  them leaves behind is given in closed form.
\<close>

section \<open>Publication\<close>

text \<open>One token: its sample is counted and timed, and it joins the output.\<close>

definition counted :: "int \<Rightarrow> RequestStateMachine \<Rightarrow> RequestStateMachine" where
  "counted ts m = (let m1 = count_token 1 m in m1\<lparr>timing := mark_streamed ts (timing m1)\<rparr>)"

lemma counted_simps [simp]:
  "sequence_epoch (counted ts m) = sequence_epoch m" "num_computed_tokens (counted ts m) = num_computed_tokens m"
  "num_prompt_tokens (counted ts m) = num_prompt_tokens m" "machine_id (counted ts m) = machine_id m"
  "mstate (counted ts m) = mstate m" "num_generated_tokens (counted ts m) = num_generated_tokens m + 1"
  "num_cached_tokens (counted ts m) = num_cached_tokens m"
  by (simp_all add: counted_def count_token_def num_generated_tokens_def Let_def)

lemma counted_inv: "machine_inv (m, ep) \<Longrightarrow> mstate m \<in> set [DECODING, STREAMING] \<Longrightarrow> machine_inv (counted ts m, ep)"
  unfolding counted_def Let_def by (intro machine_inv_streamed machine_inv_count) auto

lemma run_counted:
  assumes "mstate (machine lc) \<in> set [DECODING, STREAMING]"
    "num_computed_tokens (machine lc) = num_prompt_tokens (machine lc) + num_generated_tokens (machine lc)"
  shows "andthen (via_machine (on_token_generated 1)) (\<lambda>_. andthen (via_machine (mark_published ts)) f) (lc, ep) =
    f () (lc\<lparr>machine := counted ts (machine lc)\<rparr>, ep)"
proof -
  have "via_machine (on_token_generated 1) (lc, ep) = (Inr (), lc\<lparr>machine := count_token 1 (machine lc)\<rparr>, ep)"
    using assms by (auto simp: via_machine_def on_token_generated_def)
  moreover have "via_machine (mark_published ts) (lc\<lparr>machine := count_token 1 (machine lc)\<rparr>, ep) =
      (Inr (), lc\<lparr>machine := counted ts (machine lc)\<rparr>, ep)"
    by (simp add: via_machine_def mark_published_def counted_def Let_def)
  ultimately show ?thesis by (simp add: andthen_def)
qed

definition published_token :: "int \<Rightarrow> int \<Rightarrow> RequestLifecycle \<Rightarrow> RequestLifecycle" where
  "published_token t ts lc = clear_slice (append_output t (lc\<lparr>machine := counted ts (machine lc)\<rparr>))"

lemma publish_cases:
  assumes inv: "lc_inv (lc, ep)"
  obtains (fail) e where "publish_sample step s t ts (lc, ep) = (Inl e, lc, ep)"
    "\<not> (require_slice step s lc = Inr () \<and> 0 \<le> t \<and> forward_committed lc)"
  | (ok) "require_slice step s lc = Inr ()" "0 \<le> t" "forward_committed lc"
      "publish_sample step s t ts (lc, ep) = (Inr (), published_token t ts lc, ep)"
proof (cases "require_slice step s lc = Inr () \<and> 0 \<le> t \<and> forward_committed lc")
  case True
  then obtain b0 where b0: "slice_ready s b0 lc" using ready_slice [OF inv] by metis
  with True have R: "sample_last_query s" "num_computed_tokens (machine lc) = int (length (known_tokens lc))"
    "mstate (machine lc) \<in> set [DECODING, STREAMING]" "num_prompt_tokens (machine lc) = prompt_len (request lc)"
    "int (length (output_token_ids lc)) < max_tokens (stop (request lc))" by (auto simp: slice_ready_def)
  moreover from R have "num_computed_tokens (machine lc) = num_prompt_tokens (machine lc) + num_generated_tokens (machine lc)"
    using lc_invD(3) [OF inv] by (simp add: output_ok_def prompt_len_def)
  ultimately have "publish_sample step s t ts (lc, ep) = (Inr (), published_token t ts lc, ep)"
    using True by (simp add: publish_sample_def run_counted published_token_def require_int_def)
  with True ok show thesis by blast
next
  case False
  then have "\<exists>e. publish_sample step s t ts (lc, ep) = (Inl e, lc, ep)"
    by (cases "require_slice step s lc") (auto simp: publish_sample_def require_int_def)
  with False fail show thesis by blast
qed

lemma published_inv:
  assumes inv: "lc_inv (lc, ep)" and r: "require_slice step s lc = Inr ()" "0 \<le> t" "forward_committed lc"
  shows "lc_inv (published_token t ts lc, ep)"
proof -
  from r obtain b0 where b0: "slice_ready s b0 lc" using ready_slice [OF inv] by metis
  then have R: "mstate (machine lc) \<in> set [DECODING, STREAMING]" "int (length (output_token_ids lc)) < max_tokens (stop (request lc))"
    using r(3) by (auto simp: slice_ready_def)
  note I = lc_invD [OF inv]
  have "output_ok (published_token t ts lc)"
    using I(3) R r(2) by (auto simp: output_ok_def published_token_def clear_slice_def append_output_def)
  moreover have "machine_inv (counted ts (machine lc), ep)" by (rule counted_inv [OF I(1) R(1)])
  ultimately show ?thesis
    using I by (intro lc_invI flight_none) (simp_all add: published_token_def clear_slice_def append_output_def)
qed

lemma publish_inv: "lc_inv (lc, ep) \<Longrightarrow> lc_inv (snd (publish_sample step s t ts (lc, ep)))"
proof -
  assume inv: "lc_inv (lc, ep)"
  show ?thesis
    by (cases rule: publish_cases [OF inv, of step s t ts]) (use inv in \<open>simp_all add: published_inv\<close>)
qed

section \<open>Speculative settlement\<close>

definition settle_one :: "int \<Rightarrow> int \<Rightarrow> RequestLifecycle \<Rightarrow> RequestLifecycle" where
  "settle_one ts t lc =
     append_output t (lc\<lparr>machine := counted ts ((machine lc)\<lparr>num_computed_tokens := num_computed_tokens (machine lc) + 1\<rparr>)\<rparr>)"

text \<open>The state in which a token can be settled: exactly one known token is not yet computed.\<close>

definition at_boundary :: "RequestLifecycle \<Rightarrow> bool" where
  "at_boundary lc \<longleftrightarrow>
     mstate (machine lc) \<in> set [DECODING, STREAMING] \<and> 0 \<le> num_computed_tokens (machine lc) \<and>
     num_computed_tokens (machine lc) + 1 = num_prompt_tokens (machine lc) + num_generated_tokens (machine lc)"

lemma settle_one_simps [simp]:
  "machine (settle_one ts t lc) = counted ts ((machine lc)\<lparr>num_computed_tokens := num_computed_tokens (machine lc) + 1\<rparr>)"
  "request (settle_one ts t lc) = request lc" "output_token_ids (settle_one ts t lc) = output_token_ids lc @ [t]"
  "known_tokens (settle_one ts t lc) = known_tokens lc @ [t]" "state_version (settle_one ts t lc) = state_version lc"
  "inflight (settle_one ts t lc) = inflight lc" "sequence (settle_one ts t lc) = sequence lc"
  "binding_epoch (settle_one ts t lc) = binding_epoch lc" "token (settle_one ts t lc) = token lc"
  "last_scheduled_step (settle_one ts t lc) = last_scheduled_step lc" "finish_reason (settle_one ts t lc) = finish_reason lc"
  "forward_committed (settle_one ts t lc) = forward_committed lc" "input_snapshot (settle_one ts t lc) = input_snapshot lc"
  by (simp_all add: settle_one_def append_output_def)

lemma generated_computed [simp]: "num_generated_tokens (m\<lparr>num_computed_tokens := c\<rparr>) = num_generated_tokens m"
  by (simp add: num_generated_tokens_def)

lemma at_boundary_settle: "at_boundary lc \<Longrightarrow> at_boundary (settle_one ts t lc)"
  by (auto simp: at_boundary_def)

lemma settle_tokens_run:
  "at_boundary lc \<Longrightarrow> pos = num_computed_tokens (machine lc) \<Longrightarrow>
   settle_tokens pos tks ts (lc, ep) = (Inr (), fold (settle_one ts) tks lc, ep)"
proof (induction tks arbitrary: pos lc)
  case (Cons t tks)
  let ?m = "(machine lc)\<lparr>num_computed_tokens := pos + 1\<rparr>"
  have "via_machine (commit_range pos 1) (lc, ep) = (Inr (), lc\<lparr>machine := ?m\<rparr>, ep)"
    using Cons.prems by (auto simp: via_machine_def commit_range_def at_boundary_def)
  moreover have "andthen (via_machine (on_token_generated 1)) (\<lambda>_. andthen (via_machine (mark_published ts)) f) (lc\<lparr>machine := ?m\<rparr>, ep) =
      f () (lc\<lparr>machine := counted ts ?m\<rparr>, ep)" for f :: "unit \<Rightarrow> (lc_state, unit) py"
    using Cons.prems by (subst run_counted) (auto simp: at_boundary_def)
  moreover have "append_output t (lc\<lparr>machine := counted ts ?m\<rparr>) = settle_one ts t lc"
    using Cons.prems(2) by (simp add: settle_one_def)
  moreover have "settle_tokens (pos + 1) tks ts (settle_one ts t lc, ep) = (Inr (), fold (settle_one ts) tks (settle_one ts t lc), ep)"
    using Cons.prems by (intro Cons.IH at_boundary_settle) simp_all
  ultimately show ?case by (simp add: run_andthen)
qed simp

lemma fold_settle:
  "output_token_ids (fold (settle_one ts) tks lc) = output_token_ids lc @ tks"
  "known_tokens (fold (settle_one ts) tks lc) = known_tokens lc @ tks"
  "request (fold (settle_one ts) tks lc) = request lc" "sequence (fold (settle_one ts) tks lc) = sequence lc"
  "binding_epoch (fold (settle_one ts) tks lc) = binding_epoch lc" "token (fold (settle_one ts) tks lc) = token lc"
  "num_computed_tokens (machine (fold (settle_one ts) tks lc)) = num_computed_tokens (machine lc) + int (length tks)"
  "num_generated_tokens (machine (fold (settle_one ts) tks lc)) = num_generated_tokens (machine lc) + int (length tks)"
  "num_prompt_tokens (machine (fold (settle_one ts) tks lc)) = num_prompt_tokens (machine lc)"
  "mstate (machine (fold (settle_one ts) tks lc)) = mstate (machine lc)"
  "sequence_epoch (machine (fold (settle_one ts) tks lc)) = sequence_epoch (machine lc)"
  "machine_id (machine (fold (settle_one ts) tks lc)) = machine_id (machine lc)"
  "inflight (fold (settle_one ts) tks lc) = inflight lc"
  "last_scheduled_step (fold (settle_one ts) tks lc) = last_scheduled_step lc"
  by (induction tks arbitrary: lc) simp_all

lemma fold_settle_inv:
  "machine_inv (machine lc, ep) \<Longrightarrow> at_boundary lc \<Longrightarrow> machine_inv (machine (fold (settle_one ts) tks lc), ep)"
proof (induction tks arbitrary: lc)
  case (Cons t tks)
  have "machine_inv ((machine lc)\<lparr>num_computed_tokens := num_computed_tokens (machine lc) + 1\<rparr>, ep)"
    using Cons.prems by (intro machine_inv_progress(1)) (auto simp: at_boundary_def machine_inv_def tokens_ok_def)
  then have "machine_inv (machine (settle_one ts t lc), ep)"
    using Cons.prems by (auto simp: at_boundary_def intro: counted_inv)
  with Cons show ?case by (simp add: at_boundary_settle del: settle_one_simps)
qed simp

lemma ready_boundary:
  assumes inv: "lc_inv (lc, ep)" and r: "require_slice step s lc = Inr ()" "\<not> forward_committed lc"
    and s: "phase s = PhaseDecode" "sample_last_query s"
  shows "at_boundary lc"
  using ready_open [OF inv r] s lc_invD(3) [OF inv]
  by (auto simp: at_boundary_def query_end_def output_ok_def prompt_len_def)

definition settled :: "int list \<Rightarrow> int \<Rightarrow> int \<Rightarrow> RequestLifecycle \<Rightarrow> RequestLifecycle" where
  "settled tks ver ts lc = clear_slice ((fold (settle_one ts) tks lc)\<lparr>state_version := ver\<rparr>)"

lemma speculative_accepted:
  assumes inv: "lc_inv (lc, ep)" and r: "require_slice step s lc = Inr ()" "\<not> forward_committed lc"
    and s: "phase s = PhaseDecode" "sample_last_query s" and tks: "tks \<noteq> []" "\<forall>t\<in>set tks. 0 \<le> t"
    and room: "int (length (output_token_ids lc)) + int (length tks) \<le> max_tokens (stop (request lc))"
  shows "commit_speculative_range step s tks (expected_state_version s + 1) ts (lc, ep) =
    (Inr (), settled tks (expected_state_version s + 1) ts lc, ep)"
proof -
  have v: "validate_forward_commit step s (expected_state_version s + 1) lc = Inr ()"
    using validate_forward_iff [OF inv] r by blast
  obtain ys where ys: "traverse (\<lambda>t. require_int t 0) tks = Inr ys"
    using traverse_total [of tks "\<lambda>t. require_int t 0"] tks(2) by (auto simp: require_int_def)
  have b: "at_boundary lc" by (rule ready_boundary [OF inv r s])
  have "lc\<lparr>machine := executing s ts (machine lc)\<rparr> = lc" using b by (auto simp: executing_def at_boundary_def)
  moreover have "settle_tokens (query_start s) tks ts (lc, ep) = (Inr (), fold (settle_one ts) tks lc, ep)"
    using b ready_open(1) [OF inv r] by (intro settle_tokens_run) simp_all
  ultimately show ?thesis
    using v ys s tks room by (simp add: commit_speculative_range_def run_andthen settled_def)
qed

lemma speculative_cases:
  assumes inv: "lc_inv (lc, ep)"
  obtains (fail) e where "commit_speculative_range step s tks ver ts (lc, ep) = (Inl e, lc, ep)"
  | (ok) "require_slice step s lc = Inr ()" "\<not> forward_committed lc" "ver = expected_state_version s + 1"
      "phase s = PhaseDecode" "sample_last_query s" "tks \<noteq> []" "\<forall>t\<in>set tks. 0 \<le> t"
      "int (length (output_token_ids lc)) + int (length tks) \<le> max_tokens (stop (request lc))"
      "commit_speculative_range step s tks ver ts (lc, ep) = (Inr (), settled tks ver ts lc, ep)"
proof (cases "validate_forward_commit step s ver lc")
  case (Inl e)
  then show thesis by (intro fail [of e]) (simp add: commit_speculative_range_def)
next
  case (Inr u)
  then have v: "validate_forward_commit step s ver lc = Inr ()" by simp
  with validate_forward_iff [OF inv] have r: "require_slice step s lc = Inr ()" "\<not> forward_committed lc"
    "ver = expected_state_version s + 1" by blast+
  show thesis
  proof (cases "phase s = PhaseDecode \<and> sample_last_query s \<and> tks \<noteq> [] \<and>
      int (length (output_token_ids lc)) + int (length tks) \<le> max_tokens (stop (request lc))")
    case True
    show thesis
    proof (cases "traverse (\<lambda>t. require_int t 0) tks")
      case (Inl e)
      with v True show thesis by (intro fail [of e]) (simp add: commit_speculative_range_def)
    next
      case (Inr ys)
      then have nn: "\<forall>t\<in>set tks. 0 \<le> t" using traverse_Inr_mem [OF Inr] by fastforce
      with speculative_accepted [OF inv r(1,2), of tks ts] r(3) True
      have "commit_speculative_range step s tks ver ts (lc, ep) = (Inr (), settled tks ver ts lc, ep)" by blast
      with r True nn ok show thesis by blast
    qed
  next
    case False
    with v have "\<exists>e. commit_speculative_range step s tks ver ts (lc, ep) = (Inl e, lc, ep)"
      by (cases "traverse (\<lambda>t. require_int t 0) tks") (auto simp: commit_speculative_range_def)
    with fail show thesis by blast
  qed
qed

lemma speculative_inv:
  assumes inv: "lc_inv (lc, ep)"
  shows "lc_inv (snd (commit_speculative_range step s tks ver ts (lc, ep)))"
proof (cases rule: speculative_cases [OF inv, of step s tks ver ts])
  case 2
  note I = lc_invD [OF inv]
  have b: "at_boundary lc" by (rule ready_boundary [OF inv 2(1,2,4,5)])
  obtain b0 where "slice_validate s = Inr ()" using ready_slice [OF inv 2(1)] by metis
  then have "0 \<le> ver" using 2(3) slice_validate_Inr by force
  then have "output_ok (settled tks ver ts lc)"
    using I(3) 2(7,8) by (auto simp: output_ok_def settled_def clear_slice_def fold_settle)
  moreover have "machine_inv (machine (fold (settle_one ts) tks lc), ep)" by (rule fold_settle_inv [OF I(1) b])
  ultimately have "lc_inv (settled tks ver ts lc, ep)"
    using I by (intro lc_invI flight_none) (simp_all add: settled_def clear_slice_def fold_settle)
  with 2(9) show ?thesis by simp
qed (use inv in simp)

section \<open>Queueing, cancellation and reports\<close>

lemma discard_slice_inv: "lc_inv (lc, ep) \<Longrightarrow> lc_inv (snd (discard_slice step s (lc, ep)))"
proof -
  assume inv: "lc_inv (lc, ep)"
  note I = lc_invD [OF inv]
  have "lc_inv (clear_slice lc\<lparr>machine := (machine lc)\<lparr>sequence_epoch := ep\<rparr>\<rparr>, ep + 1)"
    using I machine_inv_epoch by (intro lc_invI flight_none) (auto simp: clear_slice_def output_ok_def num_generated_tokens_def)
  moreover have "machine (clear_slice lc) = machine lc" by (simp add: clear_slice_def)
  ultimately show ?thesis using inv by (simp add: discard_slice_def new_epoch_def)
qed

lemma outside_slice [simp]:
  "lc_snapshot (lc\<lparr>token := t\<rparr>) = lc_snapshot lc" "lc_snapshot (lc\<lparr>finish_reason := r\<rparr>) = lc_snapshot lc"
  "output_ok (lc\<lparr>token := t\<rparr>) = output_ok lc" "output_ok (lc\<lparr>finish_reason := r\<rparr>) = output_ok lc"
  by (simp_all add: lc_snapshot_def step_input_def output_ok_def split: option.split)

lemma ready_outside_slice [simp]:
  "slice_ready s b0 (lc\<lparr>token := t\<rparr>) = slice_ready s b0 lc" "slice_ready s b0 (lc\<lparr>finish_reason := r\<rparr>) = slice_ready s b0 lc"
  by (simp_all add: slice_ready_def)

lemma lc_inv_token: "lc_inv (lc, ep) \<Longrightarrow> lc_inv (lc\<lparr>token := t\<rparr>, ep)"
  and lc_inv_reason: "lc_inv (lc, ep) \<Longrightarrow> lc_inv (lc\<lparr>finish_reason := r\<rparr>, ep)"
  by (simp_all add: lc_inv_def flight_ok_def cong: option.case_cong prod.case_cong)

lemma run_transition:
  "andthen (transition d ts) f (m, ep) =
     (if is_legal (mstate m) d
      then let m1 = count_edge d (mark_latency d ts (enter_state d ts m)) in
        f (mstate m) (if new_incarnation d then (m1\<lparr>sequence_epoch := ep\<rparr>, ep + 1) else (m1, ep))
      else (Inl IllegalTransition, m, ep))"
  by (simp add: andthen_def transition_def Let_def)

lemma calm_cache_looked_up:
  "calm ep m (fst (snd (on_cache_looked_up n ts (m, ep)))) \<and> snd (snd (on_cache_looked_up n ts (m, ep))) = ep"
proof -
  have "mstate m \<notin> set [PREFILL, DECODING, STREAMING] \<and> \<not> is_terminal m" if "is_legal (mstate m) WAITING"
    using that by (cases "mstate m") (auto simp: is_legal_def legal_targets_def is_terminal_def TERMINAL_STATES_def)
  then show ?thesis
    by (auto simp: on_cache_looked_up_def run_transition Let_def new_incarnation_def calm_def
        is_terminal_def num_generated_tokens_def)
qed

lemma lc_inv_cache_looked_up: "lc_inv (lc, ep) \<Longrightarrow> lc_inv (snd (via_machine (on_cache_looked_up n ts) (lc, ep)))"
proof -
  assume inv: "lc_inv (lc, ep)"
  have "machine_inv (snd (on_cache_looked_up n ts (machine lc, ep)))"
    by (rule on_cache_looked_up_inv [OF lc_invD(1) [OF inv]])
  moreover note C = calm_cache_looked_up [of ep "machine lc" n ts]
  ultimately have "machine_inv (fst (snd (on_cache_looked_up n ts (machine lc, ep))), ep)"
    by (metis prod.collapse)
  with C show ?thesis unfolding snd_via_machine by (simp add: lc_inv_machine [OF inv])
qed

lemma lc_inv_prompt:
  assumes inv: "lc_inv (lc, ep)" and st: "mstate (machine lc) = CACHE_LOOKUP"
  shows "lc_inv (lc\<lparr>machine := (machine lc)\<lparr>num_prompt_tokens := prompt_len (request lc)\<rparr>\<rparr>, ep)"
proof (rule lc_invI)
  note I = lc_invD [OF inv]
  let ?lc = "lc\<lparr>machine := (machine lc)\<lparr>num_prompt_tokens := prompt_len (request lc)\<rparr>\<rparr>"
  show "machine_inv (machine ?lc, ep)"
    using I(1,3) st by (auto simp: machine_inv_def tokens_ok_def output_ok_def num_generated_tokens_def prompt_len_def)
  show "output_ok ?lc" using I(3) st by (auto simp: output_ok_def num_generated_tokens_def)
  show "flight_ok (?lc, ep)" using I(4) st
    by (auto simp: flight_ok_def slice_ready_def is_terminal_def split: option.splits if_splits)
qed (use lc_invD [OF inv] in simp_all)

lemma lc_inv_tokenized:
  assumes inv: "lc_inv (lc, ep)"
  shows "lc_inv (snd (via_machine (on_tokenized (prompt_len (request lc)) ts) (lc, ep)))"
proof -
  have pos: "1 \<le> prompt_len (request lc)" using lc_invD(3) [OF inv] request_okD(3) by (simp add: output_ok_def)
  have t: "lc_inv (snd (via_machine (transition CACHE_LOOKUP ts) (lc, ep)))" by (rule lc_inv_transition [OF inv]) simp
  show ?thesis
  proof (cases "is_legal (mstate (machine lc)) CACHE_LOOKUP")
    case True
    let ?m = "count_edge CACHE_LOOKUP (mark_latency CACHE_LOOKUP ts (enter_state CACHE_LOOKUP ts (machine lc)))"
    have tr: "transition CACHE_LOOKUP ts (machine lc, ep) = (Inr (mstate (machine lc)), ?m, ep)"
      using True by (simp add: transition_def new_incarnation_def)
    then have run: "on_tokenized (prompt_len (request lc)) ts (machine lc, ep) =
        (Inr (), ?m\<lparr>num_prompt_tokens := prompt_len (request lc)\<rparr>, ep)"
      and lc1: "lc_inv (lc\<lparr>machine := ?m\<rparr>, ep)"
      using pos t True by (simp_all add: on_tokenized_def run_transition new_incarnation_def snd_via_machine)
    from lc_inv_prompt [OF lc1] run show ?thesis by (simp add: snd_via_machine)
  next
    case False
    then show ?thesis using pos inv by (simp add: snd_via_machine on_tokenized_def run_transition)
  qed
qed

lemma keeps_via_transition [effect_intros]:
  "d \<notin> set [PREFILL, DECODING, PAUSED, MIGRATING, RETRYING] \<Longrightarrow> keeps lc_inv (via_machine (discard (transition d ts)))"
  by (rule keepsI) (auto simp: snd_via_discard lc_inv_transition)

lemma keeps_lc [effect_intros]:
  "keeps lc_inv (via_machine (on_cache_looked_up n ts))" "keeps lc_inv (via_machine (on_cancelled ts))"
  "keeps lc_inv (via_machine (on_failed r ts))" "keeps lc_inv (via_machine (on_streamed ts))"
  "keeps lc_inv (\<lambda>(lc, ep). via_machine (on_tokenized (prompt_len (request lc)) ts) (lc, ep))"
  "keeps lc_inv (commit_computed_range step s ver ts)" "keeps lc_inv (publish_sample step s t ts)"
  "keeps lc_inv (on_lc (\<lambda>lc. lc\<lparr>finish_reason := fr\<rparr>))" "keeps lc_inv (on_lc (\<lambda>lc. lc\<lparr>token := f lc\<rparr>))"
  "keeps lc_inv (on_lc (\<lambda>lc. if c then lc\<lparr>finish_reason := fr\<rparr> else lc))"
  "keeps lc_inv (discard_slice step s)" "keeps lc_inv (bind_sequence h ver c2)"
  "keeps lc_inv (commit_speculative_range step s tks ver ts)"
  by (rule keepsI; auto simp: lc_inv_cache_looked_up lc_inv_cancelled lc_inv_failed lc_inv_streamed lc_inv_tokenized
      lc_commit_inv publish_inv lc_inv_reason lc_inv_token discard_slice_inv bind_sequence_inv speculative_inv)+

lemma keeps_simple: "keeps I (check_lc f)" "keeps I (ret x)" "keeps I (raise e)"
  by (simp_all add: keeps_def check_lc_def)

lemma keeps_if: "keeps I m \<Longrightarrow> keeps I n \<Longrightarrow> keeps I (if c then m else n)"
  by simp

lemmas keeps_rules = keeps_andthen keeps_if keeps_simple keeps_lc keeps_via_transition

lemma keeps_enter_queue: "keeps lc_inv (enter_queue cached defer_remote ts)"
  unfolding enter_queue_def on_validating_def on_validated_def on_remote_kv_wait_def
  by (intro keeps_rules) auto

lemma keeps_apply_compute: "keeps lc_inv (apply_compute e step ts)"
  unfolding apply_compute_def by (simp split: option.split) (intro allI impI conjI keeps_rules)

lemma keeps_move:
  assumes "d \<notin> set [PREFILL, DECODING, PAUSED, MIGRATING, RETRYING]"
  shows "keeps lc_inv (\<lambda>(lc, ep). if c lc then ret () (lc, ep) else discard (via_machine (transition d ts)) (lc, ep))"
  using assms by (intro keepsI) (auto simp: lc_inv_transition)

lemma keeps_discarded:
  "d \<notin> set [PREFILL, DECODING, PAUSED, MIGRATING, RETRYING] \<Longrightarrow> keeps lc_inv (discard (via_machine (transition d ts)))"
  by (rule keepsI) (auto simp: lc_inv_transition)

lemma keeps_apply_transition: "\<not> computational (outcome e) \<Longrightarrow> keeps lc_inv (apply_transition e ts)"
  by (cases "outcome e"; simp add: apply_transition_def computational_def on_finished_def;
      intro keeps_rules keeps_move keeps_discarded; simp)

lemma keeps_apply_report: "keeps lc_inv (apply_report e step ts)"
  by (simp add: apply_report_def keeps_apply_compute keeps_apply_transition)

end
