(* ===== verification/Lifecycle_Properties.thy ===== *)
theory Lifecycle_Properties
  imports Lifecycle_Steps
begin

text \<open>
  Properties of a request lifecycle under any sequence of the calls the engine makes on it:
  consistent tokens, completion of accepted slices, rejection of stale and of repeated
  completions, and the equality of speculative settlement with ordinary decode steps.
\<close>

section \<open>The calls as one datatype\<close>

datatype lc_op =
    Lc_Bind SequenceHandle int int
  | Lc_Begin int ScheduledSlice
  | Lc_Commit int ScheduledSlice int
  | Lc_Publish int ScheduledSlice int
  | Lc_Speculate int ScheduledSlice "int list" int
  | Lc_Discard int ScheduledSlice
  | Lc_Cancel string
  | Lc_Queue int bool
  | Lc_Report RequestReport int
  | Lc_Call machine_op

text \<open>The machine methods that the router, the KV runtime and the completion owner call directly.\<close>

fun engine_call :: "machine_op \<Rightarrow> bool" where
  "engine_call M_Remote_Kv_Ready = True"
| "engine_call M_Remote_Kv_Abandoned = True"
| "engine_call (M_Cache_Looked_Up n) = True"
| "engine_call M_Admitted = True"
| "engine_call M_Requeued = True"
| "engine_call M_Cancelled = True"
| "engine_call (M_Failed r) = True"
| "engine_call _ = False"

fun lc_exec :: "lc_op \<times> int \<Rightarrow> (lc_state, unit) py" where
  "lc_exec (Lc_Bind h ver c, ts) = bind_sequence h ver c"
| "lc_exec (Lc_Begin step s, ts) = discard (begin_slice step s ts)"
| "lc_exec (Lc_Commit step s ver, ts) = commit_computed_range step s ver ts"
| "lc_exec (Lc_Publish step s t, ts) = publish_sample step s t ts"
| "lc_exec (Lc_Speculate step s tks ver, ts) = commit_speculative_range step s tks ver ts"
| "lc_exec (Lc_Discard step s, ts) = discard_slice step s"
| "lc_exec (Lc_Cancel reason, ts) = on_lc (\<lambda>lc. lc\<lparr>token := snd (token_cancel reason (token lc))\<rparr>)"
| "lc_exec (Lc_Queue cached defer_remote, ts) = enter_queue cached defer_remote ts"
| "lc_exec (Lc_Report e step, ts) = discard (apply_report e step ts)"
| "lc_exec (Lc_Call c, ts) = via_machine (machine_exec (c, ts))"

text \<open>Slices are constructed values, which validate themselves.\<close>

fun lc_legal :: "lc_op \<times> int \<Rightarrow> lc_state \<Rightarrow> bool" where
  "lc_legal (Lc_Begin step s, ts) _ = (slice_validate s = Inr ())"
| "lc_legal (Lc_Call c, ts) _ = engine_call c"
| "lc_legal _ _ = True"

section \<open>What a call may do\<close>

text \<open>
  Epochs and step numbers never go back, and a new epoch is one that no lifecycle had
  before.  An unfinished slice stays, is dropped, or is replaced by one of a later step; a
  committed one does not become uncommitted.  A terminal request stays terminal.
\<close>

definition lc_next :: "lc_state \<Rightarrow> lc_state \<Rightarrow> bool" where
  "lc_next = (\<lambda>(lc, ep) (lc', ep').
     sequence_epoch (machine lc) \<le> sequence_epoch (machine lc') \<and> last_scheduled_step lc \<le> last_scheduled_step lc' \<and>
     request lc' = request lc \<and> ep \<le> ep' \<and>
     (sequence_epoch (machine lc') = sequence_epoch (machine lc) \<or> ep \<le> sequence_epoch (machine lc')) \<and>
     (is_terminal (machine lc) \<longrightarrow> is_terminal (machine lc')) \<and>
     (inflight lc' = None \<or> inflight lc' = inflight lc \<and> (forward_committed lc \<longrightarrow> forward_committed lc') \<or>
      last_scheduled_step lc < last_scheduled_step lc'))"

definition evolves :: "(lc_state, 'a) py \<Rightarrow> bool" where
  "evolves x \<longleftrightarrow> (\<forall>s. lc_inv s \<longrightarrow> lc_inv (snd (x s)) \<and> lc_next s (snd (x s)))"

lemma lc_next_refl [simp]: "lc_next s s"
  by (simp add: lc_next_def split: prod.split)

lemma lc_next_trans: "lc_next s t \<Longrightarrow> lc_next t u \<Longrightarrow> lc_next s u"
  by (auto simp: lc_next_def split: prod.splits)

lemma evolvesI: "keeps lc_inv x \<Longrightarrow> (\<And>lc ep. lc_inv (lc, ep) \<Longrightarrow> lc_next (lc, ep) (snd (x (lc, ep)))) \<Longrightarrow> evolves x"
  by (auto simp: evolves_def keeps_def)

lemma evolvesD: "evolves x \<Longrightarrow> lc_inv s \<Longrightarrow> lc_inv (snd (x s)) \<and> lc_next s (snd (x s))"
  by (simp only: evolves_def)

lemma evolves_andthen: "evolves x \<Longrightarrow> (\<And>y. evolves (f y)) \<Longrightarrow> evolves (andthen x f)"
  unfolding evolves_def andthen_def
  by (auto split: prod.splits sum.splits) (metis lc_next_trans snd_conv)+

lemma evolves_simple: "evolves (check_lc f)" "evolves (ret x)" "evolves (raise e)"
  by (simp_all add: evolves_def check_lc_def)

lemma evolves_if: "evolves m \<Longrightarrow> evolves n \<Longrightarrow> evolves (if c then m else n)"
  by simp

lemma evolves_discard: "evolves x \<Longrightarrow> evolves (discard x)"
  by (simp add: evolves_def)

lemma next_machine:
  assumes "lc_inv (lc, ep)" "one_edge (machine lc, ep) (snd (x (machine lc, ep)))"
  shows "lc_next (lc, ep) (snd (via_machine x (lc, ep)))"
proof -
  obtain r m ep' where x: "x (machine lc, ep) = (r, m, ep')" by (metis surj_pair)
  from assms x lc_invD(5) [OF assms(1)] have "sequence_epoch (machine lc) \<le> sequence_epoch m" "ep \<le> ep'"
    "sequence_epoch m = sequence_epoch (machine lc) \<or> ep \<le> sequence_epoch m"
    "is_terminal (machine lc) \<longrightarrow> is_terminal m"
    by (auto simp: one_edge_def is_terminal_def not_legal_from_terminal split: if_splits)
  then show ?thesis by (simp add: snd_via_machine x lc_next_def)
qed

lemma evolves_via:
  assumes "keeps lc_inv (via_machine x)" "\<And>m ep. one_edge (m, ep) (snd (x (m, ep)))"
  shows "evolves (via_machine x)"
  using assms by (intro evolvesI next_machine) auto

lemma evolves_machine:
  assumes "keeps lc_inv (via_machine (machine_exec c))"
  shows "evolves (via_machine (machine_exec c))"
  using assms by (cases c) (auto intro!: evolves_via one_edge_exec)

lemma evolves_transition:
  assumes "d \<notin> set [PREFILL, DECODING, PAUSED, MIGRATING, RETRYING]"
  shows "evolves (via_machine (discard (transition d ts)))" "evolves (discard (via_machine (transition d ts)))"
  using assms
  by (auto intro!: evolves_via keeps_via_transition one_edge_transition evolves_discard keepsI simp: lc_inv_transition snd_via_discard)

lemma evolves_calls:
  "evolves (via_machine (on_cache_looked_up n ts))" "evolves (via_machine (on_cancelled ts))"
  "evolves (via_machine (on_failed r ts))" "evolves (via_machine (on_streamed ts))"
  using evolves_machine [of "(M_Cache_Looked_Up n, ts)"] evolves_machine [of "(M_Cancelled, ts)"]
    evolves_machine [of "(M_Failed r, ts)"] evolves_machine [of "(M_Streamed, ts)"] keeps_lc by simp_all

lemma evolves_tokenized: "evolves (\<lambda>(lc, ep). via_machine (on_tokenized (prompt_len (request lc)) ts) (lc, ep))"
proof (rule evolvesI [OF keeps_lc(5)])
  fix lc ep assume "lc_inv (lc, ep)"
  then show "lc_next (lc, ep) (snd ((\<lambda>(lc, ep). via_machine (on_tokenized (prompt_len (request lc)) ts) (lc, ep)) (lc, ep)))"
    using one_edge_exec [of "machine lc" ep "M_Tokenized (prompt_len (request lc))" ts] by (simp add: next_machine)
qed

lemma evolves_fields:
  "evolves (on_lc (\<lambda>lc. lc\<lparr>finish_reason := fr\<rparr>))" "evolves (on_lc (\<lambda>lc. lc\<lparr>token := f lc\<rparr>))"
  "evolves (on_lc (\<lambda>lc. if c then lc\<lparr>finish_reason := fr\<rparr> else lc))"
  by (auto intro!: evolvesI keeps_lc simp: lc_next_def)

lemma evolves_slices:
  "evolves (commit_computed_range step s ver ts)" "evolves (publish_sample step s t ts)"
  "evolves (commit_speculative_range step s tks ver ts)" "evolves (discard_slice step s)" "evolves (bind_sequence h ver c)"
proof -
  show "evolves (commit_computed_range step s ver ts)"
  proof (rule evolvesI [OF keeps_lc(6)])
    fix lc ep assume inv: "lc_inv (lc, ep)"
    show "lc_next (lc, ep) (snd (commit_computed_range step s ver ts (lc, ep)))"
      by (cases rule: commit_cases [OF inv, of step s ver ts])
         (simp_all add: lc_next_def range_committed_def clear_slice_def Let_def require_slice_Inr stopped_def)
  qed
  show "evolves (publish_sample step s t ts)"
  proof (rule evolvesI [OF keeps_lc(7)])
    fix lc ep assume inv: "lc_inv (lc, ep)"
    show "lc_next (lc, ep) (snd (publish_sample step s t ts (lc, ep)))"
      by (cases rule: publish_cases [OF inv, of step s t ts])
         (simp_all add: lc_next_def published_token_def append_output_def clear_slice_def require_slice_Inr stopped_def)
  qed
  show "evolves (commit_speculative_range step s tks ver ts)"
  proof (rule evolvesI [OF keeps_lc(13)])
    fix lc ep assume inv: "lc_inv (lc, ep)"
    show "lc_next (lc, ep) (snd (commit_speculative_range step s tks ver ts (lc, ep)))"
      by (cases rule: speculative_cases [OF inv, of step s tks ver ts])
         (simp_all add: lc_next_def settled_def clear_slice_def fold_settle require_slice_Inr stopped_def)
  qed
  show "evolves (discard_slice step s)"
  proof (rule evolvesI [OF keeps_lc(11)])
    fix lc ep assume inv: "lc_inv (lc, ep)"
    then show "lc_next (lc, ep) (snd (discard_slice step s (lc, ep)))"
      using lc_invD(5) [OF inv] by (simp add: discard_slice_def new_epoch_def lc_next_def clear_slice_def is_terminal_def)
  qed
  show "evolves (bind_sequence h ver c)"
  proof (rule evolvesI [OF keeps_lc(12)])
    fix lc ep assume inv: "lc_inv (lc, ep)"
    show "lc_next (lc, ep) (snd (bind_sequence h ver c (lc, ep)))"
      by (cases rule: bind_sequence_cases [of h ver c lc ep])
         (use lc_invD(5) [OF inv] in \<open>auto simp: lc_next_def is_terminal_def split: if_splits\<close>)
  qed
qed

lemma begin_next: "lc_inv (lc, ep) \<Longrightarrow> lc_next (lc, ep) (snd (begin_slice step s ts (lc, ep)))"
  by (cases rule: begin_slice_cases [of step s ts lc ep]) (simp_all add: lc_next_def validate_begin_Inr stopped_def)

lemmas evolves_rules = evolves_andthen evolves_if evolves_simple evolves_calls evolves_tokenized evolves_fields
  evolves_slices evolves_transition

lemma evolves_move:
  assumes "d \<notin> set [PREFILL, DECODING, PAUSED, MIGRATING, RETRYING]"
  shows "evolves (\<lambda>(lc, ep). if c lc then ret () (lc, ep) else discard (via_machine (transition d ts)) (lc, ep))"
  using evolves_transition(2) [OF assms, of ts] by (auto simp: evolves_def)

lemma evolves_enter_queue: "evolves (enter_queue cached defer_remote ts)"
  unfolding enter_queue_def on_validating_def on_validated_def on_remote_kv_wait_def
  by (intro evolves_rules) auto

lemma evolves_apply_report: "evolves (apply_report e step ts)"
proof (cases "computational (outcome e)")
  case True
  then show ?thesis unfolding apply_report_def apply_compute_def
    by (simp split: option.split) (intro allI impI conjI evolves_rules)
next
  case False
  then show ?thesis
    by (cases "outcome e"; simp add: apply_report_def apply_transition_def computational_def on_finished_def;
        intro evolves_rules evolves_move; simp)
qed

lemma lc_exec_step:
  assumes inv: "lc_inv s" and legal: "lc_legal x s"
  shows "lc_inv (snd (lc_exec x s)) \<and> lc_next s (snd (lc_exec x s))"
proof -
  obtain y ts where x: "x = (y, ts)" by force
  obtain lc ep where s: "s = (lc, ep)" by force
  show ?thesis
  proof (cases y)
    case (Lc_Begin step sl)
    with x legal inv s show ?thesis by (simp add: begin_slice_inv begin_next)
  next
    case (Lc_Call c)
    with x legal have "engine_call c" by simp
    then have "evolves (via_machine (machine_exec (c, ts)))"
      by (cases c) (auto simp: on_remote_kv_ready_def on_remote_kv_abandoned_def on_admitted_def on_requeued_def
          intro!: evolves_rules)
    from evolvesD [OF this inv] Lc_Call x show ?thesis by (simp only: lc_exec.simps)
  qed (use x inv in \<open>simp_all add: evolvesD evolves_slices evolves_fields evolves_enter_queue evolves_apply_report\<close>)
qed

interpretation lifecycle: guarded_system lc_exec lc_legal lc_inv
  by unfold_locales (use lc_exec_step in blast)

lemma lc_run_next:
  "lc_inv s \<Longrightarrow> legal_run lc_exec lc_legal xs s \<Longrightarrow> lc_inv (run_ops lc_exec xs s) \<and> lc_next s (run_ops lc_exec xs s)"
proof (induction xs arbitrary: s)
  case (Cons x xs)
  then show ?case using lc_exec_step [of s x] lc_next_trans by (simp, blast)
qed simp

lemma lc_init_inv:
  assumes "request_ok r" "0 \<le> retries" "1 \<le> ep"
  shows "lc_inv (RequestLifecycle_init r retries now ep)"
proof -
  obtain m ep' where m: "RequestStateMachine_init (rq_id r) (if rq_arrival_ns r \<noteq> 0 then rq_arrival_ns r else now) retries 16 ep = (m, ep')"
    by force
  have "machine_inv (m, ep')" using machine_init_inv [OF assms(2)] m by metis
  moreover have "mstate m = CREATED" "sequence_epoch m = ep" "num_prompt_tokens m = 0" "num_generated_tokens m = 0" "machine_id m = rq_id r"
    using m by (auto simp: RequestStateMachine_init_def num_generated_tokens_def RequestTiming_init_def)
  ultimately show ?thesis
    using assms request_okD(4) [OF assms(1)]
    unfolding RequestLifecycle_init_def m
    by (simp only: Let_def prod.case) (intro lc_invI flight_none; simp add: output_ok_def)
qed

section \<open>Properties\<close>

text \<open>
  C24. The tokens of a request stay consistent under any calls the engine makes on it.
  The known tokens are the prompt followed by the published output, which is within the
  request's budget; the counters agree with them; progress never passes them.  And
  whenever the sequence binding is current, the step input captured from the request passes
  its own validation.
\<close>

theorem lifecycle_tokens_consistent:
  assumes r: "request_ok r" "0 \<le> retries" "1 \<le> ep0"
    and legal: "legal_run lc_exec lc_legal xs (RequestLifecycle_init r retries now ep0)"
    and run: "run_ops lc_exec xs (RequestLifecycle_init r retries now ep0) = (lc, ep)"
  shows "known_tokens lc = prompt_token_ids r @ output_token_ids lc \<and>
    int (length (output_token_ids lc)) \<le> max_tokens (stop r) \<and>
    num_generated_tokens (machine lc) = int (length (output_token_ids lc)) \<and>
    num_computed_tokens (machine lc) \<le> int (length (known_tokens lc)) \<and>
    (\<forall>h. sequence lc = Some h \<and> binding_epoch lc = sequence_epoch (machine lc) \<longrightarrow>
       lc_snapshot lc = Inr (step_input lc h (state_version lc) (num_computed_tokens (machine lc))))"
proof -
  let ?s = "RequestLifecycle_init r retries now ep0"
  have "lc_inv (lc, ep)" "lc_next ?s (lc, ep)"
    using lc_run_next [OF lc_init_inv [OF r] legal] run by simp_all
  moreover from this have "request lc = r"
    by (auto simp: RequestLifecycle_init_def lc_next_def Let_def split: prod.splits)
  ultimately show ?thesis
    using lc_invD(3) [of lc ep] progress_bound [of lc ep] snapshot_current [of lc ep] by (auto simp: output_ok_def)
qed

definition sample_request :: Request where
  "sample_request =
     \<lparr>rq_id = ''r'', prompt_token_ids = [7, 8],
      stop = \<lparr>max_tokens = 4, min_tokens = 0, stop_token_ids = [], stop_strings = [], ignore_eos = False,
              include_stop_str_in_output = False\<rparr>,
      multimodal = [], priority = 0, rq_arrival_ns = 5, deadline_ns = None, queue_deadline_ns = None\<rparr>"

definition sample_lifecycle :: lc_state where
  "sample_lifecycle = RequestLifecycle_init sample_request 3 0 1"

definition lc_slice :: "int \<Rightarrow> int \<Rightarrow> int \<Rightarrow> Phase \<Rightarrow> ScheduledSlice" where
  "lc_slice ver q n ph =
     \<lparr>sl_request_id = ''r'', sl_epoch = 1, expected_state_version = ver, query_start = q, query_count = n, phase = ph,
      sample_last_query = True\<rparr>"

definition sample_lc_calls :: "(lc_op \<times> int) list" where
  "sample_lc_calls =
     [(Lc_Queue 0 False, 6), (Lc_Call M_Admitted, 7), (Lc_Bind \<lparr>seq_index = 0, seq_generation = 1\<rparr> 0 0, 8),
      (Lc_Begin 0 (lc_slice 0 0 2 PhasePrefill), 9), (Lc_Commit 0 (lc_slice 0 0 2 PhasePrefill) 1, 10),
      (Lc_Publish 0 (lc_slice 0 0 2 PhasePrefill) 42, 11), (Lc_Begin 1 (lc_slice 1 2 1 PhaseDecode), 12)]"

lemma sample_request_ok: "request_ok sample_request"
  by code_simp

lemma sample_lc_legal: "legal_run lc_exec lc_legal sample_lc_calls sample_lifecycle"
  by code_simp

theorem lifecycle_tokens_consistent_witness:
  "\<exists>lc ep. run_ops lc_exec sample_lc_calls sample_lifecycle = (lc, ep) \<and> known_tokens lc = [7, 8] @ output_token_ids lc \<and>
     output_token_ids lc = [42]"
proof -
  obtain lc ep where run: "run_ops lc_exec sample_lc_calls sample_lifecycle = (lc, ep)" by force
  have "known_tokens lc = prompt_token_ids sample_request @ output_token_ids lc"
    using lifecycle_tokens_consistent [OF sample_request_ok, of 3 1 sample_lc_calls 0 lc ep] sample_lc_legal run
    by (simp add: sample_lifecycle_def)
  moreover have "output_token_ids (fst (run_ops lc_exec sample_lc_calls sample_lifecycle)) = [42]" by code_simp
  ultimately show ?thesis using run by (simp add: sample_request_def)
qed

text \<open>
  C28. An accepted slice always settles.  If the lifecycle still accepts the completion of
  its unfinished slice, the commit with the next KV version succeeds and credits exactly the
  slice; when the slice samples, any token id can then be published, which appends it to the
  output, and the request is free for its next slice.
\<close>

theorem accepted_slice_settles:
  assumes inv: "lc_inv (lc, ep)" and acc: "accepts_completion step s lc" "\<not> forward_committed lc" and t: "0 \<le> t"
  shows "\<exists>lc1. commit_computed_range step s (expected_state_version s + 1) ts (lc, ep) = (Inr (), lc1, ep) \<and>
    num_computed_tokens (machine lc1) = query_end s \<and> state_version lc1 = expected_state_version s + 1 \<and>
    (if sample_last_query s
     then \<exists>lc2. publish_sample step s t ts' (lc1, ep) = (Inr (), lc2, ep) \<and>
       output_token_ids lc2 = output_token_ids lc @ [t] \<and> num_computed_tokens (machine lc2) = query_end s \<and> inflight lc2 = None
     else inflight lc1 = None)"
proof -
  have r: "require_slice step s lc = Inr ()"
    using acc by (simp add: accepts_completion_def owns_slice_def require_slice_Inr stopped_def)
  let ?lc = "range_committed s (expected_state_version s + 1) ts lc"
  have c: "commit_computed_range step s (expected_state_version s + 1) ts (lc, ep) = (Inr (), ?lc, ep)"
    by (rule commit_accepted [OF inv r acc(2)])
  show ?thesis
  proof (cases "sample_last_query s")
    case True
    have inv1: "lc_inv (?lc, ep)" using lc_commit_inv [OF inv, of step s "expected_state_version s + 1" ts] c by simp
    have "mstate (moved s ts lc) \<notin> set TERMINAL_STATES"
      using ready_open(4) [OF inv r acc(2)] by (auto simp: TERMINAL_STATES_def split: if_splits)
    then have "require_slice step s ?lc = Inr ()" "forward_committed ?lc"
      using r True by (auto simp: require_slice_Inr stopped_def range_committed_def is_terminal_def Let_def)
    then have "publish_sample step s t ts' (?lc, ep) = (Inr (), published_token t ts' ?lc, ep)"
      using t by (cases rule: publish_cases [OF inv1, of step s t ts']) auto
    with c True show ?thesis
      by (auto simp: range_committed_def Let_def published_token_def clear_slice_def append_output_def)
  next
    case False
    with c show ?thesis by (auto simp: range_committed_def clear_slice_def Let_def)
  qed
qed

definition sample_in_flight :: lc_state where
  "sample_in_flight = run_ops lc_exec sample_lc_calls sample_lifecycle"

lemma sample_in_flight_inv: "lc_inv sample_in_flight"
  unfolding sample_in_flight_def
  by (rule lifecycle.run_inv [OF _ sample_lc_legal])
     (simp add: sample_lifecycle_def lc_init_inv [OF sample_request_ok])

theorem accepted_slice_settles_witness:
  "\<exists>lc1 ep. commit_computed_range 1 (lc_slice 1 2 1 PhaseDecode) 2 13 sample_in_flight = (Inr (), lc1, ep) \<and>
     num_computed_tokens (machine lc1) = 3"
proof -
  obtain lc ep where s: "sample_in_flight = (lc, ep)" by force
  have "(\<lambda>(lc, ep). accepts_completion 1 (lc_slice 1 2 1 PhaseDecode) lc \<and> \<not> forward_committed lc) sample_in_flight" by code_simp
  then have "accepts_completion 1 (lc_slice 1 2 1 PhaseDecode) lc \<and> \<not> forward_committed lc" unfolding s prod.case .
  then have a: "accepts_completion 1 (lc_slice 1 2 1 PhaseDecode) lc" "\<not> forward_committed lc" by blast+
  have inv: "lc_inv (lc, ep)" using sample_in_flight_inv by (simp only: s)
  from accepted_slice_settles [OF inv a, of 0 13 14] s show ?thesis
    by (auto simp: lc_slice_def query_end_def)
qed

text \<open>
  C25. A completion of a superseded incarnation is never accepted: once the epoch of a
  request has moved past the epoch of a slice (by preemption, retry, failure, cancellation,
  rebinding or discard), then after any further calls every attempt to commit, settle or
  publish that slice raises and changes nothing.
\<close>

theorem stale_completion_rejected:
  assumes inv: "lc_inv (lc, ep)" and stale: "sl_epoch s < sequence_epoch (machine lc)"
    and legal: "legal_run lc_exec lc_legal xs (lc, ep)" and run: "run_ops lc_exec xs (lc, ep) = (lc', ep')"
  shows "\<not> accepts_completion step s lc' \<and>
    (\<exists>e. commit_computed_range step s ver ts (lc', ep') = (Inl e, lc', ep')) \<and>
    (\<exists>e. commit_speculative_range step s tks ver ts (lc', ep') = (Inl e, lc', ep')) \<and>
    (\<exists>e. publish_sample step s t ts (lc', ep') = (Inl e, lc', ep'))"
proof -
  have inv': "lc_inv (lc', ep')" and "lc_next (lc, ep) (lc', ep')" using lc_run_next [OF inv legal] run by simp_all
  with stale have "sl_epoch s < sequence_epoch (machine lc')" by (simp add: lc_next_def)
  then have no: "require_slice step s lc' \<noteq> Inr ()" "\<not> accepts_completion step s lc'"
    by (auto simp: require_slice_Inr accepts_completion_def)
  moreover from no(1) obtain e where "commit_computed_range step s ver ts (lc', ep') = (Inl e, lc', ep')"
    using commit_cases [OF inv', of step s ver ts] by metis
  moreover from no(1) obtain e where "commit_speculative_range step s tks ver ts (lc', ep') = (Inl e, lc', ep')"
    using speculative_cases [OF inv', of step s tks ver ts] by metis
  moreover from no(1) obtain e where "publish_sample step s t ts (lc', ep') = (Inl e, lc', ep')"
    using publish_cases [OF inv', of step s t ts] by metis
  ultimately show ?thesis by blast
qed

theorem stale_completion_rejected_witness:
  "\<exists>lc ep e. run_ops lc_exec [(Lc_Discard 1 (lc_slice 1 2 1 PhaseDecode), 13)] sample_in_flight = (lc, ep) \<and>
     commit_computed_range 1 (lc_slice 1 2 1 PhaseDecode) 2 14 (lc, ep) = (Inl e, lc, ep)"
proof -
  obtain lc ep where s: "run_ops lc_exec [(Lc_Discard 1 (lc_slice 1 2 1 PhaseDecode), 13)] sample_in_flight = (lc, ep)" by force
  have "lc_inv (run_ops lc_exec [(Lc_Discard 1 (lc_slice 1 2 1 PhaseDecode), 13)] sample_in_flight)"
    by (rule lifecycle.run_inv [OF sample_in_flight_inv]) simp
  then have inv: "lc_inv (lc, ep)" by (simp only: s)
  have "(\<lambda>(lc, ep). sl_epoch (lc_slice 1 2 1 PhaseDecode) < sequence_epoch (machine lc))
      (run_ops lc_exec [(Lc_Discard 1 (lc_slice 1 2 1 PhaseDecode), 13)] sample_in_flight)" by code_simp
  then have "sl_epoch (lc_slice 1 2 1 PhaseDecode) < sequence_epoch (machine lc)" by (simp only: s prod.case)
  from stale_completion_rejected [OF inv this, of "[]" lc ep 1 2 14] s show ?thesis by auto
qed

text \<open>A successful forward commit, ordinary or speculative, spends the step of its slice.\<close>

definition step_spent :: "int \<Rightarrow> RequestLifecycle \<Rightarrow> bool" where
  "step_spent step lc \<longleftrightarrow>
     step \<le> last_scheduled_step lc \<and> (\<forall>s. inflight lc = Some (step, s) \<longrightarrow> forward_committed lc)"

lemma commit_spends:
  assumes inv: "lc_inv (lc, ep)" and ok: "commit_computed_range step s ver ts (lc, ep) = (Inr (), lc1, ep1)"
  shows "lc_inv (lc1, ep1) \<and> step_spent step lc1"
proof
  show "lc_inv (lc1, ep1)" using lc_commit_inv [OF inv, of step s ver ts] ok by simp
  show "step_spent step lc1"
  proof (cases rule: commit_cases [OF inv, of step s ver ts])
    case 2
    then have "step = last_scheduled_step lc" using ready_slice [OF inv 2(1)] by metis
    with 2 ok show ?thesis by (auto simp: step_spent_def range_committed_def clear_slice_def Let_def split: if_splits)
  qed (use ok in simp)
qed

lemma speculation_spends:
  assumes inv: "lc_inv (lc, ep)" and ok: "commit_speculative_range step s tks ver ts (lc, ep) = (Inr (), lc1, ep1)"
  shows "lc_inv (lc1, ep1) \<and> step_spent step lc1"
proof
  show "lc_inv (lc1, ep1)" using speculative_inv [OF inv, of step s tks ver ts] ok by simp
  show "step_spent step lc1"
  proof (cases rule: speculative_cases [OF inv, of step s tks ver ts])
    case 2
    then have "step = last_scheduled_step lc" using ready_slice [OF inv 2(1)] by metis
    with 2 ok show ?thesis by (auto simp: step_spent_def settled_def clear_slice_def fold_settle)
  qed (use ok in simp)
qed

text \<open>It stays spent, and no forward commit of a spent step passes the validation.\<close>

lemma spent_next:
  assumes "step_spent step lc1" "lc_next (lc1, ep1) (lc', ep')" "lc_inv (lc', ep')"
  shows "step_spent step lc'"
  unfolding step_spent_def
proof (intro conjI allI impI)
  show "step \<le> last_scheduled_step lc'" using assms(1,2) by (simp add: step_spent_def lc_next_def)
next
  fix s assume i: "inflight lc' = Some (step, s)"
  have "step = last_scheduled_step lc'" using lc_invD(4) [OF assms(3)] i by (simp add: flight_ok_def)
  with assms(1,2) have "\<not> last_scheduled_step lc1 < last_scheduled_step lc'" by (simp add: lc_next_def step_spent_def)
  with assms(2) i have "inflight lc1 = Some (step, s)" "forward_committed lc1 \<longrightarrow> forward_committed lc'"
    by (auto simp: lc_next_def)
  with assms(1) show "forward_committed lc'" by (simp add: step_spent_def)
qed

lemma spent_refused:
  assumes "lc_inv (lc, ep)" "step_spent step lc"
  shows "(\<exists>e. commit_computed_range step s ver ts (lc, ep) = (Inl e, lc, ep)) \<and>
    (\<exists>e. commit_speculative_range step s tks ver ts (lc, ep) = (Inl e, lc, ep))"
proof -
  have "\<not> (require_slice step s lc = Inr () \<and> \<not> forward_committed lc)"
    using assms(2) by (auto simp: require_slice_Inr step_spent_def)
  then show ?thesis
    using commit_cases [OF assms(1), of step s ver ts] speculative_cases [OF assms(1), of step s tks ver ts] by metis
qed

text \<open>
  C26. A step is credited at most once, on either path.  After a successful ordinary or
  speculative commit of a step's slice no sequence of further calls the engine makes gets the
  lifecycle to accept another forward commit for that step, ordinary or speculative, under
  whatever slice, tokens and version it is reported: it raises and changes nothing.
\<close>

theorem slice_commits_once:
  assumes inv: "lc_inv (lc, ep)"
    and ok: "commit_computed_range step s ver ts (lc, ep) = (Inr (), lc1, ep1) \<or>
      commit_speculative_range step s tks ver ts (lc, ep) = (Inr (), lc1, ep1)"
    and legal: "legal_run lc_exec lc_legal xs (lc1, ep1)" and run: "run_ops lc_exec xs (lc1, ep1) = (lc', ep')"
  shows "(\<exists>e. commit_computed_range step s' ver' ts' (lc', ep') = (Inl e, lc', ep')) \<and>
    (\<exists>e. commit_speculative_range step s' tks' ver' ts' (lc', ep') = (Inl e, lc', ep'))"
proof -
  have one: "lc_inv (lc1, ep1)" "step_spent step lc1"
    using ok commit_spends [OF inv] speculation_spends [OF inv] by blast+
  have "lc_inv (lc', ep')" "lc_next (lc1, ep1) (lc', ep')"
    using lc_run_next [OF one(1) legal] run by simp_all
  with spent_next [OF one(2)] show ?thesis by (intro spent_refused)
qed

theorem slice_commits_once_witness:
  "\<exists>lc1 ep1 e1 e2 lc2 ep2 e3 e4.
     commit_computed_range 1 (lc_slice 1 2 1 PhaseDecode) 2 13 sample_in_flight = (Inr (), lc1, ep1) \<and>
     commit_computed_range 1 (lc_slice 1 2 1 PhaseDecode) 2 13 (lc1, ep1) = (Inl e1, lc1, ep1) \<and>
     commit_speculative_range 1 (lc_slice 1 2 1 PhaseDecode) [43, 44] 2 13 (lc1, ep1) = (Inl e2, lc1, ep1) \<and>
     commit_speculative_range 1 (lc_slice 1 2 1 PhaseDecode) [43, 44] 2 13 sample_in_flight = (Inr (), lc2, ep2) \<and>
     commit_computed_range 1 (lc_slice 1 2 1 PhaseDecode) 2 13 (lc2, ep2) = (Inl e3, lc2, ep2) \<and>
     commit_speculative_range 1 (lc_slice 1 2 1 PhaseDecode) [43, 44] 2 13 (lc2, ep2) = (Inl e4, lc2, ep2)"
proof -
  let ?s = "lc_slice 1 2 1 PhaseDecode"
  obtain lc ep where s: "sample_in_flight = (lc, ep)" by force
  have inv: "lc_inv (lc, ep)" using sample_in_flight_inv by (simp only: s)
  have "fst (commit_computed_range 1 ?s 2 13 sample_in_flight) = Inr ()" by code_simp
  then obtain lc1 ep1 where c: "commit_computed_range 1 ?s 2 13 sample_in_flight = (Inr (), lc1, ep1)"
    by (metis prod.collapse)
  have "fst (commit_speculative_range 1 ?s [43, 44] 2 13 sample_in_flight) = Inr ()" by code_simp
  then obtain lc2 ep2 where d: "commit_speculative_range 1 ?s [43, 44] 2 13 sample_in_flight = (Inr (), lc2, ep2)"
    by (metis prod.collapse)
  from slice_commits_once [OF inv disjI1 [OF c [unfolded s]], of "[]" lc1 ep1 ?s 2 13 "[43, 44]"]
  obtain e1 e2 where "commit_computed_range 1 ?s 2 13 (lc1, ep1) = (Inl e1, lc1, ep1)"
    "commit_speculative_range 1 ?s [43, 44] 2 13 (lc1, ep1) = (Inl e2, lc1, ep1)" by auto
  moreover from slice_commits_once [OF inv disjI2 [OF d [unfolded s]], of "[]" lc2 ep2 ?s 2 13 "[43, 44]"]
  obtain e3 e4 where "commit_computed_range 1 ?s 2 13 (lc2, ep2) = (Inl e3, lc2, ep2)"
    "commit_speculative_range 1 ?s [43, 44] 2 13 (lc2, ep2) = (Inl e4, lc2, ep2)" by auto
  ultimately show ?thesis using c d by blast
qed

section \<open>Speculative settlement is a sequence of decode steps\<close>

text \<open>The slice of the following ordinary step, and the ordinary steps for a list of tokens.\<close>

definition next_slice :: "ScheduledSlice \<Rightarrow> ScheduledSlice" where
  "next_slice s = s\<lparr>expected_state_version := expected_state_version s + 1, query_start := query_start s + 1\<rparr>"

fun ordinary_steps :: "int \<Rightarrow> ScheduledSlice \<Rightarrow> int list \<Rightarrow> int \<Rightarrow> (lc_state, unit) py" where
  "ordinary_steps step s [] ts = ret ()"
| "ordinary_steps step s (t # rest) ts =
     andthen (commit_computed_range step s (expected_state_version s + 1) ts) (\<lambda>_.
     andthen (publish_sample step s t ts) (\<lambda>_.
     if rest = [] then ret ()
     else andthen (begin_slice (step + 1) (next_slice s) ts) (\<lambda>_. ordinary_steps (step + 1) (next_slice s) rest ts)))"

text \<open>One ordinary decode step publishes what settling one token does.\<close>

lemma decode_step:
  assumes inv: "lc_inv (lc, ep)" and r: "require_slice step s lc = Inr ()" "\<not> forward_committed lc"
    and s: "phase s = PhaseDecode" "sample_last_query s" and t: "0 \<le> t"
  shows "andthen (commit_computed_range step s (expected_state_version s + 1) ts) (\<lambda>_. andthen (publish_sample step s t ts) f) (lc, ep) =
    f () (clear_slice ((settle_one ts t lc)\<lparr>state_version := expected_state_version s + 1\<rparr>), ep)"
proof -
  let ?lc = "range_committed s (expected_state_version s + 1) ts lc"
  note R = ready_open [OF inv r]
  have c: "commit_computed_range step s (expected_state_version s + 1) ts (lc, ep) = (Inr (), ?lc, ep)"
    by (rule commit_accepted [OF inv r])
  have inv1: "lc_inv (?lc, ep)" using lc_commit_inv [OF inv, of step s "expected_state_version s + 1" ts] c by simp
  have m: "moved s ts lc = (machine lc)\<lparr>num_computed_tokens := num_computed_tokens (machine lc) + 1\<rparr>"
    using s R(1,9) by (simp add: moved_def query_end_def)
  have "mstate (machine lc) \<notin> set TERMINAL_STATES" using R(4) by (auto simp: TERMINAL_STATES_def split: if_splits)
  then have "require_slice step s ?lc = Inr ()" "forward_committed ?lc"
    using r s by (auto simp: require_slice_Inr stopped_def range_committed_def is_terminal_def Let_def m)
  then have p: "publish_sample step s t ts (?lc, ep) = (Inr (), published_token t ts ?lc, ep)"
    using t by (cases rule: publish_cases [OF inv1, of step s t ts]) auto
  have "published_token t ts ?lc = clear_slice ((settle_one ts t lc)\<lparr>state_version := expected_state_version s + 1\<rparr>)"
    using s by (intro RequestLifecycle.equality)
      (simp_all add: published_token_def range_committed_def m settle_one_def append_output_def clear_slice_def)
  with c p show ?thesis by (simp add: andthen_def)
qed

lemma settled_inv:
  assumes inv: "lc_inv (lc, ep)" and r: "require_slice step s lc = Inr ()" "\<not> forward_committed lc"
    and s: "phase s = PhaseDecode" "sample_last_query s" and t: "0 \<le> t"
  shows "lc_inv (clear_slice ((settle_one ts t lc)\<lparr>state_version := expected_state_version s + 1\<rparr>), ep)"
proof -
  have "evolves (andthen (commit_computed_range step s (expected_state_version s + 1) ts) (\<lambda>_. andthen (publish_sample step s t ts) ret))"
    by (intro evolves_rules)
  from evolvesD [OF this inv] show ?thesis by (simp add: decode_step [OF assms])
qed

text \<open>The next ordinary slice can be claimed while the output budget lasts.\<close>

lemma next_claim:
  fixes ts :: int
  assumes inv: "lc_inv (lc, ep)" and r: "require_slice step s lc = Inr ()" "\<not> forward_committed lc"
    and s: "phase s = PhaseDecode" "sample_last_query s" and t: "0 \<le> t"
    and room: "int (length (output_token_ids lc)) + 1 < max_tokens (stop (request lc))" and step: "0 \<le> step"
  defines "lc1 \<equiv> clear_slice ((settle_one ts t lc)\<lparr>state_version := expected_state_version s + 1\<rparr>)"
  shows "\<exists>v. begin_slice (step + 1) (next_slice s) ts (lc1, ep) =
    (Inr v, lc1\<lparr>inflight := Some (step + 1, next_slice s), input_snapshot := Some v, forward_committed := False,
       last_scheduled_step := step + 1\<rparr>, ep)"
proof -
  note R = ready_open [OF inv r]
  have inv1: "lc_inv (lc1, ep)" unfolding lc1_def by (rule settled_inv [OF assms(1-6)])
  obtain b0 where b0: "slice_ready s b0 lc" "step = last_scheduled_step lc" using ready_slice [OF inv r(1)] by metis
  then have "lc_snapshot lc = Inr b0" using r(2) by (simp add: slice_ready_def)
  then obtain h where h: "sequence lc = Some h" "binding_epoch lc = sequence_epoch (machine lc)"
    using snapshot_Inr by blast
  let ?v = "step_input lc1 h (state_version lc1) (num_computed_tokens (machine lc1))"
  have v: "lc_snapshot lc1 = Inr ?v"
    by (rule snapshot_current [OF inv1]) (simp_all add: lc1_def clear_slice_def h)
  have k: "int (length (known_tokens lc)) = prompt_len (request lc) + int (length (output_token_ids lc))"
    using lc_invD(3) [OF inv] by (simp add: output_ok_def prompt_len_def)
  have m: "mstate (machine lc) \<in> set [DECODING, STREAMING]" using R(4) s by simp
  have "validate_slice ?v (next_slice s) = Inr ()"
    using R(1,6,9,10,11) R(7) [OF s(2)] R(13) [OF s(1)] s room k r(1)
    by (simp add: validate_slice_def next_slice_def step_input_def lc1_def clear_slice_def query_end_def require_slice_Inr)
  then have ok: "validate_begin_slice (step + 1) (next_slice s) lc1 = Inr ?v"
    using v step m r(1) b0(2) s
    by (auto simp: validate_begin_Inr lc1_def clear_slice_def next_slice_def require_slice_Inr stopped_def is_terminal_def)
  have "executing (next_slice s) ts (machine lc1) = machine lc1"
    using m by (auto simp: executing_def lc1_def clear_slice_def)
  then have "lc1\<lparr>machine := executing (next_slice s) ts (machine lc1)\<rparr> = lc1" by simp
  with ok show ?thesis by (intro exI [of _ ?v]) (simp add: begin_slice_def del: RequestLifecycle.update_convs)
qed

text \<open>What remains of a lifecycle when the slice bookkeeping is masked commutes with settling.\<close>

definition masked :: "int \<Rightarrow> int \<Rightarrow> RequestLifecycle \<Rightarrow> RequestLifecycle" where
  "masked v k lc = (clear_slice lc)\<lparr>state_version := v, last_scheduled_step := k\<rparr>"

lemma masked_settle: "masked v k (settle_one ts t lc) = settle_one ts t (masked v k lc)"
  by (intro RequestLifecycle.equality) (simp_all add: masked_def clear_slice_def settle_one_def append_output_def)

lemma masked_fold: "masked v k (fold (settle_one ts) tks lc) = fold (settle_one ts) tks (masked v k lc)"
  by (induction tks arbitrary: lc) (simp_all add: masked_settle)

lemma masked_settled: "masked v k (settled tks ver ts lc) = fold (settle_one ts) tks (masked v k lc)"
proof -
  have "masked v k (settled tks ver ts lc) = masked v k (fold (settle_one ts) tks lc)"
    by (simp add: masked_def settled_def clear_slice_def)
  then show ?thesis by (simp add: masked_fold)
qed

lemma next_slice_valid: "slice_validate s = Inr () \<Longrightarrow> slice_validate (next_slice s) = Inr ()"
  by (auto simp: slice_validate_def ebind_Inr_iff next_slice_def)

lemma ordinary_steps_settle:
  assumes "lc_inv (lc, ep)" "require_slice step s lc = Inr ()" "\<not> forward_committed lc"
    "phase s = PhaseDecode" "sample_last_query s" "tks \<noteq> []" "\<forall>t\<in>set tks. 0 \<le> t" "0 \<le> step"
    "int (length (output_token_ids lc)) + int (length tks) \<le> max_tokens (stop (request lc))"
  shows "\<exists>lc'. ordinary_steps step s tks ts (lc, ep) = (Inr (), lc', ep) \<and>
    masked v k lc' = fold (settle_one ts) tks (masked v k lc) \<and> lc' = clear_slice lc' \<and>
    state_version lc' = expected_state_version s + int (length tks) \<and> last_scheduled_step lc' = step + int (length tks) - 1"
  using assms
proof (induction tks arbitrary: lc step s)
  case (Cons t tks)
  let ?lc1 = "clear_slice ((settle_one ts t lc)\<lparr>state_version := expected_state_version s + 1\<rparr>)"
  have t: "0 \<le> t" using Cons.prems(7) by simp
  have last: "step = last_scheduled_step lc" by (rule ready_slice [OF Cons.prems(1,2)])
  have step: "ordinary_steps step s (t # tks) ts (lc, ep) =
      (if tks = [] then ret () else andthen (begin_slice (step + 1) (next_slice s) ts)
         (\<lambda>_. ordinary_steps (step + 1) (next_slice s) tks ts)) (?lc1, ep)"
    by (simp add: decode_step [OF Cons.prems(1-5) t])
  have m1: "masked v k ?lc1 = settle_one ts t (masked v k lc)"
    unfolding masked_settle [symmetric] by (simp add: masked_def clear_slice_def)
  show ?case
  proof (cases "tks = []")
    case True
    with step m1 last show ?thesis by (auto simp: clear_slice_def)
  next
    case False
    then have "1 \<le> int (length tks)" by (cases tks) simp_all
    with Cons.prems(9) have room: "int (length (output_token_ids lc)) + 1 < max_tokens (stop (request lc))" by simp
    obtain w where b: "begin_slice (step + 1) (next_slice s) ts (?lc1, ep) =
      (Inr w, ?lc1\<lparr>inflight := Some (step + 1, next_slice s), input_snapshot := Some w, forward_committed := False,
         last_scheduled_step := step + 1\<rparr>, ep)" (is "_ = (_, ?lc2, _)")
      using next_claim [OF Cons.prems(1-5) t room Cons.prems(8)] by blast
    have inv1: "lc_inv (?lc1, ep)" by (rule settled_inv [OF Cons.prems(1-5) t])
    have "slice_validate s = Inr ()" by (rule ready_slice [OF Cons.prems(1,2)])
    then have "slice_validate (next_slice s) = Inr ()" by (rule next_slice_valid)
    from begin_slice_inv [OF inv1 this, of "step + 1" ts] b have inv2: "lc_inv (?lc2, ep)" by simp
    have r2: "require_slice (step + 1) (next_slice s) ?lc2 = Inr ()"
      using Cons.prems(2) by (simp add: require_slice_Inr next_slice_def clear_slice_def stopped_def is_terminal_def)
    have "\<exists>lc'. ordinary_steps (step + 1) (next_slice s) tks ts (?lc2, ep) = (Inr (), lc', ep) \<and>
      masked v k lc' = fold (settle_one ts) tks (masked v k ?lc2) \<and> lc' = clear_slice lc' \<and>
      state_version lc' = expected_state_version (next_slice s) + int (length tks) \<and>
      last_scheduled_step lc' = step + 1 + int (length tks) - 1"
      by (rule Cons.IH [OF inv2 r2])
        (use Cons.prems False in \<open>simp_all add: next_slice_def clear_slice_def\<close>)
    then obtain lc' where o: "ordinary_steps (step + 1) (next_slice s) tks ts (?lc2, ep) = (Inr (), lc', ep)"
      "masked v k lc' = fold (settle_one ts) tks (masked v k ?lc2)" "lc' = clear_slice lc'"
      "state_version lc' = expected_state_version (next_slice s) + int (length tks)"
      "last_scheduled_step lc' = step + 1 + int (length tks) - 1" by blast
    have "ordinary_steps step s (t # tks) ts (lc, ep) = (Inr (), lc', ep)" 
      unfolding step using False o(1) by (simp add: andthen_def b)
    moreover have "masked v k ?lc2 = masked v k ?lc1" by (simp add: masked_def clear_slice_def)
    ultimately show ?thesis using o(2-5) m1 by (intro exI [of _ lc']) (simp add: next_slice_def)
  qed
qed simp

text \<open>
  C29. Settling accepted draft tokens is equivalent to decoding them one by one.  For an
  unfinished decode slice and any tokens within the output budget, settling them
  in one speculative commit succeeds, and so do the ordinary steps that commit, publish and
  begin again for each token; both end in the same lifecycle, except that the ordinary run
  used one KV version and one step number per token.
\<close>

theorem speculative_equals_ordinary_steps:
  assumes inv: "lc_inv (lc, ep)" and r: "require_slice step s lc = Inr ()" "\<not> forward_committed lc"
    and s: "phase s = PhaseDecode" "sample_last_query s" and tks: "tks \<noteq> []" "\<forall>t\<in>set tks. 0 \<le> t" and step: "0 \<le> step"
    and room: "int (length (output_token_ids lc)) + int (length tks) \<le> max_tokens (stop (request lc))"
  shows "\<exists>lc1 lc2. commit_speculative_range step s tks (expected_state_version s + 1) ts (lc, ep) = (Inr (), lc1, ep) \<and>
    ordinary_steps step s tks ts (lc, ep) = (Inr (), lc2, ep) \<and>
    lc1 = lc2\<lparr>state_version := expected_state_version s + 1, last_scheduled_step := step\<rparr> \<and>
    state_version lc2 = expected_state_version s + int (length tks) \<and>
    last_scheduled_step lc2 = step + int (length tks) - 1"
proof -
  let ?v = "expected_state_version s + 1"
  let ?lc1 = "settled tks ?v ts lc"
  have "step = last_scheduled_step lc" by (rule ready_slice [OF inv r(1)])
  then have "masked ?v step ?lc1 = ?lc1" by (simp add: masked_def settled_def clear_slice_def fold_settle)
  moreover have "commit_speculative_range step s tks ?v ts (lc, ep) = (Inr (), ?lc1, ep)"
    by (rule speculative_accepted [OF assms(1-7) room])
  moreover obtain lc2 where "ordinary_steps step s tks ts (lc, ep) = (Inr (), lc2, ep)"
    "masked ?v step lc2 = fold (settle_one ts) tks (masked ?v step lc)" "lc2 = clear_slice lc2"
    "state_version lc2 = expected_state_version s + int (length tks)" "last_scheduled_step lc2 = step + int (length tks) - 1"
    using ordinary_steps_settle [OF assms] by metis
  moreover from this(3) have "masked ?v step lc2 = lc2\<lparr>state_version := ?v, last_scheduled_step := step\<rparr>"
    by (simp add: masked_def)
  ultimately show ?thesis by (auto simp: masked_settled)
qed

theorem speculative_equals_ordinary_steps_witness:
  "\<exists>lc1 lc2 ep. commit_speculative_range 1 (lc_slice 1 2 1 PhaseDecode) [43, 44] 2 13 sample_in_flight = (Inr (), lc1, ep) \<and>
     ordinary_steps 1 (lc_slice 1 2 1 PhaseDecode) [43, 44] 13 sample_in_flight = (Inr (), lc2, ep) \<and>
     lc1 = lc2\<lparr>state_version := 2, last_scheduled_step := 1\<rparr>"
proof -
  obtain lc ep where s: "sample_in_flight = (lc, ep)" by force
  have "(\<lambda>(lc, ep). require_slice 1 (lc_slice 1 2 1 PhaseDecode) lc = Inr () \<and> \<not> forward_committed lc \<and>
     int (length (output_token_ids lc)) + 2 \<le> max_tokens (stop (request lc))) sample_in_flight" by code_simp
  then have "require_slice 1 (lc_slice 1 2 1 PhaseDecode) lc = Inr () \<and> \<not> forward_committed lc \<and>
     int (length (output_token_ids lc)) + 2 \<le> max_tokens (stop (request lc))" unfolding s prod.case .
  then have a: "require_slice 1 (lc_slice 1 2 1 PhaseDecode) lc = Inr ()" "\<not> forward_committed lc"
    "int (length (output_token_ids lc)) + 2 \<le> max_tokens (stop (request lc))" by blast+
  have inv: "lc_inv (lc, ep)" using sample_in_flight_inv by (simp only: s)
  have sl: "phase (lc_slice 1 2 1 PhaseDecode) = PhaseDecode" "sample_last_query (lc_slice 1 2 1 PhaseDecode)"
    "expected_state_version (lc_slice 1 2 1 PhaseDecode) + 1 = 2" by (simp_all add: lc_slice_def)
  have tks: "[43, 44] \<noteq> ([] :: int list)" "\<forall>t\<in>set [43, 44]. 0 \<le> (t :: int)" by simp_all
  have room: "int (length (output_token_ids lc)) + int (length [43 :: int, 44]) \<le> max_tokens (stop (request lc))"
    using a(3) by simp
  from speculative_equals_ordinary_steps [OF inv a(1,2) sl(1,2) tks zero_le_one room, of 13]
  show ?thesis unfolding s sl(3) by blast
qed

end
