(* ===== verification/Lifecycle_Manager.thy ===== *)
theory Lifecycle_Manager
  imports Lifecycle_Properties
begin

text \<open>
  The registry of requests, \<open>LifecycleManager\<close> of \<open>request/lifecycle.py\<close>.  Other components
  keep references to the lifecycle objects it creates, and an object outlives its entry in
  the registry, so the model has an explicit store: \<open>objects\<close> holds every lifecycle ever
  created, a reference is an index into it, and the two tables map request ids to references.
\<close>

section \<open>The registry\<close>

record LifecycleManager =
  objects :: "RequestLifecycle list"
  active :: "(string \<times> nat) list"
  finished :: "(string \<times> nat) list"
  last_step_id :: int
  mgr_max_retries :: int

type_synonym mgr_state = "LifecycleManager \<times> int"

definition LifecycleManager_init :: "int \<Rightarrow> LifecycleManager" where
  "LifecycleManager_init retries =
     \<lparr>objects = [], active = [], finished = [], last_step_id = - 1, mgr_max_retries = retries\<rparr>"

text \<open>A call on one lifecycle object.\<close>

definition at_ref :: "nat \<Rightarrow> (lc_state, 'a) py \<Rightarrow> (mgr_state, 'a) py" where
  "at_ref r f = (\<lambda>(g, ep).
     case f (objects g ! r, ep) of (x, lc, ep') \<Rightarrow> (x, g\<lparr>objects := (objects g)[r := lc]\<rparr>, ep'))"

definition create :: "Request \<Rightarrow> int \<Rightarrow> (mgr_state, nat) py" where
  "create q now = (\<lambda>(g, ep).
     if map_of (active g) (rq_id q) \<noteq> None \<or> map_of (finished g) (rq_id q) \<noteq> None then (Inl ValueError, (g, ep))
     else let (lc, ep') = RequestLifecycle_init q (mgr_max_retries g) now ep; r = length (objects g) in
       (Inr r, (g\<lparr>objects := objects g @ [lc], active := AList.update (rq_id q) r (active g)\<rparr>, ep')))"

definition find :: "LifecycleManager \<Rightarrow> string \<Rightarrow> nat option" where
  "find g rid = (case map_of (active g) rid of Some r \<Rightarrow> Some r | None \<Rightarrow> map_of (finished g) rid)"

definition lc_get :: "LifecycleManager \<Rightarrow> string \<Rightarrow> pyerror + nat" where
  "lc_get g rid = (case find g rid of None \<Rightarrow> Inl UnknownRequest | Some r \<Rightarrow> Inr r)"

text \<open>Only this exact object is retired, never a replacement with the same id.\<close>

definition retire_terminal :: "nat \<Rightarrow> LifecycleManager \<Rightarrow> LifecycleManager" where
  "retire_terminal r g =
     (let lc = objects g ! r; rid = rq_id (request lc) in
      if is_terminal (machine lc) \<and> map_of (active g) rid = Some r
      then g\<lparr>active := AList.delete rid (active g), finished := AList.update rid r (finished g)\<rparr>
      else g)"

definition apply_one :: "int \<Rightarrow> int \<Rightarrow> RequestReport \<Rightarrow> (mgr_state, unit) py" where
  "apply_one step ts e = (\<lambda>(g, ep).
     case map_of (active g) (rep_request_id e) of
       None \<Rightarrow>
         if map_of (finished g) (rep_request_id e) \<noteq> None then (Inr (), (g, ep)) else (Inl UnknownRequest, (g, ep))
     | Some r \<Rightarrow>
         if rep_epoch e \<noteq> sequence_epoch (machine (objects g ! r)) then (Inr (), (g, ep))
         else andthen (at_ref r (apply_report e step ts)) (\<lambda>retire.
           if retire then modify (\<lambda>(g, ep). (retire_terminal r g, ep)) else ret ()) (g, ep))"

definition apply_scheduler_report :: "SchedulerReport \<Rightarrow> int \<Rightarrow> (mgr_state, unit) py" where
  "apply_scheduler_report sr ts =
     andthen (reads (\<lambda>(g, ep). require (last_step_id g < srep_step_id sr) ValueError)) (\<lambda>_.
     andthen (for_each (apply_one (srep_step_id sr) ts) (reports sr)) (\<lambda>_.
     modify (\<lambda>(g, ep). (g\<lparr>last_step_id := srep_step_id sr\<rparr>, ep))))"

definition advance_to_queue :: "string \<Rightarrow> int \<Rightarrow> bool \<Rightarrow> int \<Rightarrow> (mgr_state, unit) py" where
  "advance_to_queue rid cached defer_remote ts = (\<lambda>(g, ep).
     case lc_get g rid of
       Inl e \<Rightarrow> (Inl e, (g, ep))
     | Inr r \<Rightarrow> at_ref r (enter_queue cached defer_remote ts) (g, ep))"

definition forget :: "string \<Rightarrow> (mgr_state, unit) py" where
  "forget rid = (\<lambda>(g, ep).
     if map_of (active g) rid \<noteq> None then (Inl ValueError, (g, ep))
     else (Inr (), (g\<lparr>finished := AList.delete rid (finished g)\<rparr>, ep)))"

definition mgr_rollback :: "string \<Rightarrow> (mgr_state, bool) py" where
  "mgr_rollback rid = (\<lambda>(g, ep).
     (Inr (map_of (active g) rid \<noteq> None), (g\<lparr>active := AList.delete rid (active g)\<rparr>, ep)))"

definition reap :: "int \<Rightarrow> int \<Rightarrow> (mgr_state, string list) py" where
  "reap older_than now = (\<lambda>(g, ep).
     if older_than = 0 then (Inr (map fst (finished g)), (g\<lparr>finished := []\<rparr>, ep))
     else let reaped = map fst (filter (\<lambda>(rid, r). finished_ns (timing (machine (objects g ! r))) \<le> now - older_than)
                                  (finished g)) in
       (Inr reaped, (g\<lparr>finished := fold AList.delete reaped (finished g)\<rparr>, ep)))"

definition mgr_cancel :: "string \<Rightarrow> string \<Rightarrow> (mgr_state, bool) py" where
  "mgr_cancel rid reason = (\<lambda>(g, ep).
     case map_of (active g) rid of
       None \<Rightarrow> (Inr False, (g, ep))
     | Some r \<Rightarrow>
         andthen (reads (\<lambda>(g, ep). Inr (fst (token_cancel reason (token (objects g ! r)))))) (\<lambda>did.
         andthen (at_ref r (on_lc (\<lambda>lc. lc\<lparr>token := snd (token_cancel reason (token lc))\<rparr>))) (\<lambda>_. ret did)) (g, ep))"

definition cancelled_requests :: "LifecycleManager \<Rightarrow> nat list" where
  "cancelled_requests g = filter (\<lambda>r. tok_cancelled (token (objects g ! r))) (map snd (active g))"

section \<open>The calls as one datatype\<close>

text \<open>\<open>Mgr_Object\<close> is a call that a holder of a reference makes on the lifecycle itself.\<close>

datatype mgr_op =
    Mgr_Create Request
  | Mgr_Advance string int bool
  | Mgr_Apply SchedulerReport
  | Mgr_Forget string
  | Mgr_Rollback string
  | Mgr_Reap int
  | Mgr_Cancel string string
  | Mgr_Retire nat
  | Mgr_Object nat lc_op

fun mgr_exec :: "mgr_op \<times> int \<Rightarrow> (mgr_state, unit) py" where
  "mgr_exec (Mgr_Create q, ts) = discard (create q ts)"
| "mgr_exec (Mgr_Advance rid cached defer_remote, ts) = advance_to_queue rid cached defer_remote ts"
| "mgr_exec (Mgr_Apply sr, ts) = apply_scheduler_report sr ts"
| "mgr_exec (Mgr_Forget rid, ts) = forget rid"
| "mgr_exec (Mgr_Rollback rid, ts) = discard (mgr_rollback rid)"
| "mgr_exec (Mgr_Reap older_than, ts) = discard (reap older_than ts)"
| "mgr_exec (Mgr_Cancel rid reason, ts) = discard (mgr_cancel rid reason)"
| "mgr_exec (Mgr_Retire r, ts) = modify (\<lambda>(g, ep). (retire_terminal r g, ep))"
| "mgr_exec (Mgr_Object r c, ts) = at_ref r (lc_exec (c, ts))"

fun mgr_legal :: "mgr_op \<times> int \<Rightarrow> mgr_state \<Rightarrow> bool" where
  "mgr_legal (Mgr_Create q, ts) _ = request_ok q"
| "mgr_legal (Mgr_Retire r, ts) (g, ep) = (r < length (objects g))"
| "mgr_legal (Mgr_Object r c, ts) (g, ep) = (r < length (objects g) \<and> lc_legal (c, ts) (objects g ! r, ep))"
| "mgr_legal _ _ = True"

section \<open>The invariant\<close>

definition store_ok :: "RequestLifecycle list \<Rightarrow> int \<Rightarrow> bool" where
  "store_ok os ep \<longleftrightarrow> (\<forall>lc\<in>set os. lc_inv (lc, ep)) \<and> distinct (map (\<lambda>lc. sequence_epoch (machine lc)) os)"

definition tables_ok :: "LifecycleManager \<Rightarrow> bool" where
  "tables_ok g \<longleftrightarrow>
     (\<forall>rid r. map_of (active g) rid = Some r \<or> map_of (finished g) rid = Some r \<longrightarrow>
        r < length (objects g) \<and> rq_id (request (objects g ! r)) = rid) \<and>
     (\<forall>rid. map_of (active g) rid = None \<or> map_of (finished g) rid = None) \<and>
     (\<forall>rid r. map_of (finished g) rid = Some r \<longrightarrow> is_terminal (machine (objects g ! r)))"

definition mgr_inv :: "mgr_state \<Rightarrow> bool" where
  "mgr_inv = (\<lambda>(g, ep). 1 \<le> ep \<and> 0 \<le> mgr_max_retries g \<and> store_ok (objects g) ep \<and> tables_ok g)"

text \<open>
  Objects only evolve and are never dropped from the store; an id becomes active only with a
  new object, whose epoch is new.
\<close>

definition mgr_next :: "mgr_state \<Rightarrow> mgr_state \<Rightarrow> bool" where
  "mgr_next = (\<lambda>(g, ep) (g', ep').
     ep \<le> ep' \<and> length (objects g) \<le> length (objects g') \<and>
     (\<forall>r<length (objects g). lc_next (objects g ! r, ep) (objects g' ! r, ep')) \<and>
     (\<forall>r<length (objects g'). length (objects g) \<le> r \<longrightarrow> ep \<le> sequence_epoch (machine (objects g' ! r))) \<and>
     (\<forall>rid r. map_of (active g') rid = Some r \<longrightarrow> map_of (active g) rid = Some r \<or> length (objects g) \<le> r))"

definition mgr_evolves :: "(mgr_state, 'a) py \<Rightarrow> bool" where
  "mgr_evolves x \<longleftrightarrow> (\<forall>s. mgr_inv s \<longrightarrow> mgr_inv (snd (x s)) \<and> mgr_next s (snd (x s)))"

lemma lc_inv_mono: "lc_inv (lc, ep) \<Longrightarrow> ep \<le> ep' \<Longrightarrow> lc_inv (lc, ep')"
  by (auto simp: lc_inv_def machine_inv_def flight_ok_def split: option.splits)

lemma lc_next_wait: "ep \<le> ep' \<Longrightarrow> lc_next (lc, ep) (lc, ep')"
  by (simp add: lc_next_def)

lemma lc_next_epoch:
  "lc_next (lc, ep) (lc', ep') \<Longrightarrow> ep \<le> ep' \<and> sequence_epoch (machine lc) \<le> sequence_epoch (machine lc') \<and> request lc' = request lc \<and>
     (sequence_epoch (machine lc') = sequence_epoch (machine lc) \<or> ep \<le> sequence_epoch (machine lc')) \<and>
     (is_terminal (machine lc) \<longrightarrow> is_terminal (machine lc'))"
  by (auto simp: lc_next_def)

lemma mgr_next_refl [simp]: "mgr_next s s"
  by (auto simp: mgr_next_def split: prod.splits)

lemma mgr_nextD:
  assumes "mgr_next (g, ep) (g', ep')"
  shows "ep \<le> ep'" "length (objects g) \<le> length (objects g')"
    "r < length (objects g) \<Longrightarrow> lc_next (objects g ! r, ep) (objects g' ! r, ep')"
    "r < length (objects g') \<Longrightarrow> length (objects g) \<le> r \<Longrightarrow> ep \<le> sequence_epoch (machine (objects g' ! r))"
    "map_of (active g') rid = Some r \<Longrightarrow> map_of (active g) rid = Some r \<or> length (objects g) \<le> r"
  using assms by (simp_all add: mgr_next_def)

lemma mgr_nextI:
  assumes "ep \<le> ep'" "length (objects g) \<le> length (objects g')"
    "\<And>r. r < length (objects g) \<Longrightarrow> lc_next (objects g ! r, ep) (objects g' ! r, ep')"
    "\<And>r. r < length (objects g') \<Longrightarrow> length (objects g) \<le> r \<Longrightarrow> ep \<le> sequence_epoch (machine (objects g' ! r))"
    "\<And>rid r. map_of (active g') rid = Some r \<Longrightarrow> map_of (active g) rid = Some r \<or> length (objects g) \<le> r"
  shows "mgr_next (g, ep) (g', ep')"
  using assms by (simp add: mgr_next_def)

lemma mgr_next_trans:
  assumes st: "mgr_next s t" and tu: "mgr_next t u"
  shows "mgr_next s u"
proof -
  obtain g ep g' ep' g'' ep'' where s: "s = (g, ep)" "t = (g', ep')" "u = (g'', ep'')" by (metis surj_pair)
  note N = mgr_nextD [OF st [unfolded s]]
  note M = mgr_nextD [OF tu [unfolded s]]
  show ?thesis unfolding s
  proof (rule mgr_nextI)
    fix r assume "r < length (objects g)"
    with N(2) show "lc_next (objects g ! r, ep) (objects g'' ! r, ep'')" by (intro lc_next_trans [OF N(3) M(3)]) simp_all
  next
    fix r assume r: "r < length (objects g'')" "length (objects g) \<le> r"
    show "ep \<le> sequence_epoch (machine (objects g'' ! r))"
    proof (cases "r < length (objects g')")
      case True
      from N(4) [OF True r(2)] lc_next_epoch [OF M(3) [OF True]] show ?thesis by simp
    next
      case False
      with M(4) [OF r(1)] N(1) show ?thesis by simp
    qed
  next
    fix rid r assume "map_of (active g'') rid = Some r"
    with M(5) N(2,5) show "map_of (active g) rid = Some r \<or> length (objects g) \<le> r" by fastforce
  qed (use N(1,2) M(1,2) in simp_all)
qed

lemma mgr_evolvesD: "mgr_evolves x \<Longrightarrow> mgr_inv s \<Longrightarrow> mgr_inv (snd (x s)) \<and> mgr_next s (snd (x s))"
  by (simp only: mgr_evolves_def)

lemma mgr_evolves_andthen: "mgr_evolves x \<Longrightarrow> (\<And>y. mgr_evolves (f y)) \<Longrightarrow> mgr_evolves (andthen x f)"
  unfolding mgr_evolves_def andthen_def
  by (auto split: prod.splits sum.splits) (metis mgr_next_trans snd_conv)+

lemma mgr_evolves_simple: "mgr_evolves (ret x)" "mgr_evolves (reads h)" "mgr_evolves x \<Longrightarrow> mgr_evolves (discard x)"
  by (simp_all add: mgr_evolves_def)

lemma mgr_evolves_for_each: "(\<And>x. mgr_evolves (f x)) \<Longrightarrow> mgr_evolves (for_each f xs)"
proof (induction xs)
  case Nil
  then show ?case by (simp add: mgr_evolves_def)
next
  case (Cons x xs)
  have "for_each f (x # xs) = andthen (f x) (\<lambda>_. for_each f xs)" by (rule ext) (simp add: andthen_def)
  with Cons show ?case by (simp add: mgr_evolves_andthen)
qed

lemma mgr_invD:
  assumes "mgr_inv (g, ep)"
  shows "1 \<le> ep" "0 \<le> mgr_max_retries g" "store_ok (objects g) ep" "tables_ok g"
  using assms by (simp_all add: mgr_inv_def)

lemma store_okD:
  "store_ok os ep \<Longrightarrow> r < length os \<Longrightarrow> lc_inv (os ! r, ep) \<and> sequence_epoch (machine (os ! r)) < ep"
  using lc_invD(5) by (auto simp: store_ok_def)

lemma tables_okD:
  assumes "tables_ok g"
  shows "map_of (active g) rid = Some r \<Longrightarrow> r < length (objects g) \<and> rq_id (request (objects g ! r)) = rid"
    "map_of (finished g) rid = Some r \<Longrightarrow> r < length (objects g) \<and> rq_id (request (objects g ! r)) = rid"
    "map_of (active g) rid = Some r \<Longrightarrow> map_of (finished g) rid = None"
    "map_of (finished g) rid = Some r \<Longrightarrow> is_terminal (machine (objects g ! r))"
  using assms unfolding tables_ok_def by force+

lemma tables_okI:
  assumes "\<And>rid r. map_of (active g) rid = Some r \<Longrightarrow>
      r < length (objects g) \<and> rq_id (request (objects g ! r)) = rid \<and> map_of (finished g) rid = None"
    and "\<And>rid r. map_of (finished g) rid = Some r \<Longrightarrow>
      r < length (objects g) \<and> rq_id (request (objects g ! r)) = rid \<and> is_terminal (machine (objects g ! r))"
  shows "tables_ok g"
proof -
  have "map_of (active g) rid = None \<or> map_of (finished g) rid = None" for rid
    using assms(1) by (cases "map_of (active g) rid") auto
  with assms show ?thesis unfolding tables_ok_def by blast
qed

lemma tables_ok_sub:
  assumes ok: "tables_ok g" and a: "\<And>rid r. map_of (active h) rid = Some r \<Longrightarrow> map_of (active g) rid = Some r"
    and f: "\<And>rid r. map_of (finished h) rid = Some r \<Longrightarrow> map_of (finished g) rid = Some r"
    and o: "length (objects g) \<le> length (objects h)" "\<And>r. r < length (objects g) \<Longrightarrow> request (objects h ! r) = request (objects g ! r)"
      "\<And>r. r < length (objects g) \<Longrightarrow> is_terminal (machine (objects g ! r)) \<Longrightarrow> is_terminal (machine (objects h ! r))"
  shows "tables_ok h"
proof (rule tables_okI)
  fix rid r assume r: "map_of (active h) rid = Some r"
  have "map_of (finished h) rid = None"
    using tables_okD(3) [OF ok a [OF r]] f [of rid] by (cases "map_of (finished h) rid") auto
  with tables_okD(1) [OF ok a [OF r]] o
  show "r < length (objects h) \<and> rq_id (request (objects h ! r)) = rid \<and> map_of (finished h) rid = None" by simp
next
  fix rid r assume "map_of (finished h) rid = Some r"
  from tables_okD(2,4) [OF ok f [OF this]] o
  show "r < length (objects h) \<and> rq_id (request (objects h ! r)) = rid \<and> is_terminal (machine (objects h ! r))" by simp
qed

text \<open>A call on one object.\<close>

lemma at_ref_step:
  assumes inv: "mgr_inv (g, ep)" and r: "r < length (objects g)"
    and f: "lc_inv (snd (f (objects g ! r, ep)))" "lc_next (objects g ! r, ep) (snd (f (objects g ! r, ep)))"
  shows "mgr_inv (snd (at_ref r f (g, ep))) \<and> mgr_next (g, ep) (snd (at_ref r f (g, ep)))"
proof -
  obtain x lc ep' where x: "f (objects g ! r, ep) = (x, lc, ep')" by (metis surj_pair)
  note I = mgr_invD [OF inv]
  let ?g = "g\<lparr>objects := (objects g)[r := lc]\<rparr>"
  have lc: "lc_inv (lc, ep')" "lc_next (objects g ! r, ep) (lc, ep')" using f x by simp_all
  note N = lc_next_epoch [OF lc(2)]
  have other: "objects ?g ! i = (if i = r then lc else objects g ! i)" for i using r by simp
  have E: "sequence_epoch (machine (objects ?g ! i)) = sequence_epoch (machine (objects ?g ! j)) \<Longrightarrow> i = j"
    if ij: "i < length (objects g)" "j < length (objects g)" for i j
  proof -
    assume "sequence_epoch (machine (objects ?g ! i)) = sequence_epoch (machine (objects ?g ! j))"
    moreover have "sequence_epoch (machine (objects g ! i)) = sequence_epoch (machine (objects g ! j)) \<Longrightarrow> i = j"
      using I(3) ij by (simp add: store_ok_def distinct_conv_nth) blast
    ultimately show "i = j"
      unfolding other using N store_okD [OF I(3) ij(1)] store_okD [OF I(3) ij(2)] by (simp split: if_splits)
  qed
  have "lc_inv (objects ?g ! i, ep')" if "i < length (objects g)" for i
    unfolding other using store_okD [OF I(3) that] lc(1) N lc_inv_mono by auto
  then have "store_ok (objects ?g) ep'"
    using E unfolding store_ok_def distinct_conv_nth by (auto simp: in_set_conv_nth simp del: nth_list_update)
  moreover have "tables_ok ?g"
    by (rule tables_ok_sub [OF I(4)]) (use N r in \<open>simp_all add: nth_list_update\<close>)
  ultimately have "mgr_inv (?g, ep')" using I N by (simp add: mgr_inv_def)
  moreover have "lc_next (objects g ! i, ep) (objects ?g ! i, ep')" for i
    unfolding other using lc(2) N lc_next_wait by auto
  then have "mgr_next (g, ep) (?g, ep')" by (intro mgr_nextI) (use N in simp_all)
  ultimately show ?thesis by (simp add: at_ref_def x)
qed

lemma at_ref_evolves:
  assumes "mgr_inv (g, ep)" "r < length (objects g)" "evolves f"
  shows "mgr_inv (snd (at_ref r f (g, ep))) \<and> mgr_next (g, ep) (snd (at_ref r f (g, ep)))"
  using store_okD [OF mgr_invD(3) [OF assms(1)] assms(2)] assms by (intro at_ref_step) (simp_all add: evolvesD)

text \<open>Calls on the tables only.\<close>

lemma table_step:
  assumes inv: "mgr_inv (g, ep)" and a: "\<And>rid r. map_of a rid = Some r \<Longrightarrow> map_of (active g) rid = Some r"
    and b: "\<And>rid r. map_of b rid = Some r \<Longrightarrow> map_of (finished g) rid = Some r"
  shows "mgr_inv (g\<lparr>active := a, finished := b, last_step_id := k\<rparr>, ep) \<and>
    mgr_next (g, ep) (g\<lparr>active := a, finished := b, last_step_id := k\<rparr>, ep)"
proof -
  have "tables_ok (g\<lparr>active := a, finished := b, last_step_id := k\<rparr>)"
    by (rule tables_ok_sub [OF mgr_invD(4) [OF inv]]) (use a b in simp_all)
  moreover have "mgr_next (g, ep) (g\<lparr>active := a, finished := b, last_step_id := k\<rparr>, ep)"
    by (rule mgr_nextI) (use a in simp_all)
  ultimately show ?thesis using mgr_invD [OF inv] by (simp add: mgr_inv_def)
qed

lemma retire_step:
  assumes inv: "mgr_inv (g, ep)"
  shows "mgr_inv (retire_terminal r g, ep) \<and> mgr_next (g, ep) (retire_terminal r g, ep)"
proof (cases "is_terminal (machine (objects g ! r)) \<and> map_of (active g) (rq_id (request (objects g ! r))) = Some r")
  case True
  let ?rid = "rq_id (request (objects g ! r))"
  let ?g = "g\<lparr>active := AList.delete ?rid (active g), finished := AList.update ?rid r (finished g)\<rparr>"
  note T = tables_okD [OF mgr_invD(4) [OF inv]]
  have A: "map_of (active ?g) rid = (if rid = ?rid then None else map_of (active g) rid)"
    and F: "map_of (finished ?g) rid = (if rid = ?rid then Some r else map_of (finished g) rid)" for rid
    by (simp_all add: delete_conv' update_conv')
  have "tables_ok ?g"
  proof (rule tables_okI)
    fix rid k assume "map_of (active ?g) rid = Some k"
    then show "k < length (objects ?g) \<and> rq_id (request (objects ?g ! k)) = rid \<and> map_of (finished ?g) rid = None"
      unfolding A F using T(1,3) [of rid k] by (simp split: if_splits)
  next
    fix rid k assume "map_of (finished ?g) rid = Some k"
    then show "k < length (objects ?g) \<and> rq_id (request (objects ?g ! k)) = rid \<and> is_terminal (machine (objects ?g ! k))"
      unfolding F using T(2,4) [of rid k] T(1) [of ?rid r] True by (simp split: if_splits)
  qed
  moreover have "mgr_next (g, ep) (?g, ep)" by (rule mgr_nextI) (simp_all add: delete_conv' split: if_splits)
  ultimately show ?thesis using True mgr_invD [OF inv] by (simp add: retire_terminal_def Let_def mgr_inv_def)
next
  case False
  then have "retire_terminal r g = g" by (auto simp: retire_terminal_def Let_def)
  with inv show ?thesis by simp
qed

lemma create_step:
  assumes inv: "mgr_inv (g, ep)" and q: "request_ok q"
  shows "mgr_inv (snd (create q now (g, ep))) \<and> mgr_next (g, ep) (snd (create q now (g, ep)))"
proof (cases "map_of (active g) (rq_id q) \<noteq> None \<or> map_of (finished g) (rq_id q) \<noteq> None")
  case False
  note I = mgr_invD [OF inv]
  note T = tables_okD [OF I(4)]
  obtain lc ep' where lc: "RequestLifecycle_init q (mgr_max_retries g) now ep = (lc, ep')" by force
  have new: "sequence_epoch (machine lc) = ep" "ep' = ep + 1" "request lc = q"
    using lc by (auto simp: RequestLifecycle_init_def RequestStateMachine_init_def Let_def split: prod.splits)
  have linv: "lc_inv (lc, ep')" using lc_init_inv [OF q I(2,1), of now] lc by simp
  let ?g = "g\<lparr>objects := objects g @ [lc], active := AList.update (rq_id q) (length (objects g)) (active g)\<rparr>"
  have "lc_inv (x, ep') \<and> sequence_epoch (machine x) < ep" if "x \<in> set (objects g)" for x
    using I(3) that new lc_inv_mono [of x ep ep'] lc_invD(5) [of x ep] by (simp add: store_ok_def)
  then have "store_ok (objects ?g) ep'" using I(3) linv new by (fastforce simp: store_ok_def)
  moreover have "tables_ok ?g"
  proof (rule tables_okI)
    fix rid k assume "map_of (active ?g) rid = Some k"
    then show "k < length (objects ?g) \<and> rq_id (request (objects ?g ! k)) = rid \<and> map_of (finished ?g) rid = None"
      using T(1,3) [of rid k] False new by (auto simp: update_conv' nth_append split: if_splits)
  next
    fix rid k assume "map_of (finished ?g) rid = Some k"
    then show "k < length (objects ?g) \<and> rq_id (request (objects ?g ! k)) = rid \<and> is_terminal (machine (objects ?g ! k))"
      using T(2,4) [of rid k] by (simp add: nth_append)
  qed
  moreover have "mgr_next (g, ep) (?g, ep')"
    by (rule mgr_nextI) (use new in \<open>auto simp: update_conv' nth_append lc_next_wait less_Suc_eq split: if_splits\<close>)
  ultimately show ?thesis using False I new by (simp add: create_def lc Let_def mgr_inv_def)
qed (use inv in \<open>simp add: create_def\<close>)

lemma apply_one_evolves: "mgr_evolves (apply_one step ts e)"
  unfolding mgr_evolves_def
proof (intro allI impI)
  fix s assume inv: "mgr_inv s"
  obtain g ep where s: "s = (g, ep)" by force
  show "mgr_inv (snd (apply_one step ts e s)) \<and> mgr_next s (snd (apply_one step ts e s))"
  proof (cases "map_of (active g) (rep_request_id e)")
    case (Some r)
    then have r: "r < length (objects g)" using tables_okD(1) mgr_invD(4) inv s by metis
    obtain x g' ep' where a: "at_ref r (apply_report e step ts) (g, ep) = (x, g', ep')" by (metis surj_pair)
    have A: "mgr_inv (g', ep')" "mgr_next (g, ep) (g', ep')"
      using at_ref_evolves [OF _ r evolves_apply_report, of ep e step ts] inv a s by simp_all
    have R: "mgr_inv (retire_terminal r g', ep')" "mgr_next (g, ep) (retire_terminal r g', ep')"
      using retire_step [OF A(1), of r] mgr_next_trans [OF A(2)] by blast+
    show ?thesis
    proof (cases "rep_epoch e = sequence_epoch (machine (objects g ! r))")
      case True
      then have "apply_one step ts e s = andthen (at_ref r (apply_report e step ts)) (\<lambda>retire.
          if retire then modify (\<lambda>(g, ep). (retire_terminal r g, ep)) else ret ()) (g, ep)"
        using Some by (simp add: s apply_one_def)
      with A R s show ?thesis by (cases x) (simp_all add: andthen_def a)
    qed (use Some inv in \<open>simp add: s apply_one_def\<close>)
  qed (use inv in \<open>auto simp: s apply_one_def\<close>)
qed

lemma apply_report_evolves: "mgr_evolves (apply_scheduler_report sr ts)"
proof -
  have "mgr_evolves (modify (\<lambda>(g, ep). (g\<lparr>last_step_id := k\<rparr>, ep)))" for k
  proof -
    have "mgr_inv (g\<lparr>last_step_id := k\<rparr>, ep) \<and> mgr_next (g, ep) (g\<lparr>last_step_id := k\<rparr>, ep)" if "mgr_inv (g, ep)" for g ep
      using table_step [OF that, of "active g" "finished g" k] by simp
    then show ?thesis by (auto simp: mgr_evolves_def)
  qed
  then show ?thesis unfolding apply_scheduler_report_def
    by (intro mgr_evolves_andthen mgr_evolves_simple mgr_evolves_for_each apply_one_evolves)
qed

lemma map_of_delete_sub: "map_of (AList.delete k al) x = Some v \<Longrightarrow> map_of al x = Some v"
  by (simp add: delete_conv' split: if_splits)

lemma map_of_deletes_sub: "map_of (fold AList.delete ks al) x = Some v \<Longrightarrow> map_of al x = Some v"
  by (induction ks arbitrary: al) (auto dest: map_of_delete_sub)

lemma finished_step:
  assumes inv: "mgr_inv (g, ep)" and b: "\<And>rid r. map_of b rid = Some r \<Longrightarrow> map_of (finished g) rid = Some r"
  shows "mgr_inv (g\<lparr>finished := b\<rparr>, ep) \<and> mgr_next (g, ep) (g\<lparr>finished := b\<rparr>, ep)"
proof -
  have "g\<lparr>active := active g, finished := b, last_step_id := last_step_id g\<rparr> = g\<lparr>finished := b\<rparr>" by simp
  moreover have "map_of (active g) rid = Some r \<Longrightarrow> map_of (active g) rid = Some r" for rid r .
  ultimately show ?thesis using table_step [OF inv _ b, where a = "active g" and k = "last_step_id g"] by metis
qed

lemma active_step:
  assumes inv: "mgr_inv (g, ep)" and a: "\<And>rid r. map_of a rid = Some r \<Longrightarrow> map_of (active g) rid = Some r"
  shows "mgr_inv (g\<lparr>active := a\<rparr>, ep) \<and> mgr_next (g, ep) (g\<lparr>active := a\<rparr>, ep)"
proof -
  have "g\<lparr>active := a, finished := finished g, last_step_id := last_step_id g\<rparr> = g\<lparr>active := a\<rparr>" by simp
  moreover have "map_of (finished g) rid = Some r \<Longrightarrow> map_of (finished g) rid = Some r" for rid r .
  ultimately show ?thesis using table_step [OF inv a, where b = "finished g" and k = "last_step_id g"] by metis
qed

lemma mgr_exec_step:
  assumes inv: "mgr_inv s" and legal: "mgr_legal x s"
  shows "mgr_inv (snd (mgr_exec x s)) \<and> mgr_next s (snd (mgr_exec x s))"
proof -
  obtain y ts where x: "x = (y, ts)" by force
  obtain g ep where s: "s = (g, ep)" by force
  show ?thesis
  proof (cases y)
    case (Mgr_Create q)
    with x s inv legal show ?thesis by (simp add: create_step)
  next
    case (Mgr_Advance rid c d)
    have "r < length (objects g)" if "find g rid = Some r" for r
      using that tables_okD(1,2) [OF mgr_invD(4) [OF inv [unfolded s]], of rid r] by (simp add: find_def split: option.splits)
    with Mgr_Advance show ?thesis using inv s x at_ref_evolves [OF inv [unfolded s] _ evolves_enter_queue, of _ c d ts]
      by (cases "find g rid") (simp_all add: advance_to_queue_def lc_get_def)
  next
    case (Mgr_Apply sr)
    with x inv show ?thesis by (simp add: mgr_evolvesD [OF apply_report_evolves])
  next
    case (Mgr_Forget rid)
    have "mgr_inv (g\<lparr>finished := AList.delete rid (finished g)\<rparr>, ep) \<and> mgr_next (g, ep) (g\<lparr>finished := AList.delete rid (finished g)\<rparr>, ep)"
      by (rule finished_step [OF inv [unfolded s] map_of_delete_sub])
    with Mgr_Forget x s inv show ?thesis by (simp add: forget_def)
  next
    case (Mgr_Rollback rid)
    have "mgr_inv (g\<lparr>active := AList.delete rid (active g)\<rparr>, ep) \<and> mgr_next (g, ep) (g\<lparr>active := AList.delete rid (active g)\<rparr>, ep)"
      by (rule active_step [OF inv [unfolded s] map_of_delete_sub])
    with Mgr_Rollback x s show ?thesis by (simp add: mgr_rollback_def)
  next
    case (Mgr_Reap k)
    have "mgr_inv (g\<lparr>finished := []\<rparr>, ep) \<and> mgr_next (g, ep) (g\<lparr>finished := []\<rparr>, ep)"
      by (rule finished_step [OF inv [unfolded s]]) simp
    moreover have "mgr_inv (g\<lparr>finished := fold AList.delete ks (finished g)\<rparr>, ep) \<and>
        mgr_next (g, ep) (g\<lparr>finished := fold AList.delete ks (finished g)\<rparr>, ep)" for ks
      by (rule finished_step [OF inv [unfolded s] map_of_deletes_sub])
    ultimately show ?thesis using Mgr_Reap x s by (simp add: reap_def Let_def)
  next
    case (Mgr_Cancel rid reason)
    show ?thesis
    proof (cases "map_of (active g) rid")
      case (Some r)
      then have r: "r < length (objects g)" using tables_okD(1) mgr_invD(4) inv s by metis
      with Some Mgr_Cancel x s show ?thesis
        using at_ref_evolves [OF inv [unfolded s] r evolves_fields(2) [of "\<lambda>lc. snd (token_cancel reason (token lc))"]]
        by (auto simp: mgr_cancel_def andthen_def split: sum.split prod.split)
    qed (use Mgr_Cancel x s inv in \<open>simp add: mgr_cancel_def\<close>)
  next
    case (Mgr_Retire r)
    with x s inv legal show ?thesis by (simp add: retire_step)
  next
    case (Mgr_Object r c)
    with x s legal have r: "r < length (objects g)" "lc_legal (c, ts) (objects g ! r, ep)" by simp_all
    then have "lc_inv (objects g ! r, ep)" using inv s store_okD [OF mgr_invD(3)] by blast
    note L = lc_exec_step [OF this r(2)]
    from at_ref_step [where f = "lc_exec (c, ts)", OF inv [unfolded s] r(1)] L Mgr_Object x s show ?thesis by simp
  qed
qed

interpretation manager: guarded_system mgr_exec mgr_legal mgr_inv
  by unfold_locales (use mgr_exec_step in blast)

section \<open>Incarnations\<close>

text \<open>
  The epoch under which an id accepts reports; an id that is not active has used up every
  epoch issued so far.
\<close>

definition incarnation :: "mgr_state \<Rightarrow> string \<Rightarrow> int" where
  "incarnation = (\<lambda>(g, ep) rid.
     case map_of (active g) rid of Some r \<Rightarrow> sequence_epoch (machine (objects g ! r)) | None \<Rightarrow> ep - 1)"

definition is_active :: "mgr_state \<Rightarrow> string \<Rightarrow> bool" where
  "is_active = (\<lambda>(g, ep) rid. map_of (active g) rid \<noteq> None)"

definition addresses :: "mgr_state \<Rightarrow> string \<Rightarrow> int \<Rightarrow> bool" where
  "addresses = (\<lambda>(g, ep) rid e. case map_of (active g) rid of Some r \<Rightarrow> sequence_epoch (machine (objects g ! r)) = e | None \<Rightarrow> False)"

definition mgr_step :: "mgr_state \<Rightarrow> mgr_state \<Rightarrow> bool" where
  "mgr_step s t \<longleftrightarrow> (\<exists>x. mgr_legal x s \<and> t = snd (mgr_exec x s))"

lemma incarnation_mono:
  assumes "mgr_inv s" "mgr_next s t" "mgr_inv t"
  shows "incarnation s rid \<le> incarnation t rid" "\<not> is_active s rid \<Longrightarrow> is_active t rid \<Longrightarrow> incarnation s rid < incarnation t rid"
proof -
  obtain g ep g' ep' where s: "s = (g, ep)" "t = (g', ep')" by (metis surj_pair)
  note N = mgr_nextD [OF assms(2) [unfolded s]]
  note T = tables_okD [OF mgr_invD(4) [OF assms(1) [unfolded s]]]
  note T' = tables_okD [OF mgr_invD(4) [OF assms(3) [unfolded s]]]
  have old: "sequence_epoch (machine (objects g ! r)) < ep" if "map_of (active g) rid = Some r" for r
    using store_okD [OF mgr_invD(3) [OF assms(1) [unfolded s]]] T(1) [OF that] by blast
  have cur: "ep \<le> sequence_epoch (machine (objects g' ! r)) \<or>
      map_of (active g) rid = Some r \<and> sequence_epoch (machine (objects g ! r)) \<le> sequence_epoch (machine (objects g' ! r))"
    if "map_of (active g') rid = Some r" for r
    using N(5) [OF that] N(4) [of r] T'(1) [OF that] T(1) [of rid r] lc_next_epoch [OF N(3), of r] by auto
  show "incarnation s rid \<le> incarnation t rid"
    using N(1) old cur by (fastforce simp: s incarnation_def split: option.splits)
  show "incarnation s rid < incarnation t rid" if "\<not> is_active s rid" "is_active t rid"
    using that cur by (fastforce simp: s incarnation_def is_active_def split: option.splits)
qed

interpretation incarnations: generation_table incarnation is_active addresses mgr_step mgr_inv
proof
  show "addresses s i e \<longleftrightarrow> is_active s i \<and> incarnation s i = e" for s i e
    by (auto simp: addresses_def is_active_def incarnation_def split: prod.splits option.splits)
  show "mgr_inv t" if "mgr_inv s" "mgr_step s t" for s t
    using that mgr_exec_step unfolding mgr_step_def by blast
  show "incarnation s i \<le> incarnation t i" if "mgr_inv s" "mgr_step s t" for s t i
    using that mgr_exec_step incarnation_mono(1) unfolding mgr_step_def by blast
  show "incarnation s i < incarnation t i" if "mgr_inv s" "mgr_step s t" "\<not> is_active s i" "is_active t i" for s t i
    using that mgr_exec_step incarnation_mono(2) unfolding mgr_step_def by blast
qed

lemma run_steps: "legal_run mgr_exec mgr_legal xs s \<Longrightarrow> mgr_step\<^sup>*\<^sup>* s (run_ops mgr_exec xs s)"
proof (induction xs arbitrary: s)
  case (Cons x xs)
  then have "mgr_step s (snd (mgr_exec x s))" unfolding mgr_step_def legal_run.simps by blast
  with Cons show ?case by (simp add: converse_rtranclp_into_rtranclp)
qed simp

lemma mgr_init_inv: "0 \<le> retries \<Longrightarrow> 1 \<le> ep \<Longrightarrow> mgr_inv (LifecycleManager_init retries, ep)"
  by (simp add: mgr_inv_def LifecycleManager_init_def store_ok_def tables_ok_def)

section \<open>Properties\<close>

text \<open>
  C27. A report reaches only the incarnation it was made for.  If a report names an epoch that
  was issued before and is older than the current one of the request registered under its
  id (or the id is not active at all), then
  no further calls make it count again, even when the id is forgotten or rolled back and
  registered for a new request: applying it leaves the registry and every request as they
  are.  All along the registry stays consistent: no id is both active and finished, every
  entry refers to the lifecycle of its id, a finished one is terminal, and no two lifecycles
  ever created share an epoch.
\<close>

theorem stale_report_never_applied:
  assumes inv: "mgr_inv s" and old: "rep_epoch e < snd s" "\<not> addresses s (rep_request_id e) (rep_epoch e)"
    and cur: "is_active s (rep_request_id e) \<longrightarrow> rep_epoch e \<le> incarnation s (rep_request_id e)"
    and legal: "legal_run mgr_exec mgr_legal xs s" and run: "run_ops mgr_exec xs s = (g, ep)"
  shows "snd (apply_one step ts e (g, ep)) = (g, ep) \<and>
    distinct (map (\<lambda>lc. sequence_epoch (machine lc)) (objects g)) \<and>
    (\<forall>rid r. map_of (active g) rid = Some r \<longrightarrow> rq_id (request (objects g ! r)) = rid \<and> map_of (finished g) rid = None) \<and>
    (\<forall>rid r. map_of (finished g) rid = Some r \<longrightarrow> rq_id (request (objects g ! r)) = rid \<and> is_terminal (machine (objects g ! r)))"
proof -
  let ?rid = "rep_request_id e"
  have "rep_epoch e \<le> incarnation s ?rid"
    using cur old(1) by (auto simp: incarnation_def is_active_def split: prod.splits option.splits)
  then have "\<not> addresses (g, ep) ?rid (rep_epoch e)"
    using incarnations.stale_forever [OF run_steps [OF legal] inv _ old(2)] run by simp
  then have "snd (apply_one step ts e (g, ep)) = (g, ep)"
    by (auto simp: addresses_def apply_one_def split: option.splits)
  moreover have "mgr_inv (g, ep)" using manager.run_inv [OF inv legal] run by simp
  note I = mgr_invD [OF this]
  ultimately show ?thesis using I(3) tables_okD [OF I(4)] by (simp add: store_ok_def)
qed

definition sample_registry :: mgr_state where
  "sample_registry =
     run_ops mgr_exec [(Mgr_Create sample_request, 0), (Mgr_Rollback ''r'', 1)] (LifecycleManager_init 3, 1)"

definition sample_stale_report :: RequestReport where
  "sample_stale_report =
     \<lparr>rep_request_id = ''r'', outcome = O_ABORTED, rep_epoch = 1, completed_slice = None, committed_state_version = None,
      new_token_ids = [], rep_cached_tokens = 0, rep_finish_reason = None, detail = []\<rparr>"

lemma sample_registry_inv: "mgr_inv sample_registry"
  unfolding sample_registry_def
  by (rule manager.run_inv [OF mgr_init_inv]) (simp_all add: sample_request_ok)

theorem stale_report_never_applied_witness:
  "\<exists>g ep. run_ops mgr_exec [(Mgr_Create sample_request, 2)] sample_registry = (g, ep) \<and>
     snd (apply_one 0 3 sample_stale_report (g, ep)) = (g, ep) \<and> is_active (g, ep) ''r''"
proof -
  obtain g ep where run: "run_ops mgr_exec [(Mgr_Create sample_request, 2)] sample_registry = (g, ep)" by force
  have "rep_epoch sample_stale_report < snd sample_registry"
    "\<not> addresses sample_registry (rep_request_id sample_stale_report) (rep_epoch sample_stale_report)"
    "is_active sample_registry (rep_request_id sample_stale_report) \<longrightarrow>
       rep_epoch sample_stale_report \<le> incarnation sample_registry (rep_request_id sample_stale_report)"
    by code_simp+
  from stale_report_never_applied [OF sample_registry_inv this _ run, of 0 3] sample_request_ok
  have "snd (apply_one 0 3 sample_stale_report (g, ep)) = (g, ep)" by simp
  moreover have "is_active (run_ops mgr_exec [(Mgr_Create sample_request, 2)] sample_registry) ''r''" by code_simp
  ultimately show ?thesis using run by metis
qed

end
