(* ===== verification/Sched_Config.thy ===== *)
theory Sched_Config
  imports Memory_Ledger Request_Lifecycle
begin

text \<open>
  The scheduler's settings, \<open>configs/scheduler.py\<close>, with the plan records they are bound to
  (\<open>ParallelPlan\<close>, \<open>ComputePlan\<close>, \<open>WorkspaceRequest\<close> and \<open>MemoryPlan\<close> of \<open>plan.py\<close>).  Type tests
  and the frozen-value tests are discharged by the types of the model.
\<close>

section \<open>Plan records\<close>

instantiation MemoryTier :: linorder
begin

definition less_eq_MemoryTier :: "MemoryTier \<Rightarrow> MemoryTier \<Rightarrow> bool" where
  "less_eq_MemoryTier a b \<longleftrightarrow> tier_value a \<le> tier_value b"

definition less_MemoryTier :: "MemoryTier \<Rightarrow> MemoryTier \<Rightarrow> bool" where
  "less_MemoryTier a b \<longleftrightarrow> tier_value a < tier_value b"

instance
proof
  fix a b :: MemoryTier assume "a \<le> b" "b \<le> a"
  then show "a = b" by (cases a; cases b; simp add: less_eq_MemoryTier_def)
qed (auto simp: less_eq_MemoryTier_def less_MemoryTier_def)

end

record ParallelPlan =
  tp_size :: int
  tp_rank :: int
  pp_size :: int
  pp_rank :: int
  dp_size :: int
  dp_rank :: int
  ep_size :: int
  ep_rank :: int
  cp_size :: int
  cp_rank :: int
  sp_enabled :: bool

definition parallel_validate :: "ParallelPlan \<Rightarrow> pyerror + unit" where
  "parallel_validate p =
     ebind (traverse (\<lambda>(size, rank). ebind (require (1 \<le> size) ValueError) (\<lambda>_. require (0 \<le> rank \<and> rank < size) ValueError))
       [(tp_size p, tp_rank p), (pp_size p, pp_rank p), (dp_size p, dp_rank p), (ep_size p, ep_rank p), (cp_size p, cp_rank p)])
     (\<lambda>_. Inr ())"

definition world_size :: "ParallelPlan \<Rightarrow> int" where
  "world_size p = tp_size p * pp_size p * dp_size p * cp_size p"

definition is_single_process :: "ParallelPlan \<Rightarrow> bool" where
  "is_single_process p \<longleftrightarrow> world_size p = 1 \<and> ep_size p = 1"

record ComputePlan =
  layer_range :: "int \<times> int"
  num_micro_batches :: int
  cp_chunked_prefill :: bool
  cp_max_batched_tokens :: int

definition compute_validate :: "ComputePlan \<Rightarrow> pyerror + unit" where
  "compute_validate c =
     ebind (require_int (fst (layer_range c)) 0) (\<lambda>_.
     ebind (require_int (snd (layer_range c)) (fst (layer_range c) + 1)) (\<lambda>_.
     ebind (require_int (num_micro_batches c) 1) (\<lambda>_.
     require_int (cp_max_batched_tokens c) 1)))"

definition MAX_ALIGNMENT :: int where
  "MAX_ALIGNMENT = 64 * 1024"

record WorkspaceRequest =
  ws_name :: string
  ws_nbytes :: int
  ws_owner :: MemoryOwner
  ws_tier :: MemoryTier
  ws_alignment :: int

definition workspace_validate :: "WorkspaceRequest \<Rightarrow> pyerror + unit" where
  "workspace_validate w =
     ebind (require_text (ws_name w)) (\<lambda>_.
     ebind (require_int (ws_nbytes w) 0) (\<lambda>_.
     ebind (require_int (ws_alignment w) 1) (\<lambda>_.
     ebind (require (and (ws_alignment w) (ws_alignment w - 1) = 0) ValueError) (\<lambda>_.
     require (ws_alignment w \<le> MAX_ALIGNMENT) ValueError))))"

record MemoryPlan =
  workspaces :: "WorkspaceRequest list"
  activation_bytes :: int
  peak_bytes_estimate :: int

definition memory_plan_validate :: "MemoryPlan \<Rightarrow> pyerror + unit" where
  "memory_plan_validate p =
     ebind (require_int (activation_bytes p) 0) (\<lambda>_.
     ebind (require_int (peak_bytes_estimate p) 0) (\<lambda>_.
     require (length (remdups (map ws_name (workspaces p))) = length (workspaces p)) ValueError))"

definition workspace_bytes :: "MemoryPlan \<Rightarrow> int" where
  "workspace_bytes p = sum_list (map ws_nbytes (workspaces p))"

section \<open>Settings\<close>

datatype SchedulingPolicy = FCFS | PRIORITY | LONGEST_PREFIX_MATCH | SHORTEST_REMAINING

datatype PreemptionMode = PREEMPT_NONE | RECOMPUTE | SWAP

record SchedulerCapabilities =
  cap_max_num_seqs :: int
  token_padding_multiple :: int
  chunked_prefill :: bool
  cap_graph_mode :: GraphMode
  recompute_preemption :: bool
  prefix_cache :: bool
  pipeline_stages :: bool

definition capabilities_validate :: "SchedulerCapabilities \<Rightarrow> pyerror + unit" where
  "capabilities_validate c =
     ebind (require_int (cap_max_num_seqs c) 1) (\<lambda>_. require_int (token_padding_multiple c) 1)"

definition physical_token_slots :: "SchedulerCapabilities \<Rightarrow> int \<Rightarrow> pyerror + int" where
  "physical_token_slots c query_tokens =
     ebind (require_int query_tokens 0) (\<lambda>_. align_up query_tokens (token_padding_multiple c))"

record SchedulerConfig =
  max_num_seqs :: int
  max_num_batched_tokens :: int
  max_num_scheduled_tokens :: "int option"
  max_num_requests :: "int option"
  max_queued_requests :: "int option"
  enable_chunked_prefill :: bool
  max_prefill_chunk_tokens :: "int option"
  max_num_partial_prefills :: int
  long_prefill_token_threshold :: int
  scheduling_policy :: SchedulingPolicy
  preemption_mode :: PreemptionMode
  priority_preemption :: bool
  max_decode_steps_per_schedule :: int
  max_inflight :: int
  max_bypass :: int
  iteration_ns :: int
  retry_ns :: int
  transfer_bytes :: int
  tier_limits :: "(MemoryTier \<times> int) list"
  sampling_support_max_tokens :: int

definition effective_scheduled_token_budget :: "'a SchedulerConfig_scheme \<Rightarrow> int" where
  "effective_scheduled_token_budget c =
     (case max_num_scheduled_tokens c of None \<Rightarrow> max_num_batched_tokens c | Some n \<Rightarrow> n)"

text \<open>The limits of \<open>tier_limits\<close> and of \<open>memory_capacity_bytes\<close>: distinct allocatable tiers.\<close>

fun check_tiers :: "MemoryTier list \<Rightarrow> (MemoryTier \<times> int) list \<Rightarrow> pyerror + unit" where
  "check_tiers seen [] = Inr ()"
| "check_tiers seen ((tier, limit) # rest) =
     ebind (require (allocatable tier) ConfigError) (\<lambda>_.
     ebind (require (tier \<notin> set seen) ConfigError) (\<lambda>_.
     ebind (require_int limit 0) (\<lambda>_. check_tiers (tier # seen) rest)))"

definition optional_int :: "int option \<Rightarrow> pyerror + unit" where
  "optional_int v = (case v of None \<Rightarrow> Inr () | Some n \<Rightarrow> require_int n 1)"

definition config_validate :: "'a SchedulerConfig_scheme \<Rightarrow> pyerror + 'a SchedulerConfig_scheme" where
  "config_validate c =
     ebind (traverse (\<lambda>v. require_int v 1)
       [max_num_seqs c, max_num_batched_tokens c, max_num_partial_prefills c, max_decode_steps_per_schedule c,
        max_inflight c, max_bypass c, iteration_ns c, retry_ns c]) (\<lambda>_.
     ebind (traverse optional_int
       [max_num_scheduled_tokens c, max_num_requests c, max_queued_requests c, max_prefill_chunk_tokens c]) (\<lambda>_.
     ebind (require_int (long_prefill_token_threshold c) 0) (\<lambda>_.
     ebind (require_int (transfer_bytes c) 0) (\<lambda>_.
     ebind (require_int (sampling_support_max_tokens c) 1) (\<lambda>_.
     ebind (require (effective_scheduled_token_budget c \<le> max_num_batched_tokens c) ConfigError) (\<lambda>_.
     ebind (require (max_num_partial_prefills c \<le> max_num_seqs c) ConfigError) (\<lambda>_.
     ebind (require (enable_chunked_prefill c \<or> max_prefill_chunk_tokens c = None) ConfigError) (\<lambda>_.
     ebind (require (case max_prefill_chunk_tokens c of None \<Rightarrow> True
                     | Some n \<Rightarrow> n \<le> effective_scheduled_token_budget c) ConfigError) (\<lambda>_.
     ebind (require (max_decode_steps_per_schedule c = 1 \<and> max_num_partial_prefills c = 1 \<and>
                     long_prefill_token_threshold c = 0 \<and> \<not> priority_preemption c) ConfigError) (\<lambda>_.
     ebind (require (preemption_mode c \<noteq> SWAP) ConfigError) (\<lambda>_.
     ebind (require (scheduling_policy c \<in> set [FCFS, PRIORITY, LONGEST_PREFIX_MATCH]) ConfigError) (\<lambda>_.
     ebind (check_tiers [] (tier_limits c)) (\<lambda>_.
     Inr (c\<lparr>tier_limits := sort_key fst (tier_limits c)\<rparr>))))))))))))))"

record ResolvedSchedulerPlan = SchedulerConfig +
  max_model_len :: int
  resolved_plan_id :: string
  attention_groups :: int
  compute :: ComputePlan
  parallel :: ParallelPlan
  capabilities :: SchedulerCapabilities
  memory_device_index :: int
  memory_capacity_bytes :: "(MemoryTier \<times> int) list"
  workspace :: MemoryPlan

text \<open>The ceiling per tier: the ledger capacity, lowered by the configured limit.\<close>

fun tier_ceilings :: "(MemoryTier \<times> int) list \<Rightarrow> (MemoryTier \<times> int) list \<Rightarrow> pyerror + (MemoryTier \<times> int) list" where
  "tier_ceilings [] capacities = Inr capacities"
| "tier_ceilings ((tier, limit) # rest) capacities =
     (case map_of capacities tier of
        None \<Rightarrow> Inl ConfigError
      | Some cap \<Rightarrow>
          if limit > cap then Inl ConfigError else tier_ceilings rest (AList.update tier limit capacities))"

fun workspace_demand :: "WorkspaceRequest list \<Rightarrow> (MemoryTier \<times> int) list \<Rightarrow> pyerror + (MemoryTier \<times> int) list" where
  "workspace_demand [] required = Inr required"
| "workspace_demand (w # ws) required =
     ebind (require (allocatable (ws_tier w)) ConfigError) (\<lambda>_.
     ebind (require_int (ws_nbytes w) 0) (\<lambda>_.
     workspace_demand ws (AList.update (ws_tier w)
       ((case map_of required (ws_tier w) of None \<Rightarrow> 0 | Some n \<Rightarrow> n) + ws_nbytes w) required)))"

definition check_workspace :: "MemoryPlan \<Rightarrow> (MemoryTier \<times> int) list \<Rightarrow> pyerror + unit" where
  "check_workspace w ceilings =
     ebind (workspace_demand (workspaces w) []) (\<lambda>required.
     ebind (require_int (activation_bytes w) 0) (\<lambda>_.
     let demand = (if activation_bytes w \<noteq> 0
        then AList.update DEVICE ((case map_of required DEVICE of None \<Rightarrow> 0 | Some n \<Rightarrow> n) + activation_bytes w) required
        else required) in
     require (list_all (\<lambda>(tier, n). case map_of ceilings tier of None \<Rightarrow> False | Some cap \<Rightarrow> n \<le> cap) demand) ConfigError))"

definition check_execution :: "ResolvedSchedulerPlan \<Rightarrow> pyerror + unit" where
  "check_execution p =
     ebind (traverse (\<lambda>v. require_int v 1)
       [tp_size (parallel p), pp_size (parallel p), dp_size (parallel p), ep_size (parallel p), cp_size (parallel p)]) (\<lambda>_.
     ebind (traverse (\<lambda>v. require_int v 0)
       [tp_rank (parallel p), pp_rank (parallel p), dp_rank (parallel p), ep_rank (parallel p), cp_rank (parallel p)]) (\<lambda>_.
     ebind (require_int (cp_max_batched_tokens (compute p)) 1) (\<lambda>_.
     ebind (require (max_num_batched_tokens p \<le> cp_max_batched_tokens (compute p)) ConfigError) (\<lambda>_.
     ebind (require (max_num_seqs p \<le> cap_max_num_seqs (capabilities p)) ConfigError) (\<lambda>_.
     ebind (physical_token_slots (capabilities p) (effective_scheduled_token_budget p)) (\<lambda>slots.
     ebind (require (slots \<le> max_num_batched_tokens p) ConfigError) (\<lambda>_.
     ebind (require (preemption_mode p = RECOMPUTE \<longrightarrow> recompute_preemption (capabilities p)) ConfigError) (\<lambda>_.
     ebind (require (scheduling_policy p = LONGEST_PREFIX_MATCH \<longrightarrow> prefix_cache (capabilities p)) ConfigError) (\<lambda>_.
     ebind (require (enable_chunked_prefill p \<longrightarrow>
                     cp_chunked_prefill (compute p) \<and> chunked_prefill (capabilities p)) ConfigError) (\<lambda>_.
     ebind (require (enable_chunked_prefill p \<or> max_model_len p \<le> effective_scheduled_token_budget p) ConfigError) (\<lambda>_.
     ebind (require (\<not> sp_enabled (parallel p)) ConfigError) (\<lambda>_.
     ebind (require (is_single_process (parallel p) \<or>
         tp_size (parallel p) = 1 \<and> dp_size (parallel p) = 1 \<and> cp_size (parallel p) = 1 \<and> ep_size (parallel p) = 1 \<and>
         pp_size (parallel p) > 1 \<and> pipeline_stages (capabilities p)) ConfigError) (\<lambda>_.
     ebind (require (cap_graph_mode (capabilities p) \<in> set [EAGER, REPLAY]) ConfigError) (\<lambda>_.
     require (num_micro_batches (compute p) \<le> max_inflight p) ConfigError))))))))))))))"

definition resolved_validate :: "ResolvedSchedulerPlan \<Rightarrow> pyerror + ResolvedSchedulerPlan" where
  "resolved_validate p0 =
     ebind (config_validate p0) (\<lambda>p.
     ebind (require_int (max_model_len p) 1) (\<lambda>_.
     ebind (require_int (memory_device_index p) 0) (\<lambda>_.
     ebind (case max_num_scheduled_tokens p of None \<Rightarrow> Inl TypeError | Some n \<Rightarrow> require_int n 1) (\<lambda>_.
     ebind (require (enable_chunked_prefill p \<longrightarrow> max_prefill_chunk_tokens p \<noteq> None) ConfigError) (\<lambda>_.
     ebind (check_tiers [] (memory_capacity_bytes p)) (\<lambda>_.
     ebind (check_execution p) (\<lambda>_.
     ebind (require (memory_capacity_bytes p \<noteq> []) ConfigError) (\<lambda>_.
     ebind (tier_ceilings (tier_limits p) (memory_capacity_bytes p)) (\<lambda>ceilings.
     ebind (check_workspace (workspace p) ceilings) (\<lambda>_.
     Inr (p\<lparr>memory_capacity_bytes := sort_key fst (memory_capacity_bytes p)\<rparr>)))))))))))"

text \<open>
  Binding the settings to an execution plan, the runner's capabilities and the capacities of
  a ledger snapshot.  Without an explicit issue budget the largest multiple of the padding
  unit is taken.
\<close>

definition issue_budget :: "SchedulerConfig \<Rightarrow> SchedulerCapabilities \<Rightarrow> pyerror + int" where
  "issue_budget c caps =
     (case max_num_scheduled_tokens c of
        Some n \<Rightarrow> Inr n
      | None \<Rightarrow>
          ebind (align_down (max_num_batched_tokens c) (token_padding_multiple caps)) (\<lambda>issue.
          ebind (require (1 \<le> issue) ConfigError) (\<lambda>_. Inr issue)))"

definition config_resolve ::
  "SchedulerConfig \<Rightarrow> int \<Rightarrow> string \<Rightarrow> int \<Rightarrow> ComputePlan \<Rightarrow> ParallelPlan \<Rightarrow> SchedulerCapabilities \<Rightarrow>
   LedgerSnapshot \<Rightarrow> MemoryPlan \<Rightarrow> pyerror + ResolvedSchedulerPlan" where
  "config_resolve c model_len plan_id groups cp par caps memory ws =
     ebind (require_int model_len 1) (\<lambda>_.
     ebind (require (list_all (\<lambda>(tier, a). tas_tier a = tier) (ls_tiers memory)) ConfigError) (\<lambda>_.
     ebind (issue_budget c caps) (\<lambda>issue.
     resolved_validate (SchedulerConfig.extend
       (c\<lparr>max_num_scheduled_tokens := Some issue,
          max_prefill_chunk_tokens :=
            (if enable_chunked_prefill c \<and> max_prefill_chunk_tokens c = None then Some (min issue model_len)
             else max_prefill_chunk_tokens c)\<rparr>)
       \<lparr>max_model_len = model_len, resolved_plan_id = plan_id, attention_groups = groups, compute = cp, parallel = par,
        capabilities = caps, memory_device_index = ls_device memory,
        memory_capacity_bytes = map (\<lambda>(tier, a). (tier, tas_capacity a)) (ls_tiers memory), workspace = ws\<rparr>))))"

definition validate_request :: "ResolvedSchedulerPlan \<Rightarrow> Request \<Rightarrow> pyerror + unit" where
  "validate_request p q =
     ebind (require_int (max_tokens (stop q)) 1) (\<lambda>_.
     ebind (require (max_total_len q \<le> max_model_len p) ConfigError) (\<lambda>_.
     require (enable_chunked_prefill p \<or> prompt_len q \<le> effective_scheduled_token_budget p) ConfigError))"

end
