(* ===== verification/Sched_Policy.thy ===== *)
theory Sched_Policy
  imports Lifecycle_Manager Sched_Config "HOL-Library.List_Lexorder" "HOL-Library.Char_ord"
begin

text \<open>
  Ordering of waiting requests (\<open>sched/policy.py\<close>) and the choice of a preemption victim
  (\<open>sched/preemption.py\<close>).  Queue entries refer to lifecycles in the store of the registry;
  \<open>view\<close> is the store.  Python's stable \<open>list.sort(key=...)\<close> is \<open>sort_key\<close>, and tuples
  compare lexicographically.
\<close>

section \<open>Queue entries\<close>

text \<open>
  \<open>entry_id\<close> is the identity of the entry object; \<open>entry_rid\<close> is the id of the request its
  lifecycle was created for, which never changes.
\<close>

record QueueEntry =
  entry_id :: nat
  entry_rid :: string
  entry_ref :: nat
  ordinal :: int
  ready_round :: int
  ready_ns :: int
  entry_sequence :: "SequenceHandle option"
  cache_hint_tokens :: int
  bypass_count :: int

definition queue_entry_validate :: "QueueEntry \<Rightarrow> pyerror + unit" where
  "queue_entry_validate e =
     ebind (require_int (ordinal e) 0) (\<lambda>_.
     ebind (require_int (ready_round e) 0) (\<lambda>_.
     ebind (require_int (ready_ns e) 0) (\<lambda>_.
     ebind (require_int (cache_hint_tokens e) 0) (\<lambda>_.
     ebind (require_int (bypass_count e) 0) (\<lambda>_.
     require (\<not> (cache_hint_tokens e < 0 \<or> bypass_count e < 0)) ValueError)))))"

type_synonym store = "nat \<Rightarrow> RequestLifecycle"

definition entry_priority :: "store \<Rightarrow> QueueEntry \<Rightarrow> int" where
  "entry_priority view e = priority (request (view (entry_ref e)))"

definition arrival_ns :: "store \<Rightarrow> QueueEntry \<Rightarrow> int" where
  "arrival_ns view e =
     (let arrival = rq_arrival_ns (request (view (entry_ref e))) in if arrival \<noteq> 0 then arrival else ready_ns e)"

definition max_output_tokens :: "store \<Rightarrow> QueueEntry \<Rightarrow> int" where
  "max_output_tokens view e = max_tokens (stop (request (view (entry_ref e))))"

text \<open>A request has no \<open>routing_key\<close>, so the attribute lookup yields its default.\<close>

definition routing_key :: "store \<Rightarrow> QueueEntry \<Rightarrow> string" where
  "routing_key view e = []"

text \<open>
  The code also lower-cases a policy given as a string and replaces its hyphens; the settings
  of the model hold the enumeration, whose values are in that form already.
\<close>

fun policy_name :: "SchedulingPolicy \<Rightarrow> string" where
  "policy_name FCFS = ''fcfs''"
| "policy_name PRIORITY = ''priority''"
| "policy_name LONGEST_PREFIX_MATCH = ''longest_prefix_match''"
| "policy_name SHORTEST_REMAINING = ''shortest_remaining''"

section \<open>Ranking\<close>

definition fcfs_key :: "store \<Rightarrow> QueueEntry \<Rightarrow> int \<times> int" where
  "fcfs_key view e = (arrival_ns view e, ordinal e)"

definition priority_key :: "store \<Rightarrow> QueueEntry \<Rightarrow> int \<times> int \<times> int" where
  "priority_key view e = (- entry_priority view e, arrival_ns view e, ordinal e)"

definition cache_affinity_key :: "store \<Rightarrow> QueueEntry \<Rightarrow> int \<times> int \<times> int \<times> int" where
  "cache_affinity_key view e = (- cache_hint_tokens e, - entry_priority view e, arrival_ns view e, ordinal e)"

definition longest_output_key :: "store \<Rightarrow> QueueEntry \<Rightarrow> int \<times> int \<times> int \<times> int" where
  "longest_output_key view e = (- max_output_tokens view e, - entry_priority view e, arrival_ns view e, ordinal e)"

definition routing_key_policy :: "store \<Rightarrow> QueueEntry \<Rightarrow> string \<times> int \<times> int \<times> int" where
  "routing_key_policy view e = (routing_key view e, - entry_priority view e, arrival_ns view e, ordinal e)"

text \<open>The key a policy name selects, and the list it sorts.\<close>

datatype ranking = By_Arrival | By_Priority | By_Affinity | By_Output | By_Routing

definition key_for :: "string \<Rightarrow> pyerror + ranking" where
  "key_for name =
     (if name = ''fcfs'' then Inr By_Arrival
      else if name = ''priority'' then Inr By_Priority
      else if name \<in> set [''lpm'', ''longest_prefix'', ''longest_prefix_match'', ''cache_affinity''] then Inr By_Affinity
      else if name \<in> set [''lof'', ''longest_output''] then Inr By_Output
      else if name = ''routing_key'' then Inr By_Routing
      else Inl ConfigError)"

fun sort_by :: "store \<Rightarrow> ranking \<Rightarrow> QueueEntry list \<Rightarrow> QueueEntry list" where
  "sort_by view By_Arrival es = sort_key (fcfs_key view) es"
| "sort_by view By_Priority es = sort_key (priority_key view) es"
| "sort_by view By_Affinity es = sort_key (cache_affinity_key view) es"
| "sort_by view By_Output es = sort_key (longest_output_key view) es"
| "sort_by view By_Routing es = sort_key (routing_key_policy view) es"

definition rank_waiting :: "store \<Rightarrow> string \<Rightarrow> QueueEntry list \<Rightarrow> pyerror + QueueEntry list" where
  "rank_waiting view name es = ebind (key_for name) (\<lambda>k. Inr (sort_by view k es))"

definition is_aged :: "int \<Rightarrow> int \<Rightarrow> QueueEntry \<Rightarrow> bool" where
  "is_aged round_id bypass e \<longleftrightarrow> bypass_count e \<ge> bypass \<or> round_id - ready_round e \<ge> bypass"

definition aged_key :: "store \<Rightarrow> QueueEntry \<Rightarrow> int \<times> int \<times> int \<times> int" where
  "aged_key view e = (- bypass_count e, ready_round e, arrival_ns view e, ordinal e)"

definition order_waiting ::
  "store \<Rightarrow> int \<Rightarrow> int \<Rightarrow> int \<Rightarrow> string \<Rightarrow> QueueEntry list \<Rightarrow> pyerror + QueueEntry list" where
  "order_waiting view round_id now bypass name es =
     ebind (require_int round_id 0) (\<lambda>_.
     ebind (require_int now 0) (\<lambda>_.
     ebind (require_int bypass 1) (\<lambda>_.
     ebind (rank_waiting view name es) (\<lambda>ranked.
     if \<not> list_ex (is_aged round_id bypass) ranked then Inr ranked
     else Inr (sort_key (aged_key view) (filter (is_aged round_id bypass) ranked) @
               filter (\<lambda>e. \<not> is_aged round_id bypass e) ranked)))))"

section \<open>Preemption victims\<close>

definition victim_key :: "store \<Rightarrow> nat \<Rightarrow> int \<times> int \<times> string" where
  "victim_key view r = (priority (request (view r)), - rq_arrival_ns (request (view r)), rq_id (request (view r)))"

definition preemptible :: "store \<Rightarrow> string set \<Rightarrow> nat \<Rightarrow> bool" where
  "preemptible view excluded r \<longleftrightarrow>
     \<not> is_terminal (machine (view r)) \<and> rq_id (request (view r)) \<notin> excluded \<and> \<not> tok_cancelled (token (view r)) \<and>
     inflight (view r) = None"

definition select_preemption_victim :: "store \<Rightarrow> string set \<Rightarrow> nat list \<Rightarrow> nat option" where
  "select_preemption_victim view excluded rs =
     (case sort_key (victim_key view) (filter (preemptible view excluded) rs) of [] \<Rightarrow> None | r # _ \<Rightarrow> Some r)"

text \<open>Admission advisors are consulted in order and all of them must agree.\<close>

definition composite_can_admit :: "('a \<Rightarrow> bool) list \<Rightarrow> 'a \<Rightarrow> bool" where
  "composite_can_admit advisors x \<longleftrightarrow> list_all (\<lambda>f. f x) advisors"

section \<open>Sorting by a key\<close>

fun ranks_before :: "store \<Rightarrow> ranking \<Rightarrow> QueueEntry \<Rightarrow> QueueEntry \<Rightarrow> bool" where
  "ranks_before view By_Arrival a b = (fcfs_key view a \<le> fcfs_key view b)"
| "ranks_before view By_Priority a b = (priority_key view a \<le> priority_key view b)"
| "ranks_before view By_Affinity a b = (cache_affinity_key view a \<le> cache_affinity_key view b)"
| "ranks_before view By_Output a b = (longest_output_key view a \<le> longest_output_key view b)"
| "ranks_before view By_Routing a b = (routing_key_policy view a \<le> routing_key_policy view b)"

lemma mset_sort_by [simp]: "mset (sort_by view k es) = mset es"
  by (cases k) simp_all

lemma sorted_wrt_key: "sorted_wrt (\<lambda>a b. f a \<le> f b) (sort_key f xs)"
  using sorted_sort_key [of f xs] by (simp add: sorted_map)

lemma sort_by_sorted: "sorted_wrt (ranks_before view k) (sort_by view k es)"
proof -
  have "ranks_before view By_Arrival = (\<lambda>a b. fcfs_key view a \<le> fcfs_key view b)"
    "ranks_before view By_Priority = (\<lambda>a b. priority_key view a \<le> priority_key view b)"
    "ranks_before view By_Affinity = (\<lambda>a b. cache_affinity_key view a \<le> cache_affinity_key view b)"
    "ranks_before view By_Output = (\<lambda>a b. longest_output_key view a \<le> longest_output_key view b)"
    "ranks_before view By_Routing = (\<lambda>a b. routing_key_policy view a \<le> routing_key_policy view b)"
    by (simp_all add: fun_eq_iff)
  then show ?thesis by (cases k) (simp_all add: sorted_wrt_key)
qed

text \<open>Every ranking key ends in the ordinal, so it tells entries with distinct ordinals apart.\<close>

lemma keys_inj:
  assumes "inj_on ordinal A"
  shows "inj_on (fcfs_key view) A" "inj_on (priority_key view) A" "inj_on (cache_affinity_key view) A"
    "inj_on (longest_output_key view) A" "inj_on (routing_key_policy view) A" "inj_on (aged_key view) A"
  using assms unfolding inj_on_def
  by (auto simp: fcfs_key_def priority_key_def cache_affinity_key_def longest_output_key_def routing_key_policy_def aged_key_def)

lemma sort_key_cong_mset:
  assumes "mset xs = mset ys" "inj_on f (set xs)"
  shows "sort_key f xs = sort_key f ys"
  by (rule sort_key_inj_key_eq) (use assms in simp_all)

lemma sort_by_cong: "mset xs = mset ys \<Longrightarrow> inj_on ordinal (set xs) \<Longrightarrow> sort_by view k xs = sort_by view k ys"
  by (cases k) (simp_all add: sort_key_cong_mset keys_inj)

text \<open>The preemption victim.\<close>

lemma select_victim_Some:
  assumes "select_preemption_victim view excluded rs = Some r"
  shows "r \<in> set rs" "preemptible view excluded r"
    "r' \<in> set rs \<Longrightarrow> preemptible view excluded r' \<Longrightarrow> victim_key view r \<le> victim_key view r'"
proof -
  let ?s = "sort_key (victim_key view) (filter (preemptible view excluded) rs)"
  obtain s where s: "?s = r # s" using assms by (auto simp: select_preemption_victim_def split: list.splits)
  then have "r \<in> set ?s" by simp
  then show "r \<in> set rs" "preemptible view excluded r" by simp_all
  show "victim_key view r \<le> victim_key view r'" if "r' \<in> set rs" "preemptible view excluded r'"
  proof -
    have "r' \<in> set ?s" using that by simp
    with s sorted_wrt_key [of "victim_key view" "filter (preemptible view excluded) rs"] show ?thesis by auto
  qed
qed

lemma select_victim_None:
  "select_preemption_victim view excluded rs = None \<longleftrightarrow> (\<forall>r\<in>set rs. \<not> preemptible view excluded r)"
proof -
  let ?f = "filter (preemptible view excluded) rs"
  have "sort_key (victim_key view) ?f = [] \<longleftrightarrow> ?f = []"
    using mset_sort [of "victim_key view" ?f] by (metis mset_zero_iff)
  then show ?thesis by (auto simp: select_preemption_victim_def filter_empty_conv split: list.splits)
qed

section \<open>Properties\<close>

text \<open>
  C37. The waiting order is total and bounded-starvation.  For a known policy it arranges
  exactly the given requests; those that were bypassed or waited too long come before all
  others, the longest-bypassed and then the longest-waiting first; the others are in the
  order of the policy.  With distinct ordinals, which the queue hands out, the result does
  not depend on how the queue is arranged.
\<close>

theorem waiting_order_total:
  assumes k: "key_for name = Inr k" and args: "0 \<le> round_id" "0 \<le> now" "1 \<le> bypass"
  shows "\<exists>old fresh. order_waiting view round_id now bypass name es = Inr (old @ fresh) \<and> mset (old @ fresh) = mset es \<and>
    (\<forall>e\<in>set old. is_aged round_id bypass e) \<and> (\<forall>e\<in>set fresh. \<not> is_aged round_id bypass e) \<and>
    sorted_wrt (\<lambda>a b. aged_key view a \<le> aged_key view b) old \<and> sorted_wrt (ranks_before view k) fresh \<and>
    (inj_on ordinal (set es) \<longrightarrow>
       (\<forall>es'. mset es' = mset es \<longrightarrow> order_waiting view round_id now bypass name es' = Inr (old @ fresh)))"
proof -
  let ?P = "is_aged round_id bypass"
  define ord where "ord xs = sort_key (aged_key view) (filter ?P (sort_by view k xs)) @ filter (\<lambda>e. \<not> ?P e) (sort_by view k xs)" for xs
  have o: "order_waiting view round_id now bypass name xs = Inr (ord xs)" for xs
  proof (cases "list_ex ?P (sort_by view k xs)")
    case False
    then have "filter ?P (sort_by view k xs) = []" "filter (\<lambda>e. \<not> ?P e) (sort_by view k xs) = sort_by view k xs"
      by (auto simp: list_ex_iff filter_empty_conv)
    with False k args show ?thesis by (simp add: order_waiting_def rank_waiting_def require_int_def require_def ord_def)
  qed (use k args in \<open>simp add: order_waiting_def rank_waiting_def require_int_def require_def ord_def\<close>)
  have same: "ord es' = ord es" if "inj_on ordinal (set es)" "mset es' = mset es" for es'
    using sort_by_cong [of es es' view k] that by (simp add: ord_def)
  let ?old = "sort_key (aged_key view) (filter ?P (sort_by view k es))" and ?fresh = "filter (\<lambda>e. \<not> ?P e) (sort_by view k es)"
  have out: "?old @ ?fresh = ord es" by (simp add: ord_def)
  show ?thesis
  proof (intro exI conjI)
    show "order_waiting view round_id now bypass name es = Inr (?old @ ?fresh)" unfolding out by (rule o)
    show "mset (?old @ ?fresh) = mset es" by simp
    show "sorted_wrt (\<lambda>a b. aged_key view a \<le> aged_key view b) ?old" by (rule sorted_wrt_key)
    show "sorted_wrt (ranks_before view k) ?fresh" by (rule sorted_wrt_filter [OF sort_by_sorted])
    show "inj_on ordinal (set es) \<longrightarrow>
       (\<forall>es'. mset es' = mset es \<longrightarrow> order_waiting view round_id now bypass name es' = Inr (?old @ ?fresh))"
      unfolding out o using same by blast
  qed simp_all
qed

definition sample_entry :: "int \<Rightarrow> int \<Rightarrow> QueueEntry" where
  "sample_entry k bypassed =
     \<lparr>entry_id = 0, entry_rid = ''r'', entry_ref = 0, ordinal = k, ready_round = 0, ready_ns = 0, entry_sequence = None, cache_hint_tokens = 0, bypass_count = bypassed\<rparr>"

theorem waiting_order_total_witness:
  "\<exists>old fresh. order_waiting (\<lambda>_. fst sample_lifecycle) 3 0 8 ''priority'' [sample_entry 0 0, sample_entry 1 9] = Inr (old @ fresh) \<and>
     (\<forall>e\<in>set old. is_aged 3 8 e) \<and> (\<forall>e\<in>set fresh. \<not> is_aged 3 8 e) \<and>
     old @ fresh = [sample_entry 1 9, sample_entry 0 0]"
proof -
  have k: "key_for ''priority'' = Inr By_Priority" by code_simp
  have run: "order_waiting (\<lambda>_. fst sample_lifecycle) 3 0 8 ''priority'' [sample_entry 0 0, sample_entry 1 9] =
      Inr [sample_entry 1 9, sample_entry 0 0]" by code_simp
  obtain old fresh where
    o: "order_waiting (\<lambda>_. fst sample_lifecycle) 3 0 8 ''priority'' [sample_entry 0 0, sample_entry 1 9] = Inr (old @ fresh)"
    "\<forall>e\<in>set old. is_aged 3 8 e" "\<forall>e\<in>set fresh. \<not> is_aged 3 8 e"
    using waiting_order_total [OF k, of 3 0 8 "\<lambda>_. fst sample_lifecycle" "[sample_entry 0 0, sample_entry 1 9]"] by auto
  with run have "old @ fresh = [sample_entry 1 9, sample_entry 0 0]" by simp
  with o show ?thesis by blast
qed

end
