(* ===== verification/Sched_Budget.thy ===== *)
theory Sched_Budget
  imports Sched_Config
begin

text \<open>
  The token and sequence budget of one scheduling iteration, \<open>BatchBudget\<close> of
  \<open>sched/budget.py\<close>, and what it promises: the closed form of \<open>largest_fittable\<close> agrees with
  the definition by trial (\<open>can_add\<close>), and a budget is never exceeded.
\<close>

section \<open>The budget\<close>

record BatchBudget =
  max_physical_tokens :: int
  max_sequences :: int
  bb_capabilities :: SchedulerCapabilities
  logical_tokens :: int
  bb_sequences :: int
  prefill_tokens :: int
  decode_tokens :: int

definition budget_from_plan :: "ResolvedSchedulerPlan \<Rightarrow> BatchBudget" where
  "budget_from_plan p =
     \<lparr>max_physical_tokens = min (effective_scheduled_token_budget p) (cp_max_batched_tokens (compute p)),
      max_sequences = min (max_num_seqs p) (cap_max_num_seqs (capabilities p)), bb_capabilities = capabilities p,
      logical_tokens = 0, bb_sequences = 0, prefill_tokens = 0, decode_tokens = 0\<rparr>"

definition physical_tokens :: "BatchBudget \<Rightarrow> pyerror + int" where
  "physical_tokens b = physical_token_slots (bb_capabilities b) (logical_tokens b)"

definition remaining_sequences :: "BatchBudget \<Rightarrow> int" where
  "remaining_sequences b = max 0 (max_sequences b - bb_sequences b)"

definition can_add :: "int \<Rightarrow> bool \<Rightarrow> BatchBudget \<Rightarrow> pyerror + bool" where
  "can_add tokens new_sequence b =
     ebind (require_int tokens 1) (\<lambda>_.
     if bb_sequences b + of_bool new_sequence > max_sequences b then Inr False
     else ebind (physical_token_slots (bb_capabilities b) (logical_tokens b + tokens)) (\<lambda>slots.
       Inr (slots \<le> max_physical_tokens b)))"

definition largest_fittable :: "int \<Rightarrow> bool \<Rightarrow> BatchBudget \<Rightarrow> pyerror + int" where
  "largest_fittable requested new_sequence b =
     ebind (require_int requested 1) (\<lambda>_.
     if new_sequence \<and> remaining_sequences b \<le> 0 then Inr 0
     else
       ebind (align_down (max_physical_tokens b) (token_padding_multiple (bb_capabilities b))) (\<lambda>cap.
       ebind (physical_tokens b) (\<lambda>phys.
       Inr (min requested (max 0 (cap - phys + (- logical_tokens b) mod token_padding_multiple (bb_capabilities b)))))))"

definition record_tokens :: "int \<Rightarrow> Phase \<Rightarrow> bool \<Rightarrow> BatchBudget \<Rightarrow> BatchBudget" where
  "record_tokens tokens ph new_sequence b =
     (let b1 = b\<lparr>logical_tokens := logical_tokens b + tokens, bb_sequences := bb_sequences b + of_bool new_sequence\<rparr> in
      if ph = PhasePrefill then b1\<lparr>prefill_tokens := prefill_tokens b + tokens\<rparr>
      else b1\<lparr>decode_tokens := decode_tokens b + tokens\<rparr>)"

definition try_consume :: "int \<Rightarrow> Phase \<Rightarrow> bool \<Rightarrow> (BatchBudget, bool) py" where
  "try_consume tokens ph new_sequence b =
     (case require_int tokens 1 of
        Inl e \<Rightarrow> (Inl e, b)
      | Inr _ \<Rightarrow>
          if bb_sequences b + of_bool new_sequence > max_sequences b then (Inr False, b)
          else (case physical_token_slots (bb_capabilities b) (logical_tokens b + tokens) of
             Inl e \<Rightarrow> (Inl e, b)
           | Inr slots \<Rightarrow>
               if slots > max_physical_tokens b then (Inr False, b)
               else (Inr True, record_tokens tokens ph new_sequence b)))"

definition consume :: "int \<Rightarrow> Phase \<Rightarrow> bool \<Rightarrow> (BatchBudget, unit) py" where
  "consume tokens ph new_sequence =
     andthen (try_consume tokens ph new_sequence) (\<lambda>ok. if ok then ret () else raise ValueError)"

section \<open>What fits\<close>

definition budget_ok :: "BatchBudget \<Rightarrow> bool" where
  "budget_ok b \<longleftrightarrow>
     1 \<le> token_padding_multiple (bb_capabilities b) \<and> 0 \<le> bb_sequences b \<and> bb_sequences b \<le> max_sequences b \<and>
     0 \<le> prefill_tokens b \<and> 0 \<le> decode_tokens b \<and> logical_tokens b = prefill_tokens b + decode_tokens b \<and>
     0 \<le> max_physical_tokens b \<and>
     logical_tokens b \<le> max_physical_tokens b - max_physical_tokens b mod token_padding_multiple (bb_capabilities b)"

lemma require_int_ok: "least \<le> v \<Longrightarrow> require_int v least = Inr ()"
  by (simp add: require_int_def require_def)

text \<open>Padding up stays below a limit iff the value stays below the limit padded down.\<close>

lemma pad_up_le_iff:
  fixes x m l :: int
  assumes m: "0 < m"
  shows "(x + m - 1) div m * m \<le> l \<longleftrightarrow> x \<le> l - l mod m"
proof
  assume "(x + m - 1) div m * m \<le> l"
  then have "(x + m - 1) div m \<le> l div m" using m zdiv_mono1 [of "(x + m - 1) div m * m" l m] by simp
  then have "(x + m - 1) div m * m \<le> l div m * m" using m by simp
  moreover have "x \<le> (x + m - 1) div m * m"
    using pos_mod_bound [OF m, of "x + m - 1"] minus_mod_eq_div_mult [of "x + m - 1" m] by linarith
  moreover have "l div m * m = l - l mod m" by (simp add: minus_mod_eq_div_mult)
  ultimately show "x \<le> l - l mod m" by linarith
next
  assume "x \<le> l - l mod m"
  then have "x \<le> l div m * m" by (simp add: minus_mod_eq_div_mult)
  then have "(x + m - 1) div m \<le> (l div m * m + (m - 1)) div m" using m by (intro zdiv_mono1) simp_all
  also have "\<dots> = l div m" using m by simp
  finally have "(x + m - 1) div m * m \<le> l div m * m" using m by simp
  moreover have "0 \<le> l mod m" using m by simp
  ultimately show "(x + m - 1) div m * m \<le> l" by (simp add: minus_mod_eq_div_mult [symmetric])
qed

lemma pad_up_eq: "0 < m \<Longrightarrow> (x + m - 1) div m * m = x + (- x) mod (m :: int)"
proof -
  assume m: "0 < m"
  define q where "q = (x + m - 1) div m"
  have "q * m \<le> x + m - 1" "x + m - 1 < q * m + m"
    using pos_mod_bound [OF m, of "x + m - 1"] pos_mod_sign [OF m, of "x + m - 1"] minus_mod_eq_div_mult [of "x + m - 1" m]
    unfolding q_def by linarith+
  then have "0 \<le> q * m - x" "q * m - x < m" by simp_all
  then have "(q * m - x) mod m = q * m - x" by simp
  moreover have "(q * m - x) mod m = (- x) mod m" using mod_mult_self2 [of "- x" m q] by (simp add: mult.commute)
  ultimately have "(- x) mod m = q * m - x" by simp
  then show "(x + m - 1) div m * m = x + (- x) mod m" by (simp add: q_def)
qed

lemma slots_Inr:
  "1 \<le> token_padding_multiple c \<Longrightarrow> 0 \<le> n \<Longrightarrow>
   physical_token_slots c n = Inr ((n + token_padding_multiple c - 1) div token_padding_multiple c * token_padding_multiple c)"
  by (simp add: physical_token_slots_def align_up_def require_int_ok)

lemma can_add_iff:
  assumes b: "budget_ok b" and n: "1 \<le> n"
  shows "can_add n new b = Inr (bb_sequences b + of_bool new \<le> max_sequences b \<and>
    logical_tokens b + n \<le> max_physical_tokens b - max_physical_tokens b mod token_padding_multiple (bb_capabilities b))"
proof -
  have "0 \<le> logical_tokens b" using b by (simp add: budget_ok_def)
  with b n show ?thesis
    by (simp add: can_add_def require_int_ok slots_Inr budget_ok_def pad_up_le_iff)
qed

lemma largest_fittable_eq:
  assumes b: "budget_ok b" and n: "1 \<le> n"
  shows "largest_fittable n new b = Inr (if bb_sequences b + of_bool new \<le> max_sequences b
    then min n (max_physical_tokens b - max_physical_tokens b mod token_padding_multiple (bb_capabilities b) - logical_tokens b) else 0)"
proof -
  let ?m = "token_padding_multiple (bb_capabilities b)"
  have l: "0 \<le> logical_tokens b" and m: "1 \<le> ?m" using b by (simp_all add: budget_ok_def)
  have "physical_tokens b = Inr (logical_tokens b + (- logical_tokens b) mod ?m)"
    using m by (simp add: physical_tokens_def slots_Inr l pad_up_eq)
  with b n m show ?thesis
    by (auto simp: largest_fittable_def require_int_ok remaining_sequences_def align_down_def budget_ok_def of_bool_def)
qed

lemma try_consume_eq:
  assumes b: "budget_ok b" and n: "1 \<le> n"
  shows "try_consume n ph new b =
    (if can_add n new b = Inr True then (Inr True, record_tokens n ph new b) else (Inr False, b))"
proof -
  have l: "0 \<le> logical_tokens b + n" using b n by (simp add: budget_ok_def)
  from b n show ?thesis
    by (auto simp: try_consume_def can_add_def require_int_ok slots_Inr l budget_ok_def)
qed

lemma record_ok:
  assumes b: "budget_ok b" and n: "1 \<le> n" and fit: "can_add n new b = Inr True"
  shows "budget_ok (record_tokens n ph new b)"
  using b n fit [unfolded can_add_iff [OF b n]] by (auto simp: budget_ok_def record_tokens_def Let_def)

lemma budget_from_plan_ok:
  assumes "capabilities_validate (capabilities p) = Inr ()" "0 \<le> effective_scheduled_token_budget p"
    "0 \<le> cp_max_batched_tokens (compute p)" "0 \<le> max_num_seqs p"
  shows "budget_ok (budget_from_plan p)"
  using assms zmod_le_nonneg_dividend [of "min (effective_scheduled_token_budget p) (cp_max_batched_tokens (compute p))"]
  by (auto simp: budget_ok_def budget_from_plan_def capabilities_validate_def ebind_Inr_iff require_int_def require_def split: if_splits)

section \<open>Properties\<close>

text \<open>
  C36. The closed form of \<open>largest_fittable\<close> is exact.  On a budget in use it returns the
  largest count up to the requested one that \<open>can_add\<close> accepts (zero if there is none), the
  counts below it are all accepted, and consuming an accepted count succeeds and keeps the
  padded batch and the sequences within the budget, while a refused one changes nothing.
\<close>

theorem largest_fittable_exact:
  assumes b: "budget_ok b" and n: "1 \<le> n"
  shows "\<exists>k. largest_fittable n new b = Inr k \<and> 0 \<le> k \<and> k \<le> n \<and>
    (\<forall>j. 1 \<le> j \<and> j \<le> n \<longrightarrow>
       can_add j new b = Inr (j \<le> k) \<and>
       try_consume j ph new b = (if j \<le> k then (Inr True, record_tokens j ph new b) else (Inr False, b)) \<and>
       budget_ok (snd (try_consume j ph new b)))"
proof -
  let ?room = "max_physical_tokens b - max_physical_tokens b mod token_padding_multiple (bb_capabilities b) - logical_tokens b"
  let ?k = "if bb_sequences b + of_bool new \<le> max_sequences b then min n ?room else 0"
  have room: "0 \<le> ?room" using b by (simp add: budget_ok_def)
  have "can_add j new b = Inr (j \<le> ?k)" if "1 \<le> j" "j \<le> n" for j
    using that by (simp add: can_add_iff [OF b that(1)]) linarith
  moreover from this have "try_consume j ph new b = (if j \<le> ?k then (Inr True, record_tokens j ph new b) else (Inr False, b))"
    if "1 \<le> j" "j \<le> n" for j
    using that by (simp add: try_consume_eq [OF b that(1)])
  moreover from calculation have "budget_ok (snd (try_consume j ph new b))" if "1 \<le> j" "j \<le> n" for j
    using that b record_ok [OF b that(1), of new ph] by simp
  moreover have "0 \<le> ?k \<and> ?k \<le> n" using n room by simp
  ultimately show ?thesis using largest_fittable_eq [OF b n, of new] by blast
qed

definition sample_budget :: BatchBudget where
  "sample_budget =
     \<lparr>max_physical_tokens = 20, max_sequences = 4,
      bb_capabilities = \<lparr>cap_max_num_seqs = 4, token_padding_multiple = 8, chunked_prefill = True, cap_graph_mode = EAGER,
        recompute_preemption = False, prefix_cache = False, pipeline_stages = False\<rparr>,
      logical_tokens = 5, bb_sequences = 2, prefill_tokens = 3, decode_tokens = 2\<rparr>"

theorem largest_fittable_exact_witness:
  "largest_fittable 100 True sample_budget = Inr 11 \<and> can_add 11 True sample_budget = Inr True \<and>
   can_add 12 True sample_budget = Inr False"
proof -
  have b: "budget_ok sample_budget" by code_simp
  have l: "largest_fittable 100 True sample_budget = Inr 11" by code_simp
  obtain k where k: "largest_fittable 100 True sample_budget = Inr k"
    "\<forall>j. 1 \<le> j \<and> j \<le> 100 \<longrightarrow> can_add j True sample_budget = Inr (j \<le> k)"
    using largest_fittable_exact [OF b, of 100 True PhasePrefill] by auto
  with l have "k = 11" by simp
  with l k(2) show ?thesis by simp
qed

text \<open>What a resolved plan promises about its limits.\<close>

lemma resolved_limits:
  assumes "resolved_validate p0 = Inr p"
  shows "1 \<le> effective_scheduled_token_budget p" "effective_scheduled_token_budget p \<le> cp_max_batched_tokens (compute p)"
    "1 \<le> max_num_seqs p" "max_num_seqs p \<le> cap_max_num_seqs (capabilities p)"
proof -
  obtain q where q: "config_validate p0 = Inr q" "check_execution q = Inr ()" "\<exists>n\<ge>1. max_num_scheduled_tokens q = Some n"
    "p = q\<lparr>memory_capacity_bytes := sort_key fst (memory_capacity_bytes q)\<rparr>"
    using assms by (auto simp: resolved_validate_def ebind_Inr_iff require_int_def require_def split: option.splits if_splits)
  from q(1) have c: "q = p0\<lparr>tier_limits := sort_key fst (tier_limits p0)\<rparr>" "1 \<le> max_num_seqs p0"
    "effective_scheduled_token_budget p0 \<le> max_num_batched_tokens p0"
    by (auto simp: config_validate_def ebind_Inr_iff require_int_def require_def split: if_splits)
  from q(2) have "max_num_batched_tokens q \<le> cp_max_batched_tokens (compute q)" "max_num_seqs q \<le> cap_max_num_seqs (capabilities q)"
    by (auto simp: check_execution_def ebind_Inr_iff require_def split: if_splits)
  with q c show "1 \<le> effective_scheduled_token_budget p" "effective_scheduled_token_budget p \<le> cp_max_batched_tokens (compute p)"
    "1 \<le> max_num_seqs p" "max_num_seqs p \<le> cap_max_num_seqs (capabilities p)"
    by (auto simp: effective_scheduled_token_budget_def)
qed

text \<open>
  C38. A resolved plan lets anything be scheduled exactly when its issue budget is at least
  one padding unit: with a smaller \<open>max_num_scheduled_tokens\<close> the plan still passes every
  check of the resolution, but the budget of a fresh iteration, which compares padded slots
  with the unpadded issue budget, accepts no token at all.
\<close>

theorem fresh_budget_admits_iff:
  assumes p: "resolved_validate p0 = Inr p" and c: "capabilities_validate (capabilities p) = Inr ()" and n: "1 \<le> n"
  shows "\<exists>k. largest_fittable n True (budget_from_plan p) = Inr k \<and>
    (1 \<le> k \<longleftrightarrow> token_padding_multiple (capabilities p) \<le> effective_scheduled_token_budget p)"
proof -
  note L = resolved_limits [OF p]
  let ?m = "token_padding_multiple (capabilities p)" and ?s = "effective_scheduled_token_budget p"
  have b: "budget_ok (budget_from_plan p)" by (rule budget_from_plan_ok [OF c]) (use L in simp_all)
  have m: "1 \<le> ?m" using c by (auto simp: capabilities_validate_def ebind_Inr_iff require_int_def require_def split: if_splits)
  have "1 \<le> ?s - ?s mod ?m \<longleftrightarrow> ?m \<le> ?s"
  proof
    assume "1 \<le> ?s - ?s mod ?m"
    then show "?m \<le> ?s" using L(1) m mod_pos_pos_trivial [of ?s ?m] by (cases "?s < ?m") simp_all
  next
    assume "?m \<le> ?s"
    then show "1 \<le> ?s - ?s mod ?m" using m pos_mod_bound [of ?m ?s] by linarith
  qed
  with n L largest_fittable_eq [OF b n, of True] show ?thesis by (simp add: budget_from_plan_def)
qed

text \<open>A configuration with four scheduled tokens per iteration on a runner that pads to eight.\<close>

definition sample_config :: SchedulerConfig where
  "sample_config =
     \<lparr>max_num_seqs = 2, max_num_batched_tokens = 8, max_num_scheduled_tokens = Some 4, max_num_requests = Some 16,
      max_queued_requests = None, enable_chunked_prefill = True, max_prefill_chunk_tokens = None,
      max_num_partial_prefills = 1, long_prefill_token_threshold = 0, scheduling_policy = FCFS,
      preemption_mode = PREEMPT_NONE, priority_preemption = False, max_decode_steps_per_schedule = 1, max_inflight = 1,
      max_bypass = 8, iteration_ns = 1000, retry_ns = 10, transfer_bytes = 0, tier_limits = [],
      sampling_support_max_tokens = 512\<rparr>"

definition sample_memory :: LedgerSnapshot where
  "sample_memory =
     \<lparr>ls_device = 0,
      ls_tiers = [(DEVICE, \<lparr>tas_tier = DEVICE, tas_capacity = 1000, tas_committed = 0, tas_pending = 0,
        tas_committed_materialized = 0, tas_pending_materialized = 0, tas_reserved_va = 0, tas_num_entries = 0\<rparr>)],
      charged_by_owner = [], pending_charged_by_owner = [], ls_materialized_by_owner = [], num_open_tickets = 0\<rparr>"

definition sample_resolution :: "pyerror + ResolvedSchedulerPlan" where
  "sample_resolution =
     config_resolve sample_config 64 ''plan'' 1
       \<lparr>layer_range = (0, 1), num_micro_batches = 1, cp_chunked_prefill = True, cp_max_batched_tokens = 8\<rparr>
       \<lparr>tp_size = 1, tp_rank = 0, pp_size = 1, pp_rank = 0, dp_size = 1, dp_rank = 0, ep_size = 1, ep_rank = 0, cp_size = 1,
        cp_rank = 0, sp_enabled = False\<rparr>
       (bb_capabilities sample_budget) sample_memory \<lparr>workspaces = [], activation_bytes = 0, peak_bytes_estimate = 0\<rparr>"

theorem fresh_budget_admits_iff_witness:
  "\<exists>p. sample_resolution = Inr p \<and> largest_fittable 1 True (budget_from_plan p) = Inr 0"
proof -
  have "(case sample_resolution of Inl _ \<Rightarrow> False | Inr p \<Rightarrow> resolved_validate p = Inr p \<and>
      capabilities_validate (capabilities p) = Inr () \<and> effective_scheduled_token_budget p < token_padding_multiple (capabilities p) \<and>
      (case largest_fittable 1 True (budget_from_plan p) of Inl _ \<Rightarrow> False | Inr k \<Rightarrow> 0 \<le> k))"
    by code_simp
  then obtain p where p: "sample_resolution = Inr p" "resolved_validate p = Inr p" "capabilities_validate (capabilities p) = Inr ()"
    "effective_scheduled_token_budget p < token_padding_multiple (capabilities p)"
    "case largest_fittable 1 True (budget_from_plan p) of Inl _ \<Rightarrow> False | Inr k \<Rightarrow> 0 \<le> k"
    by (auto split: sum.splits)
  obtain k where "largest_fittable 1 True (budget_from_plan p) = Inr k"
    "1 \<le> k \<longleftrightarrow> token_padding_multiple (capabilities p) \<le> effective_scheduled_token_budget p"
    using fresh_budget_admits_iff [OF p(2,3), of 1] by auto
  with p show ?thesis by force
qed

end
