(* ===== verification/Sched_Core.thy ===== *)
theory Sched_Core
  imports Sched_Policy Sched_Budget
begin

text \<open>
  The shared scheduler machinery, \<open>sched/core.py\<close>, with the methods that the continuous
  scheduler overrides (\<open>_new_queue_entry\<close>, \<open>_running_remove\<close>, \<open>_drop\<close> and the hint hooks of
  \<open>sched/continuous.py\<close>) in place: the two-level waiting queue, the decode ring, in-flight
  tickets, admission, abort and reports.  The scheduler acts on its own record and on a
  \<open>world\<close>: the registry of lifecycles with the epoch counter, and whatever lies behind the
  collaborators, which are arguments (the sequence allocator, the step runtime, and the
  optional preemption controller, request preparer, admission advisor, prefix-hint and
  chunk-cap providers and the proposer of speculative drafts, and the order in which the
  interpreter iterates over a set of ids).  The clock reading of a call is
  an argument.  Modelled is the scheduler without a sampling coordinator, for requests
  with \<open>n = 1\<close>: the expansion of a request into a family of children, the registry of parents
  and the fan-out of an abort to the children are left out.
\<close>

section \<open>State\<close>

record InflightSlice =
  inf_request_id :: string
  inf_phase :: Phase
  inf_query_start :: int
  inf_query_end :: int
  inf_prompt_tokens :: int

record Scheduler =
  s_plan :: ResolvedSchedulerPlan
  text_stops :: bool
  staging :: "QueueEntry list"
  hot :: "QueueEntry list"
  waiting_ids :: "string set"
  prefilling :: "(string \<times> nat) list"
  running :: "(string \<times> nat) list"
  running_ids :: "string list"
  running_index :: "(string \<times> nat) list"
  sequences :: "(string \<times> SequenceHandle) list"
  pending :: "(string \<times> RequestReport) list"
  inflight_requests :: "(int \<times> string set) list"
  inflight_ids_all :: "string set"
  abort_pending :: "string set"
  abort_reasons :: "(string \<times> string \<times> FinishReason option) list"
  resource_blocked :: bool
  next_ordinal :: int
  ordinals :: "(string \<times> int) list"
  sched_round :: int
  sched_step_id :: int
  report_step_id :: int
  decode_first :: bool
  allow_mixed_batches :: bool
  max_decode_burst :: "int option"
  decode_burst :: int
  prefill_chunk_size :: "int option"
  effective_prefill_chunk_size :: "int option"
  chunk_adjustment_reason :: "string option"
  successful_prepares :: int
  bypass_limit :: int
  inflight_slices :: "(int \<times> InflightSlice list) list"
  last_step :: "BatchStepPlan option"
  decode_cursor :: nat
  service_round :: int
  transient_prepare_failures :: int
  preemptions :: int
  bypasses :: int
  admission_rejections :: int
  recomputed_tokens :: int
  wasted_compute_tokens :: int
  recompute_until :: "(string \<times> int) list"
  next_entry_id :: nat

definition HOT_WINDOW_SIZE :: nat where
  "HOT_WINDOW_SIZE = 128"

text \<open>The constructor of the continuous scheduler; its keyword arguments in order.\<close>

definition chunk_ceiling :: "ResolvedSchedulerPlan \<Rightarrow> int option \<Rightarrow> pyerror + int option" where
  "chunk_ceiling p chunk =
     (let cap = (if enable_chunked_prefill p then max_prefill_chunk_tokens p else None) in
      case chunk of
        None \<Rightarrow> Inr cap
      | Some n \<Rightarrow>
          if \<not> enable_chunked_prefill p then Inl ValueError
          else Inr (Some (case cap of None \<Rightarrow> n | Some c \<Rightarrow> min c n)))"

definition Scheduler_init ::
  "ResolvedSchedulerPlan \<Rightarrow> bool \<Rightarrow> bool \<Rightarrow> bool \<Rightarrow> int option \<Rightarrow> int option \<Rightarrow> int option \<Rightarrow> pyerror + Scheduler" where
  "Scheduler_init p stops first mixed burst chunk bypass =
     ebind (require (case chunk of None \<Rightarrow> True | Some n \<Rightarrow> n > 0) ValueError) (\<lambda>_.
     let limit = (case bypass of None \<Rightarrow> max_bypass p | Some n \<Rightarrow> n) in
     ebind (require (limit > 0) ValueError) (\<lambda>_.
     ebind (require (case burst of None \<Rightarrow> True | Some n \<Rightarrow> n \<ge> 1 \<and> \<not> mixed) ValueError) (\<lambda>_.
     ebind (chunk_ceiling p chunk) (\<lambda>cap.
     Inr \<lparr>s_plan = p, text_stops = stops, staging = [], hot = [], waiting_ids = {}, prefilling = [], running = [],
       running_ids = [], running_index = [], sequences = [], pending = [], inflight_requests = [], inflight_ids_all = {},
       abort_pending = {}, abort_reasons = [], resource_blocked = False, next_ordinal = 0, ordinals = [], sched_round = 0,
       sched_step_id = - 1, report_step_id = - 1, decode_first = first, allow_mixed_batches = mixed, max_decode_burst = burst,
       decode_burst = 0, prefill_chunk_size = cap, effective_prefill_chunk_size = cap, chunk_adjustment_reason = None,
       successful_prepares = 0, bypass_limit = limit, inflight_slices = [], last_step = None, decode_cursor = 0,
       service_round = 0, transient_prepare_failures = 0, preemptions = 0, bypasses = 0, admission_rejections = 0,
       recomputed_tokens = 0, wasted_compute_tokens = 0, recompute_until = [], next_entry_id = 0\<rparr>))))"

section \<open>Collaborators\<close>

type_synonym 'w world = "mgr_state \<times> 'w"

type_synonym 'w sched_state = "Scheduler \<times> 'w world"

text \<open>Why a step could not be prepared: \<open>StepPrepareError\<close>, or any other exception.\<close>

datatype prepare_error = Step_Prepare_Error (transient: bool) (refused: "string option") (message: string) | Other_Error pyerror

text \<open>
  The protocols the scheduler calls.  The advisor and the two hint providers answer without
  raising and without changing anything; every other collaborator may raise and may change
  what it keeps.
\<close>

record 'w collaborators =
  seq_create :: "string \<Rightarrow> ('w world, SequenceHandle) py"
  seq_free :: "SequenceHandle \<Rightarrow> ('w world, unit) py"
  rt_prepare :: "BatchStepPlan \<Rightarrow> 'w world \<Rightarrow> (prepare_error + unit) \<times> 'w world"
  rt_adopt :: "BatchStepPlan \<Rightarrow> ('w world, int) py"
  rt_cancel :: "int \<Rightarrow> string \<Rightarrow> ('w world, unit) py"
  preempt :: "(nat \<Rightarrow> SequenceHandle \<Rightarrow> string \<Rightarrow> ('w world, bool) py) option"
  prepare_request :: "(nat \<Rightarrow> ('w world, bool) py) option"
  can_admit :: "(nat \<Rightarrow> int \<Rightarrow> int \<Rightarrow> 'w world \<Rightarrow> bool) option"
  prefix_hints :: "(nat \<Rightarrow> 'w world \<Rightarrow> int option) option"
  capacity_hint :: "('w world \<Rightarrow> int option) option"
  propose :: "((int \<times> ScheduledSlice \<times> RequestStepInput \<times> Request) list \<Rightarrow> int \<Rightarrow> ('w world, SpeculativeSlicePlan list) py) option"
  set_iter :: "string set \<Rightarrow> string list"

definition view :: "'w world \<Rightarrow> store" where
  "view w r = objects (fst (fst w)) ! r"

definition registry :: "'w world \<Rightarrow> LifecycleManager" where
  "registry w = fst (fst w)"

definition own :: "(Scheduler \<Rightarrow> Scheduler) \<Rightarrow> ('w sched_state, unit) py" where
  "own f = (\<lambda>(s, w). (Inr (), (f s, w)))"

definition ask :: "(Scheduler \<Rightarrow> 'w world \<Rightarrow> pyerror + 'a) \<Rightarrow> ('w sched_state, 'a) py" where
  "ask f = (\<lambda>(s, w). (f s w, (s, w)))"

definition outside :: "('w world, 'a) py \<Rightarrow> ('w sched_state, 'a) py" where
  "outside f = (\<lambda>(s, w). case f w of (r, w') \<Rightarrow> (r, (s, w')))"

definition managed :: "(mgr_state, 'a) py \<Rightarrow> ('w sched_state, 'a) py" where
  "managed f = outside (\<lambda>(g, w). case f g of (r, g') \<Rightarrow> (r, (g', w)))"

lemma own_apply [simp]: "own f (s, w) = (Inr (), (f s, w))"
  and ask_apply [simp]: "ask h (s, w) = (h s w, (s, w))"
  by (simp_all add: own_def ask_def)

section \<open>Queues\<close>

definition hints_enabled :: "'w collaborators \<Rightarrow> Scheduler \<Rightarrow> bool" where
  "hints_enabled C s \<longleftrightarrow> prefix_hints C \<noteq> None \<and> scheduling_policy (s_plan s) = LONGEST_PREFIX_MATCH"

definition hint_value :: "'w collaborators \<Rightarrow> 'w world \<Rightarrow> nat \<Rightarrow> int" where
  "hint_value C w r =
     (case prefix_hints C of
        None \<Rightarrow> 0
      | Some f \<Rightarrow> (case f r w of None \<Rightarrow> 0 | Some v \<Rightarrow> max 0 v))"

definition refresh_hint :: "'w collaborators \<Rightarrow> 'w world \<Rightarrow> QueueEntry \<Rightarrow> QueueEntry" where
  "refresh_hint C w e = e\<lparr>cache_hint_tokens := max 0 (hint_value C w (entry_ref e))\<rparr>"

definition refresh_window_hints :: "'w collaborators \<Rightarrow> Scheduler \<Rightarrow> 'w world \<Rightarrow> QueueEntry list \<Rightarrow> QueueEntry list" where
  "refresh_window_hints C s w es = (if hints_enabled C s then map (refresh_hint C w) es else es)"

definition new_queue_entry :: "int \<Rightarrow> string \<Rightarrow> nat \<Rightarrow> SequenceHandle option \<Rightarrow> (Scheduler, QueueEntry) py" where
  "new_queue_entry now rid r seq s =
     (let (k, s1) = (case map_of (ordinals s) rid of
            Some k \<Rightarrow> (k, s)
          | None \<Rightarrow> (next_ordinal s, s\<lparr>ordinals := AList.update rid (next_ordinal s) (ordinals s), next_ordinal := next_ordinal s + 1\<rparr>));
          e = \<lparr>entry_id = next_entry_id s, entry_rid = rid, entry_ref = r, ordinal = k, ready_round = service_round s,
               ready_ns = now, entry_sequence = seq, cache_hint_tokens = 0, bypass_count = 0\<rparr>
      in case queue_entry_validate e of
           Inl x \<Rightarrow> (Inl x, s1)
         | Inr _ \<Rightarrow> (Inr e, s1\<lparr>next_entry_id := Suc (next_entry_id s)\<rparr>))"

definition waiting_add :: "QueueEntry \<Rightarrow> Scheduler \<Rightarrow> Scheduler" where
  "waiting_add e s = s\<lparr>staging := staging s @ [e], waiting_ids := insert (entry_rid e) (waiting_ids s)\<rparr>"

fun delete_first :: "string \<Rightarrow> QueueEntry list \<Rightarrow> QueueEntry list" where
  "delete_first rid [] = []"
| "delete_first rid (e # es) = (if entry_rid e = rid then es else e # delete_first rid es)"

text \<open>A request that is still staged keeps its entry; the drain skips it by its id.\<close>

definition waiting_remove :: "string \<Rightarrow> Scheduler \<Rightarrow> Scheduler" where
  "waiting_remove rid s =
     (if rid \<notin> waiting_ids s then s
      else s\<lparr>waiting_ids := waiting_ids s - {rid}, hot := delete_first rid (hot s)\<rparr>)"

fun drain_loop :: "string set \<Rightarrow> nat \<Rightarrow> QueueEntry list \<Rightarrow> QueueEntry list \<times> QueueEntry list" where
  "drain_loop ids n [] = ([], [])"
| "drain_loop ids n (e # es) =
     (if n = 0 then ([], e # es)
      else if entry_rid e \<notin> ids then drain_loop ids n es
      else let (admitted, rest) = drain_loop ids (n - 1) es in (e # admitted, rest))"

definition drain_window :: "'w collaborators \<Rightarrow> 'w world \<Rightarrow> Scheduler \<Rightarrow> Scheduler" where
  "drain_window C w s =
     (if staging s = [] \<or> HOT_WINDOW_SIZE \<le> length (hot s) then s
      else let (admitted, rest) = drain_loop (waiting_ids s) (HOT_WINDOW_SIZE - length (hot s)) (staging s) in
        s\<lparr>hot := hot s @ refresh_window_hints C s w admitted, staging := rest\<rparr>)"

text \<open>
  A continuation stays visible at the head of the ranking window; the last entry of a full
  window makes room for it.
\<close>

definition requeue_front :: "'w collaborators \<Rightarrow> 'w world \<Rightarrow> QueueEntry \<Rightarrow> Scheduler \<Rightarrow> Scheduler" where
  "requeue_front C w e s =
     (let s1 = (if HOT_WINDOW_SIZE \<le> length (hot s)
                then s\<lparr>staging := last (hot s) # staging s, hot := butlast (hot s)\<rparr> else s)
      in s1\<lparr>hot := refresh_window_hints C s1 w [e] @ hot s1, waiting_ids := insert (entry_rid e) (waiting_ids s1)\<rparr>)"

definition requeue :: "'w collaborators \<Rightarrow> int \<Rightarrow> nat \<Rightarrow> ('w sched_state, unit) py" where
  "requeue C now r = (\<lambda>(s, w).
     let lc = view w r; rid = rq_id (request lc) in
     if is_terminal (machine lc) \<or> tok_cancelled (token lc) then (Inr (), (s, w))
     else if rid \<in> waiting_ids s then (Inr (), (s, w))
     else case new_queue_entry now rid r (map_of (sequences s) rid) s of
       (Inl x, s1) \<Rightarrow> (Inl x, (s1, w))
     | (Inr e, s1) \<Rightarrow>
         (Inr (), (if map_of (prefilling s1) rid \<noteq> None then requeue_front C w e s1 else waiting_add e s1, w)))"

section \<open>The decode ring\<close>

definition running_add :: "string \<Rightarrow> nat \<Rightarrow> Scheduler \<Rightarrow> Scheduler" where
  "running_add rid r s =
     (if map_of (running s) rid \<noteq> None then s\<lparr>running := AList.update rid r (running s)\<rparr>
      else s\<lparr>running := AList.update rid r (running s),
             running_index := AList.update rid (length (running_ids s)) (running_index s),
             running_ids := running_ids s @ [rid]\<rparr>)"

text \<open>
  Removal by swapping with the last one, then dropping the last one.  The ring and its index
  hold the same ids, so that the lookup in the index never fails.
\<close>

definition ring_remove :: "string \<Rightarrow> Scheduler \<Rightarrow> Scheduler" where
  "ring_remove rid s =
     (case (map_of (running s) rid, map_of (running_index s) rid) of
        (Some _, Some i) \<Rightarrow>
          let ids = running_ids s; l = length ids - 1; index = AList.delete rid (running_index s) in
          s\<lparr>running := AList.delete rid (running s),
            running_index := (if i \<noteq> l then AList.update (ids ! l) i index else index),
            running_ids := butlast (if i \<noteq> l then ids[i := ids ! l] else ids)\<rparr>
      | _ \<Rightarrow> s)"

definition running_remove :: "string \<Rightarrow> Scheduler \<Rightarrow> Scheduler" where
  "running_remove rid s =
     (let l = length (running_ids s) - 1;
          s1 = (case map_of (running_index s) rid of
                  Some i \<Rightarrow> if i \<noteq> l \<and> decode_cursor s = l then s\<lparr>decode_cursor := i\<rparr> else s
                | None \<Rightarrow> s);
          s2 = ring_remove rid s1
      in s2\<lparr>decode_cursor := decode_cursor s2 mod (if running_ids s2 \<noteq> [] then length (running_ids s2) else 1)\<rparr>)"

text \<open>
  \<open>_drop\<close>, without its last two steps: telling the proposer to forget the request, and
  striking a finished child off the registry of parents.
\<close>

definition drop_request :: "string \<Rightarrow> Scheduler \<Rightarrow> Scheduler" where
  "drop_request rid s =
     (let s1 = s\<lparr>recompute_until := AList.delete rid (recompute_until s), prefilling := AList.delete rid (prefilling s)\<rparr>
      in waiting_remove rid (running_remove rid s1))"

section \<open>Reports and tickets\<close>

definition mk_report :: "string \<Rightarrow> RequestOutcome \<Rightarrow> int \<Rightarrow> FinishReason option \<Rightarrow> string \<Rightarrow> pyerror + RequestReport" where
  "mk_report rid oc e fr text =
     (let rep = \<lparr>rep_request_id = rid, outcome = oc, rep_epoch = e, completed_slice = None, committed_state_version = None,
                 new_token_ids = [], rep_cached_tokens = 0, rep_finish_reason = fr, detail = text\<rparr>
      in ebind (report_validate rep) (\<lambda>_. Inr rep))"

definition queue_report :: "RequestReport \<Rightarrow> Scheduler \<Rightarrow> Scheduler" where
  "queue_report rep s = s\<lparr>pending := AList.update (rep_request_id rep) rep (pending s)\<rparr>"

definition set_inflight :: "int \<Rightarrow> string set \<Rightarrow> (Scheduler, unit) py" where
  "set_inflight ticket ids s =
     (if ids = {} then (Inl ValueError, s)
      else if map_of (inflight_requests s) ticket \<noteq> None then (Inl ValueError, s)
      else (Inr (), s\<lparr>inflight_requests := AList.update ticket ids (inflight_requests s),
                      inflight_ids_all := inflight_ids_all s \<union> ids\<rparr>))"

definition clear_inflight :: "int \<Rightarrow> Scheduler \<Rightarrow> string set option \<times> Scheduler" where
  "clear_inflight ticket s =
     (case map_of (inflight_requests s) ticket of
        None \<Rightarrow> (None, s)
      | Some ids \<Rightarrow>
          (Some ids, s\<lparr>inflight_requests := AList.delete ticket (inflight_requests s),
                       inflight_ids_all := inflight_ids_all s - ids\<rparr>))"

definition send_report :: "string \<Rightarrow> RequestOutcome \<Rightarrow> int \<Rightarrow> FinishReason option \<Rightarrow> string \<Rightarrow> ('w sched_state, unit) py" where
  "send_report rid oc e fr text = andthen (ask (\<lambda>_ _. mk_report rid oc e fr text)) (\<lambda>rep. own (queue_report rep))"

definition pop_sequence :: "string \<Rightarrow> ('w sched_state, SequenceHandle option) py" where
  "pop_sequence rid = (\<lambda>(s, w). (Inr (map_of (sequences s) rid), (s\<lparr>sequences := AList.delete rid (sequences s)\<rparr>, w)))"

definition free_sequence :: "'w collaborators \<Rightarrow> SequenceHandle option \<Rightarrow> ('w sched_state, unit) py" where
  "free_sequence C h = (case h of None \<Rightarrow> ret () | Some x \<Rightarrow> outside (seq_free C x))"

definition report_open :: "nat option \<Rightarrow> string \<Rightarrow> FinishReason option \<Rightarrow> string \<Rightarrow> ('w sched_state, unit) py" where
  "report_open ref rid fr text = (\<lambda>(s, w).
     case ref of
       None \<Rightarrow> ret () (s, w)
     | Some r \<Rightarrow>
         if is_terminal (machine (view w r)) then ret () (s, w)
         else send_report rid O_ABORTED (sequence_epoch (machine (view w r))) fr text (s, w))"

definition finalize_abort :: "'w collaborators \<Rightarrow> string \<Rightarrow> ('w sched_state, unit) py" where
  "finalize_abort C rid =
     andthen (ask (\<lambda>s w. Inr (find (registry w) rid,
        case map_of (abort_reasons s) rid of Some x \<Rightarrow> x | None \<Rightarrow> (''aborted by scheduler'', None)))) (\<lambda>(ref, text, fr).
     andthen (own (\<lambda>s. drop_request rid (s\<lparr>abort_reasons := AList.delete rid (abort_reasons s)\<rparr>))) (\<lambda>_.
     andthen (report_open ref rid fr text) (\<lambda>_.
     andthen (pop_sequence rid) (\<lambda>h.
     andthen (free_sequence C h) (\<lambda>_.
     own (\<lambda>s. s\<lparr>abort_pending := abort_pending s - {rid}\<rparr>))))))"

definition finalize_settled_aborts :: "'w collaborators \<Rightarrow> string list \<Rightarrow> ('w sched_state, unit) py" where
  "finalize_settled_aborts C =
     for_each (\<lambda>rid (s, w). if rid \<in> abort_pending s then finalize_abort C rid (s, w) else ret () (s, w))"

definition abort :: "'w collaborators \<Rightarrow> string \<Rightarrow> string \<Rightarrow> FinishReason option \<Rightarrow> ('w sched_state, bool) py" where
  "abort C rid reason fr = (\<lambda>(s, w).
     case find (registry w) rid of
       None \<Rightarrow> (Inr False, (s, w))
     | Some r \<Rightarrow>
         if is_terminal (machine (view w r)) \<or> rid \<in> abort_pending s then (Inr False, (s, w))
         else
           andthen (own (\<lambda>s. s\<lparr>abort_reasons := AList.update rid (reason, fr) (abort_reasons s)\<rparr>)) (\<lambda>_.
           andthen (managed (at_ref r (on_lc (\<lambda>lc. lc\<lparr>token := snd (token_cancel reason (token lc))\<rparr>)))) (\<lambda>_.
           andthen (managed (at_ref r (on_lc (\<lambda>lc. if fr \<noteq> None \<and> finish_reason lc = None then lc\<lparr>finish_reason := fr\<rparr> else lc)))) (\<lambda>_.
           andthen (own (\<lambda>s. s\<lparr>abort_pending := insert rid (abort_pending s)\<rparr>)) (\<lambda>_.
           (\<lambda>(s, w).
              if rid \<in> inflight_ids_all s then
                andthen (for_each (\<lambda>(ticket, ids).
                    if ids \<noteq> {} \<and> ids \<subseteq> abort_pending s then outside (rt_cancel C ticket ''all requests in ticket aborted'')
                    else ret ()) (inflight_requests s)) (\<lambda>_. ret True) (s, w)
              else andthen (finalize_abort C rid) (\<lambda>_. ret True) (s, w))))))
           (s, w))"

text \<open>What \<open>finish_request\<close> and \<open>fail_request\<close> share: they drop, report and hand back the sequence.\<close>

definition end_request :: "string \<Rightarrow> nat \<Rightarrow> RequestOutcome \<Rightarrow> FinishReason option \<Rightarrow> string \<Rightarrow> ('w sched_state, SequenceHandle option) py" where
  "end_request rid r oc fr text =
     andthen (own (\<lambda>s. let s1 = drop_request rid s in
       s1\<lparr>abort_pending := abort_pending s1 - {rid}, abort_reasons := AList.delete rid (abort_reasons s1)\<rparr>)) (\<lambda>_.
     andthen (\<lambda>(s, w). send_report rid oc (sequence_epoch (machine (view w r))) fr text (s, w)) (\<lambda>_.
     pop_sequence rid))"

definition finish_request :: "string \<Rightarrow> FinishReason \<Rightarrow> string \<Rightarrow> ('w sched_state, SequenceHandle option) py" where
  "finish_request rid reason text = (\<lambda>(s, w).
     case find (registry w) rid of
       None \<Rightarrow> (Inr None, (s, w))
     | Some r \<Rightarrow>
         if is_terminal (machine (view w r)) \<or> inflight (view w r) \<noteq> None \<or> rid \<in> inflight_ids_all s then (Inr None, (s, w))
         else end_request rid r O_FINISHED (Some reason) text (s, w))"

definition fail_request :: "string \<Rightarrow> string \<Rightarrow> ('w sched_state, SequenceHandle option) py" where
  "fail_request rid text = (\<lambda>(s, w).
     case find (registry w) rid of
       None \<Rightarrow> (Inr None, (s, w))
     | Some r \<Rightarrow>
         if is_terminal (machine (view w r)) then (Inr None, (s, w))
         else end_request rid r O_FAILED None text (s, w))"

definition flush_reports :: "int \<Rightarrow> ('w sched_state, SchedulerReport option) py" where
  "flush_reports ts = (\<lambda>(s, w).
     if pending s = [] then (Inr None, (s, w))
     else
       andthen (own (\<lambda>s. s\<lparr>report_step_id := report_step_id s + 1\<rparr>)) (\<lambda>_.
       andthen (ask (\<lambda>s w. let sr = \<lparr>srep_step_id = report_step_id s, reports = map snd (pending s)\<rparr> in
         ebind (scheduler_report_validate sr) (\<lambda>_. Inr sr))) (\<lambda>sr.
       andthen (own (\<lambda>s. s\<lparr>pending := []\<rparr>)) (\<lambda>_.
       andthen (managed (apply_scheduler_report sr ts)) (\<lambda>_. ret (Some sr))))) (s, w))"

section \<open>Admission\<close>

definition check_request_capacity :: "Scheduler \<Rightarrow> 'w world \<Rightarrow> pyerror + unit" where
  "check_request_capacity s w =
     ebind (require (case max_num_requests (s_plan s) of None \<Rightarrow> True
                     | Some cap \<Rightarrow> int (length (active (registry w))) < cap) RuntimeError) (\<lambda>_.
     require (case max_queued_requests (s_plan s) of None \<Rightarrow> True
              | Some cap \<Rightarrow> int (card (waiting_ids s)) < cap) RuntimeError)"

definition rollback_children :: "'w collaborators \<Rightarrow> string list \<Rightarrow> ('w sched_state, unit) py" where
  "rollback_children C =
     for_each (\<lambda>rid.
       andthen (pop_sequence rid) (\<lambda>h.
       andthen (free_sequence C h) (\<lambda>_.
       andthen (own (\<lambda>s. let s1 = drop_request rid s in
         s1\<lparr>abort_pending := abort_pending s1 - {rid}, abort_reasons := AList.delete rid (abort_reasons s1),
            ordinals := AList.delete rid (ordinals s1), pending := AList.delete rid (pending s1)\<rparr>)) (\<lambda>_.
       discard (managed (mgr_rollback rid))))))"

text \<open>\<open>try: x except BaseException: c; raise\<close>.\<close>

definition or_cleanup :: "('s, 'a) py \<Rightarrow> ('s, unit) py \<Rightarrow> ('s, 'a) py" where
  "or_cleanup x c = (\<lambda>s.
     case x s of
       (Inr v, s') \<Rightarrow> (Inr v, s')
     | (Inl e, s') \<Rightarrow> (case c s' of (Inl e', s'') \<Rightarrow> (Inl e', s'') | (Inr _, s'') \<Rightarrow> (Inl e, s'')))"

definition enqueue_new :: "int \<Rightarrow> string \<Rightarrow> nat \<Rightarrow> SequenceHandle \<Rightarrow> ('w sched_state, unit) py" where
  "enqueue_new now rid r h = (\<lambda>(s, w).
     case new_queue_entry now rid r (Some h) s of
       (Inl e, s1) \<Rightarrow> (Inl e, (s1, w))
     | (Inr e, s1) \<Rightarrow> (Inr (), (waiting_add e s1, w)))"

text \<open>
  The admission of one request, which \<open>add_request\<close> calls at once when \<open>n = 1\<close>.  Such requests
  are greedy and ask for no log-probabilities: without a sampling coordinator
  \<open>_validate_request_features\<close> refuses every other one, and what is left of it is the test of
  the stop strings.
\<close>

definition add_single :: "'w collaborators \<Rightarrow> int \<Rightarrow> Request \<Rightarrow> bool \<Rightarrow> ('w sched_state, nat) py" where
  "add_single C now q defer_remote =
     (let rid = rq_id q in
      andthen (ask (\<lambda>s w. validate_request (s_plan s) q)) (\<lambda>_.
      andthen (ask (\<lambda>s w. require (stop_strings (stop q) = [] \<or> text_stops s) ConfigError)) (\<lambda>_.
      andthen (ask check_request_capacity) (\<lambda>_.
      andthen (ask (\<lambda>s w. require (find (registry w) rid = None) ValueError)) (\<lambda>_.
      andthen (outside (seq_create C rid)) (\<lambda>h.
      andthen (own (\<lambda>s. s\<lparr>sequences := AList.update rid h (sequences s)\<rparr>)) (\<lambda>_.
      or_cleanup
        (andthen (managed (create q now)) (\<lambda>r.
         andthen (managed (advance_to_queue rid 0 defer_remote now)) (\<lambda>_.
         andthen (managed (at_ref r (bind_sequence h 0 0))) (\<lambda>_.
         andthen (enqueue_new now rid r h) (\<lambda>_.
         andthen (\<lambda>(s, w). send_report rid O_ADMITTED (sequence_epoch (machine (view w r))) None [] (s, w)) (\<lambda>_.
         ret r))))))
        (rollback_children C [rid]))))))))"

end
