(* ===== verification/Sched_Continuous.thy ===== *)
theory Sched_Continuous
  imports Sched_Core
begin

text \<open>
  The continuous-batching scheduler, \<open>sched/continuous.py\<close>: construction of a candidate step
  (decode rows in ring order, prefill chunks in the waiting order, speculative drafts from
  what is left of the budget), the loop that shrinks the step or preempts until the runtime
  accepts it, and the bookkeeping when a step is adopted and when it completes.  Metrics
  recorders and the feedback to the proposer are left out.
\<close>

section \<open>Building plans\<close>

definition mk_slice :: "ScheduledSlice \<Rightarrow> pyerror + ScheduledSlice" where
  "mk_slice s = ebind (slice_validate s) (\<lambda>_. Inr s)"

definition SCHEDULABLE_STATES :: "RequestState list" where
  "SCHEDULABLE_STATES = [ADMITTED, PREFILL, DECODING, STREAMING]"

text \<open>The loop of \<open>_make_plan\<close>: draft extensions, sampling rows, attributed rows and their total.\<close>

fun plan_rows ::
  "(string \<times> SpeculativeSlicePlan) list \<Rightarrow> int \<Rightarrow> int \<Rightarrow> ScheduledSlice list \<Rightarrow>
   pyerror + SpeculativeSlicePlan list \<times> int list \<times> (string \<times> int) list \<times> int" where
  "plan_rows drafts i acc [] = Inr ([], [], [], acc)"
| "plan_rows drafts i acc (s # ss) =
     ebind (case map_of drafts (sl_request_id s) of
              None \<Rightarrow> Inr ([], query_count s)
            | Some q \<Rightarrow> ebind (with_slice_index i q) (\<lambda>q'. Inr ([q'], query_count s + effective_k q))) (\<lambda>(ext, rows).
     ebind (plan_rows drafts (i + 1) (acc + rows) ss) (\<lambda>(exts, sampled, attribution, n).
     Inr (ext @ exts, (if sample_last_query s then [acc + query_count s - 1] else []) @ sampled,
          (sl_request_id s, rows) # attribution, n)))"

definition kv_needs :: "int \<Rightarrow> int \<Rightarrow> (string \<times> int) list \<Rightarrow> pyerror + KVRequirement list" where
  "kv_needs groups tokens attribution =
     traverse (\<lambda>g. let k = \<lparr>group_id = g, append_tokens = tokens, cow_pages = 0, restore_bytes = 0, growth_bytes = 0,
                            request_tokens = attribution\<rparr>
                   in ebind (kv_requirement_validate k) (\<lambda>_. Inr k)) (map int [0..<nat groups])"

definition build_plan ::
  "ResolvedSchedulerPlan \<Rightarrow> int \<Rightarrow> int \<Rightarrow> ScheduledSlice list \<Rightarrow> RequestStepInput list \<Rightarrow>
   (string \<times> SpeculativeSlicePlan) list \<Rightarrow> pyerror + BatchStepPlan" where
  "build_plan p now step ss vs drafts =
     ebind (plan_rows drafts 0 0 ss) (\<lambda>(exts, sampled, attribution, tokens).
     ebind (physical_token_slots (capabilities p) tokens) (\<lambda>padded.
     ebind (sampling_validate \<lparr>num_rows = int (length sampled), num_mask_rows = 0, custom_ops = [], custom_ops_graph_safe = []\<rparr>) (\<lambda>_.
     ebind (kv_needs (attention_groups p) tokens attribution) (\<lambda>needs.
     let plan = \<lparr>step_id = step, execution_plan_id = resolved_plan_id p, slices = ss, inputs = vs, padded_num_tokens = padded,
                 sampling_rows = sampled,
                 sampling = \<lparr>num_rows = int (length sampled), num_mask_rows = 0, custom_ops = [], custom_ops_graph_safe = []\<rparr>,
                 prompt_logprobs = [], kv_requirements = needs, dependencies = [], distributed = None, graph_mode = EAGER,
                 created_ns = now, speculative = exts\<rparr>
     in ebind (plan_validate plan) (\<lambda>_. Inr plan)))))"

text \<open>\<open>_make_plan\<close> without a step id takes the next one.\<close>

definition make_plan ::
  "int \<Rightarrow> (ScheduledSlice \<times> RequestStepInput) list \<Rightarrow> (string \<times> SpeculativeSlicePlan) list \<Rightarrow>
   ('w sched_state, BatchStepPlan option) py" where
  "make_plan now rows drafts =
     (if rows = [] then ret None
      else andthen (own (\<lambda>s. s\<lparr>sched_step_id := sched_step_id s + 1\<rparr>)) (\<lambda>_.
        andthen (ask (\<lambda>s w. build_plan (s_plan s) now (sched_step_id s) (map fst rows) (map snd rows) drafts)) (\<lambda>p.
        ret (Some p))))"

section \<open>Decode rows\<close>

fun decode_loop ::
  "store \<Rightarrow> string set \<Rightarrow> (string \<times> nat) list \<Rightarrow> string list \<Rightarrow> BatchBudget \<Rightarrow>
   pyerror + BatchBudget \<times> (ScheduledSlice \<times> RequestStepInput) list" where
  "decode_loop v taken run [] b = Inr (b, [])"
| "decode_loop v taken run (rid # ids) b =
     (case map_of run rid of
        None \<Rightarrow> Inl KeyError
      | Some r \<Rightarrow>
          if is_terminal (machine (v r)) \<or> tok_cancelled (token (v r)) then decode_loop v taken run ids b
          else if rq_id (request (v r)) \<in> taken then decode_loop v taken run ids b
          else (case try_consume 1 PhaseDecode True b of
             (Inl e, _) \<Rightarrow> Inl e
           | (Inr ok, b1) \<Rightarrow>
               if \<not> ok then Inr (b1, [])
               else ebind (lc_snapshot (v r)) (\<lambda>i.
                 ebind (mk_slice \<lparr>sl_request_id = rq_id (request (v r)), sl_epoch = in_epoch i, expected_state_version = in_version i,
                          query_start = in_computed i, query_count = 1, phase = PhaseDecode,
                          sample_last_query = (in_computed i + 1 = int (length (in_known i)))\<rparr>) (\<lambda>sl.
                 ebind (decode_loop v taken run ids b1) (\<lambda>(b2, rest). Inr (b2, (sl, i) # rest))))))"

definition append_decodes :: "Scheduler \<Rightarrow> 'w world \<Rightarrow> BatchBudget \<Rightarrow> pyerror + BatchBudget \<times> (ScheduledSlice \<times> RequestStepInput) list" where
  "append_decodes s w b =
     (if running_ids s = [] then Inr (b, [])
      else decode_loop (view w) (inflight_ids_all s) (running s)
             (rotate (decode_cursor s mod length (running_ids s)) (running_ids s)) b)"

section \<open>Prefill rows\<close>

definition mark_bypass :: "QueueEntry \<Rightarrow> Scheduler \<Rightarrow> Scheduler" where
  "mark_bypass e s =
     s\<lparr>hot := map (\<lambda>x. if entry_id x = entry_id e then x\<lparr>bypass_count := bypass_count x + 1\<rparr> else x) (hot s),
       bypasses := bypasses s + 1\<rparr>"

datatype prefill_choice =
    PC_Skip
  | PC_Bypass
  | PC_Reject
  | PC_Take ScheduledSlice RequestStepInput BatchBudget bool

text \<open>
  The decision about one entry, once its request is prepared.  The first chunk of a request
  keeps the resolved cap; a reduced cap applies to its continuations.
\<close>

definition choose_prefill ::
  "'w collaborators \<Rightarrow> Scheduler \<Rightarrow> 'w world \<Rightarrow> string set \<Rightarrow> BatchBudget \<Rightarrow> QueueEntry \<Rightarrow> pyerror + prefill_choice" where
  "choose_prefill C s w part b e =
     ebind (lc_snapshot (view w (entry_ref e))) (\<lambda>i.
     let remaining = in_prompt i - in_computed i in
     if remaining \<le> 0 then Inr PC_Skip
     else
       let requested = (case effective_prefill_chunk_size s of
              None \<Rightarrow> remaining
            | Some cap \<Rightarrow> min remaining (if in_computed i = 0 \<and> prefill_chunk_size s \<noteq> None then the (prefill_chunk_size s) else cap))
       in ebind (largest_fittable requested True b) (\<lambda>chunk.
       if chunk \<le> 0 then Inr PC_Bypass
       else if (case can_admit C of None \<Rightarrow> False | Some f \<Rightarrow> \<not> f (entry_ref e) remaining chunk w) then Inr PC_Reject
       else
         let end_pos = in_computed i + chunk; is_last = (end_pos = in_prompt i) in
         if \<not> is_last \<and> entry_rid e \<notin> part \<and> int (card part) \<ge> max_num_partial_prefills (s_plan s) then Inr PC_Bypass
         else (case try_consume chunk PhasePrefill True b of
            (Inl x, _) \<Rightarrow> Inl x
          | (Inr ok, b1) \<Rightarrow>
              if \<not> ok then Inr PC_Bypass
              else ebind (mk_slice \<lparr>sl_request_id = entry_rid e, sl_epoch = in_epoch i, expected_state_version = in_version i,
                       query_start = in_computed i, query_count = chunk, phase = PhasePrefill,
                       sample_last_query = (is_last \<and> end_pos = int (length (in_known i)))\<rparr>) (\<lambda>sl.
                Inr (PC_Take sl i b1 is_last)))))"

definition call_preparer :: "'w collaborators \<Rightarrow> nat \<Rightarrow> ('w sched_state, bool) py" where
  "call_preparer C r = (case prepare_request C of None \<Rightarrow> ret True | Some f \<Rightarrow> outside (f r))"

fun prefill_loop ::
  "'w collaborators \<Rightarrow> string set \<Rightarrow> QueueEntry list \<Rightarrow> BatchBudget \<Rightarrow>
   ('w sched_state, BatchBudget \<times> (ScheduledSlice \<times> RequestStepInput) list) py" where
  "prefill_loop C part [] b = ret (b, [])"
| "prefill_loop C part (e # es) b =
     (if remaining_sequences b \<le> 0 then ret (b, [])
      else andthen (ask (\<lambda>_ _. largest_fittable 1 True b)) (\<lambda>k.
        if k = 0 then ret (b, [])
        else andthen (call_preparer C (entry_ref e)) (\<lambda>ready.
          if \<not> ready then prefill_loop C part es b
          else andthen (ask (\<lambda>s w. choose_prefill C s w part b e)) (\<lambda>c.
            case c of
              PC_Skip \<Rightarrow> prefill_loop C part es b
            | PC_Bypass \<Rightarrow> andthen (own (mark_bypass e)) (\<lambda>_. prefill_loop C part es b)
            | PC_Reject \<Rightarrow>
                andthen (own (\<lambda>s. mark_bypass e (s\<lparr>admission_rejections := admission_rejections s + 1\<rparr>))) (\<lambda>_.
                prefill_loop C part es b)
            | PC_Take sl i b1 is_last \<Rightarrow>
                andthen (prefill_loop C (if is_last then part else insert (entry_rid e) part) es b1) (\<lambda>(b2, rest).
                ret (b2, (sl, i) # rest))))))"

definition eligible :: "'w collaborators \<Rightarrow> int \<Rightarrow> Scheduler \<Rightarrow> 'w world \<Rightarrow> QueueEntry \<Rightarrow> bool" where
  "eligible C now s w e \<longleftrightarrow>
     (let lc = view w (entry_ref e) in
      (mstate (machine lc) \<in> set SCHEDULABLE_STATES \<or> prepare_request C \<noteq> None \<and> mstate (machine lc) = PREEMPTED) \<and>
      \<not> tok_cancelled (token lc) \<and> entry_rid e \<notin> inflight_ids_all s \<and> ready_ns e \<le> now)"

definition append_prefills ::
  "'w collaborators \<Rightarrow> int \<Rightarrow> BatchBudget \<Rightarrow> ('w sched_state, BatchBudget \<times> (ScheduledSlice \<times> RequestStepInput) list) py" where
  "append_prefills C now b = (\<lambda>(s, w).
     if remaining_sequences b \<le> 0 \<or> hot s = [] then ret (b, []) (s, w)
     else
       let upd = (\<lambda>e. if eligible C now s w e \<and> hints_enabled C s then refresh_hint C w e else e);
           s1 = s\<lparr>hot := map upd (hot s)\<rparr> in
       andthen (ask (\<lambda>s2 w2. order_waiting (view w2) (service_round s2) now (bypass_limit s2) (policy_name (scheduling_policy (s_plan s2)))
                  (map upd (filter (eligible C now s w) (hot s))))) (\<lambda>ranked.
       prefill_loop C (set (map fst (prefilling s))) (sort_key (\<lambda>e. entry_rid e \<notin> set (map fst (prefilling s))) ranked) b) (s1, w))"

section \<open>Speculative drafts\<close>

fun draft_candidates ::
  "LifecycleManager \<Rightarrow> store \<Rightarrow> int \<Rightarrow> (ScheduledSlice \<times> RequestStepInput) list \<Rightarrow>
   pyerror + (int \<times> ScheduledSlice \<times> RequestStepInput \<times> Request) list" where
  "draft_candidates m v i [] = Inr []"
| "draft_candidates m v i ((sl, x) # rows) =
     (if phase sl \<noteq> PhaseDecode then draft_candidates m v (i + 1) rows
      else ebind (lc_get m (sl_request_id sl)) (\<lambda>r.
        ebind (draft_candidates m v (i + 1) rows) (\<lambda>cs. Inr ((i, sl, x, request (v r)) # cs))))"

fun fit_drafts ::
  "SpeculativeSlicePlan list \<Rightarrow> BatchBudget \<Rightarrow> (string \<times> SpeculativeSlicePlan) list \<Rightarrow>
   pyerror + BatchBudget \<times> (string \<times> SpeculativeSlicePlan) list" where
  "fit_drafts [] b drafts = Inr (b, drafts)"
| "fit_drafts (q # qs) b drafts =
     ebind (largest_fittable (effective_k q) False b) (\<lambda>fit.
     if fit \<le> 0 then fit_drafts qs b drafts
     else ebind (if fit < effective_k q then truncated fit q else Inr q) (\<lambda>q1.
       (case try_consume (effective_k q1) PhaseDecode False b of
          (Inl e, _) \<Rightarrow> Inl e
        | (Inr ok, b1) \<Rightarrow>
            if \<not> ok then fit_drafts qs b1 drafts
            else fit_drafts qs b1 (AList.update (sp_request_id q1) q1 drafts))))"

definition append_speculation ::
  "'w collaborators \<Rightarrow> BatchBudget \<Rightarrow> (ScheduledSlice \<times> RequestStepInput) list \<Rightarrow>
   ('w sched_state, BatchBudget \<times> (string \<times> SpeculativeSlicePlan) list) py" where
  "append_speculation C b rows =
     (case propose C of
        None \<Rightarrow> ret (b, [])
      | Some f \<Rightarrow>
          andthen (ask (\<lambda>s w. draft_candidates (registry w) (view w) 0 rows)) (\<lambda>cs.
          if cs = [] then ret (b, [])
          else andthen (\<lambda>(s, w). outside (f cs (sched_round s)) (s, w)) (\<lambda>qs.
            ask (\<lambda>_ _. fit_drafts qs b []))))"

section \<open>Candidate steps\<close>

definition build_decodes_first :: "'w collaborators \<Rightarrow> int \<Rightarrow> ('w sched_state, BatchStepPlan option) py" where
  "build_decodes_first C now =
     andthen (ask (\<lambda>s w. append_decodes s w (budget_from_plan (s_plan s)))) (\<lambda>(b, decodes).
     andthen (append_speculation C b decodes) (\<lambda>(b1, drafts).
     andthen (append_prefills C now b1) (\<lambda>(b2, prefills).
     make_plan now (decodes @ prefills) drafts)))"

definition build_prefills_first :: "'w collaborators \<Rightarrow> int \<Rightarrow> ('w sched_state, BatchStepPlan option) py" where
  "build_prefills_first C now =
     andthen (ask (\<lambda>s w. Inr (budget_from_plan (s_plan s)))) (\<lambda>b0.
     andthen (append_prefills C now b0) (\<lambda>(b, prefills).
     andthen (ask (\<lambda>s w. append_decodes s w b)) (\<lambda>(b1, decodes).
     andthen (append_speculation C b1 (prefills @ decodes)) (\<lambda>(b2, drafts).
     make_plan now (prefills @ decodes) drafts))))"

definition build_continuous_batch :: "'w collaborators \<Rightarrow> int \<Rightarrow> ('w sched_state, BatchStepPlan option) py" where
  "build_continuous_batch C now = (\<lambda>(s, w).
     if decode_first s then build_decodes_first C now (s, w) else build_prefills_first C now (s, w))"

definition build_decode_only :: "'w collaborators \<Rightarrow> int \<Rightarrow> ('w sched_state, BatchStepPlan option) py" where
  "build_decode_only C now =
     andthen (ask (\<lambda>s w. append_decodes s w (budget_from_plan (s_plan s)))) (\<lambda>(b, decodes).
     andthen (append_speculation C b decodes) (\<lambda>(b1, drafts).
     make_plan now decodes drafts))"

definition build_prefill_only :: "'w collaborators \<Rightarrow> int \<Rightarrow> ('w sched_state, BatchStepPlan option) py" where
  "build_prefill_only C now =
     andthen (ask (\<lambda>s w. Inr (budget_from_plan (s_plan s)))) (\<lambda>b0.
     andthen (append_prefills C now b0) (\<lambda>(b, prefills).
     make_plan now prefills []))"

text \<open>The builders that \<open>_candidate_plans\<close> tries one after the other.\<close>

definition builders :: "'w collaborators \<Rightarrow> int \<Rightarrow> Scheduler \<Rightarrow> ('w sched_state, BatchStepPlan option) py list" where
  "builders C now s =
     (if allow_mixed_batches s then [build_continuous_batch C now]
      else if decode_first s \<and> (case max_decode_burst s of None \<Rightarrow> True | Some n \<Rightarrow> decode_burst s < n)
        then [build_decode_only C now, build_prefill_only C now]
      else [build_prefill_only C now, build_decode_only C now])"

section \<open>Shrinking and preemption\<close>

definition rebuild :: "ResolvedSchedulerPlan \<Rightarrow> int \<Rightarrow> BatchStepPlan \<Rightarrow> ScheduledSlice list \<Rightarrow> RequestStepInput list \<Rightarrow> pyerror + BatchStepPlan option" where
  "rebuild p now plan ss vs = ebind (build_plan p now (step_id plan) ss vs []) (\<lambda>q. Inr (Some q))"

text \<open>
  The row that \<open>_shrink_transient\<close> gives up first: the widest prefill, at equal width one that
  has computed nothing yet, then the later one.
\<close>

definition shrink_priority :: "BatchStepPlan \<Rightarrow> nat \<Rightarrow> int \<times> bool \<times> nat" where
  "shrink_priority plan i = (query_count (slices plan ! i), in_computed (inputs plan ! i) = 0, i)"

fun pick_prefill :: "BatchStepPlan \<Rightarrow> nat option \<Rightarrow> nat list \<Rightarrow> nat option" where
  "pick_prefill plan best [] = best"
| "pick_prefill plan best (i # is) =
     (if phase (slices plan ! i) \<noteq> PhasePrefill then pick_prefill plan best is
      else pick_prefill plan
        (case best of None \<Rightarrow> Some i | Some j \<Rightarrow> if shrink_priority plan i > shrink_priority plan j then Some i else Some j) is)"

definition shrink_transient :: "ResolvedSchedulerPlan \<Rightarrow> int \<Rightarrow> BatchStepPlan \<Rightarrow> pyerror + BatchStepPlan option" where
  "shrink_transient p now plan =
     (let ss = slices plan; vs = inputs plan in
      if speculative plan \<noteq> [] then rebuild p now plan ss vs
      else case pick_prefill plan None [0..<length ss] of
        Some i \<Rightarrow>
          let sl = ss ! i in
          if query_count sl > 1 then
            let n = max 1 (query_count sl div 2); end_pos = query_start sl + n; v = vs ! i in
            ebind (mk_slice \<lparr>sl_request_id = sl_request_id sl, sl_epoch = sl_epoch sl,
                     expected_state_version = expected_state_version sl, query_start = query_start sl, query_count = n,
                     phase = PhasePrefill,
                     sample_last_query = (end_pos = in_prompt v \<and> end_pos = int (length (in_known v)))\<rparr>) (\<lambda>sl'.
            rebuild p now plan (ss[i := sl']) vs)
          else if length ss = 1 then Inr None
          else rebuild p now plan (take i ss @ drop (Suc i) ss) (take i vs @ drop (Suc i) vs)
      | None \<Rightarrow> if length ss > 1 then rebuild p now plan (butlast ss) (butlast vs) else Inr None)"

definition without_request :: "ResolvedSchedulerPlan \<Rightarrow> int \<Rightarrow> BatchStepPlan \<Rightarrow> string \<Rightarrow> pyerror + BatchStepPlan option" where
  "without_request p now plan rid =
     (let pairs = filter (\<lambda>(sl, _). sl_request_id sl \<noteq> rid) (zip (slices plan) (inputs plan)) in
      if pairs = [] then Inr None
      else ebind (build_plan p now (step_id plan) (map fst pairs) (map snd pairs)
                    (map (\<lambda>q. (sp_request_id q, q)) (speculative plan))) (\<lambda>q. Inr (Some q)))"

text \<open>
  The victims of \<open>_try_preempt_one\<close> in dictionary order: running, prefilling, and waiting
  requests that already own computed tokens.
\<close>

definition preemption_candidates :: "store \<Rightarrow> Scheduler \<Rightarrow> (string \<times> nat) list" where
  "preemption_candidates v s =
     foldl (\<lambda>c e.
        if num_computed_tokens (machine (v (entry_ref e))) > 0 \<and> can (machine (v (entry_ref e))) PREEMPTED \<and>
           map_of (pending s) (entry_rid e) = None
        then AList.update (entry_rid e) (entry_ref e) c else c)
      (foldl (\<lambda>c (rid, r). AList.update rid r c) (running s) (prefilling s)) (hot s)"


fun mode_value :: "PreemptionMode \<Rightarrow> string" where
  "mode_value PREEMPT_NONE = ''none''"
| "mode_value RECOMPUTE = ''recompute''"
| "mode_value SWAP = ''swap''"

text \<open>What follows a successful call of the preemption controller.\<close>

definition take_victim :: "PreemptionMode \<Rightarrow> RequestLifecycle \<Rightarrow> Scheduler \<Rightarrow> Scheduler" where
  "take_victim mode lc s =
     (let rid = rq_id (request lc);
          s1 = (if mode = RECOMPUTE then
              s\<lparr>recompute_until := AList.update rid (num_computed_tokens (machine lc)) (recompute_until s),
                wasted_compute_tokens := wasted_compute_tokens s
                  + max 0 (num_computed_tokens (machine lc) - num_cached_tokens (machine lc))\<rparr>
            else s);
          s2 = running_remove rid s1
      in s2\<lparr>prefilling := AList.delete rid (prefilling s2)\<rparr>)"

definition preempted :: "'w collaborators \<Rightarrow> int \<Rightarrow> nat \<Rightarrow> ('w sched_state, string option) py" where
  "preempted C now r = (\<lambda>(s, w).
     let lc = view w r; rid = rq_id (request lc); mode = preemption_mode (s_plan s) in
     andthen (own (take_victim mode lc)) (\<lambda>_.
     andthen (send_report rid (if mode = SWAP then O_PREEMPTED_SWAP else O_PREEMPTED_RECOMPUTE)
                (sequence_epoch (machine lc)) None []) (\<lambda>_.
     andthen (requeue C now r) (\<lambda>_.
     andthen (own (\<lambda>s. s\<lparr>preemptions := preemptions s + 1\<rparr>)) (\<lambda>_.
     ret (Some rid))))) (s, w))"

definition try_preempt_one :: "'w collaborators \<Rightarrow> int \<Rightarrow> string set \<Rightarrow> ('w sched_state, string option) py" where
  "try_preempt_one C now ids = (\<lambda>(s, w).
     case preempt C of
       None \<Rightarrow> ret None (s, w)
     | Some f \<Rightarrow>
         (case select_preemption_victim (view w) ids (map snd (preemption_candidates (view w) s)) of
            None \<Rightarrow> ret None (s, w)
          | Some r \<Rightarrow>
              (case map_of (sequences s) (rq_id (request (view w r))) of
                 None \<Rightarrow> ret None (s, w)
               | Some h \<Rightarrow>
                   andthen (outside (f r h (mode_value (preemption_mode (s_plan s))))) (\<lambda>ok.
                   if \<not> ok then ret None else preempted C now r) (s, w))))"

section \<open>The effective chunk cap\<close>

definition reduce_chunk_cap :: "BatchStepPlan \<Rightarrow> Scheduler \<Rightarrow> Scheduler" where
  "reduce_chunk_cap plan s =
     (case effective_prefill_chunk_size s of
        None \<Rightarrow> s
      | Some cap \<Rightarrow>
          if cap \<le> 1 \<or> num_prefill_tokens plan = 0 then s
          else s\<lparr>effective_prefill_chunk_size := Some (max 1 (cap div 2)), successful_prepares := 0,
                 chunk_adjustment_reason := Some ''physical_prepare_refusal''\<rparr>)"

definition recover_chunk_cap :: "Scheduler \<Rightarrow> Scheduler" where
  "recover_chunk_cap s =
     (case (effective_prefill_chunk_size s, prefill_chunk_size s) of
        (Some cap, Some ceiling) \<Rightarrow>
          if cap \<ge> ceiling then s
          else
            let s1 = s\<lparr>successful_prepares := successful_prepares s + 1\<rparr> in
            if successful_prepares s1 \<ge> 4 then
              s1\<lparr>effective_prefill_chunk_size := Some (min ceiling (cap * 2)), successful_prepares := 0,
                 chunk_adjustment_reason := Some ''successful_prepare_recovery''\<rparr>
            else s1
      | _ \<Rightarrow> s)"

text \<open>A provider that raises counts as one that gives no hint.\<close>

definition apply_capacity_hint :: "'w collaborators \<Rightarrow> 'w world \<Rightarrow> Scheduler \<Rightarrow> Scheduler" where
  "apply_capacity_hint C w s =
     (case (capacity_hint C, prefill_chunk_size s) of
        (Some f, Some ceiling) \<Rightarrow>
          (case f w of
             None \<Rightarrow> s
           | Some hint \<Rightarrow>
               let bounded = max 1 (min hint ceiling) in
               if (case effective_prefill_chunk_size s of None \<Rightarrow> True | Some cur \<Rightarrow> bounded < cur) then
                 s\<lparr>effective_prefill_chunk_size := Some bounded, successful_prepares := 0,
                   chunk_adjustment_reason := Some ''pressure_snapshot''\<rparr>
               else s)
      | _ \<Rightarrow> s)"

section \<open>Preparing and adopting a step\<close>

text \<open>
  The handler of a refused preparation: the plan to try next, or None to give up.  A step that
  cannot shrink any further takes a victim and is tried again.
\<close>

definition make_room :: "'w collaborators \<Rightarrow> int \<Rightarrow> BatchStepPlan \<Rightarrow> ('w sched_state, BatchStepPlan option) py" where
  "make_room C now cur =
     andthen (\<lambda>(s, w). try_preempt_one C now (set (request_order cur) \<union> inflight_ids_all s) (s, w)) (\<lambda>victim.
     case victim of
       Some v \<Rightarrow>
         andthen (ask (\<lambda>s w. without_request (s_plan s) now cur v)) (\<lambda>q.
         ret (Some (case q of None \<Rightarrow> cur | Some q' \<Rightarrow> q')))
     | None \<Rightarrow> andthen (own (\<lambda>s. s\<lparr>resource_blocked := True\<rparr>)) (\<lambda>_. ret None))"

definition after_pressure :: "'w collaborators \<Rightarrow> int \<Rightarrow> BatchStepPlan \<Rightarrow> ('w sched_state, BatchStepPlan option) py" where
  "after_pressure C now cur =
     andthen (own (\<lambda>s. reduce_chunk_cap cur (s\<lparr>transient_prepare_failures := transient_prepare_failures s + 1\<rparr>))) (\<lambda>_.
     andthen (ask (\<lambda>s w. shrink_transient (s_plan s) now cur)) (\<lambda>smaller.
     case smaller of Some p \<Rightarrow> ret (Some p) | None \<Rightarrow> make_room C now cur))"

definition after_refusal :: "'w collaborators \<Rightarrow> int \<Rightarrow> BatchStepPlan \<Rightarrow> prepare_error \<Rightarrow> ('w sched_state, BatchStepPlan option) py" where
  "after_refusal C now cur err =
     (case err of
        Other_Error e \<Rightarrow> raise e
      | Step_Prepare_Error tr rid msg \<Rightarrow>
          if tr then after_pressure C now cur
          else case rid of
            None \<Rightarrow> raise RuntimeError
          | Some r \<Rightarrow>
              if r \<notin> set (request_order cur) then raise ValueError
              else andthen (fail_request r msg) (\<lambda>h.
                andthen (free_sequence C h) (\<lambda>_.
                ask (\<lambda>s w. without_request (s_plan s) now cur r))))"

text \<open>
  The loop of \<open>_prepare_and_adopt\<close>: the plan that was prepared, or None.  Nothing in the code
  bounds it, so that not returning is a possible value.
\<close>

partial_function (option) prepare_loop ::
  "'w collaborators \<Rightarrow> int \<Rightarrow> BatchStepPlan \<Rightarrow> 'w sched_state \<Rightarrow> ((pyerror + BatchStepPlan option) \<times> 'w sched_state) option" where
  "prepare_loop C now cur st =
     (case rt_prepare C cur (snd st) of
        (Inr _, w1) \<Rightarrow> Some (Inr (Some cur), (fst st, w1))
      | (Inl err, w1) \<Rightarrow>
          (case after_refusal C now cur err (fst st, w1) of
             (Inl e, st1) \<Rightarrow> Some (Inl e, st1)
           | (Inr None, st1) \<Rightarrow> Some (Inr None, st1)
           | (Inr (Some nxt), st1) \<Rightarrow> prepare_loop C now nxt st1))"

declare prepare_loop.simps [code]

text \<open>Round-robin service is charged to the last decode row of the step.\<close>

definition advance_decode_cursor :: "ScheduledSlice list \<Rightarrow> Scheduler \<Rightarrow> Scheduler" where
  "advance_decode_cursor ss s =
     (if running_ids s = [] then s
      else case List.find (\<lambda>sl. phase sl = PhaseDecode) (rev ss) of
        None \<Rightarrow> s
      | Some sl \<Rightarrow> (case map_of (running_index s) (sl_request_id sl) of
            None \<Rightarrow> s
          | Some i \<Rightarrow> s\<lparr>decode_cursor := (i + 1) mod length (running_ids s)\<rparr>))"

definition inflight_slice :: "ScheduledSlice \<times> RequestStepInput \<Rightarrow> InflightSlice" where
  "inflight_slice row =
     \<lparr>inf_request_id = sl_request_id (fst row), inf_phase = phase (fst row), inf_query_start = query_start (fst row),
      inf_query_end = query_end (fst row), inf_prompt_tokens = in_prompt (snd row)\<rparr>"

text \<open>Queue ownership moves once the runtime has adopted the step.\<close>

definition take_prefill :: "ScheduledSlice \<Rightarrow> ('w sched_state, unit) py" where
  "take_prefill sl =
     (if phase sl \<noteq> PhasePrefill then ret ()
      else andthen (own (waiting_remove (sl_request_id sl))) (\<lambda>_.
        andthen (ask (\<lambda>s w. lc_get (registry w) (sl_request_id sl))) (\<lambda>r.
        own (\<lambda>s. s\<lparr>prefilling := AList.update (sl_request_id sl) r (prefilling s)\<rparr>))))"

definition adopt_step :: "'w collaborators \<Rightarrow> BatchStepPlan \<Rightarrow> ('w sched_state, int) py" where
  "adopt_step C cur =
     andthen (outside (rt_adopt C cur)) (\<lambda>ticket.
     andthen (\<lambda>(s, w). case set_inflight ticket (set (request_order cur)) s of (r, s1) \<Rightarrow> (r, (s1, w))) (\<lambda>_.
     andthen (own (\<lambda>s.
       let s1 = recover_chunk_cap (advance_decode_cursor (slices cur) (s\<lparr>service_round := service_round s + 1\<rparr>)) in
       s1\<lparr>last_step := Some cur,
          inflight_slices := AList.update ticket (map inflight_slice (zip (slices cur) (inputs cur))) (inflight_slices s1),
          resource_blocked := False\<rparr>)) (\<lambda>_.
     andthen (for_each take_prefill (slices cur)) (\<lambda>_.
     ret ticket))))"

fun try_candidates ::
  "'w collaborators \<Rightarrow> int \<Rightarrow> ('w sched_state, BatchStepPlan option) py list \<Rightarrow> 'w sched_state \<Rightarrow>
   ((pyerror + int option) \<times> 'w sched_state) option" where
  "try_candidates C now [] st = Some (Inr None, st)"
| "try_candidates C now (build # bs) st =
     (case build st of
        (Inl e, st1) \<Rightarrow> Some (Inl e, st1)
      | (Inr None, st1) \<Rightarrow> try_candidates C now bs st1
      | (Inr (Some plan), st1) \<Rightarrow>
          (case prepare_loop C now plan st1 of
             None \<Rightarrow> None
           | Some (Inl e, st2) \<Rightarrow> Some (Inl e, st2)
           | Some (Inr None, st2) \<Rightarrow> try_candidates C now bs st2
           | Some (Inr (Some cur), st2) \<Rightarrow>
               Some (andthen (adopt_step C cur) (\<lambda>ticket.
                     andthen (own (\<lambda>s. s\<lparr>decode_burst := (if is_pure_decode plan then decode_burst s + 1 else 0)\<rparr>)) (\<lambda>_.
                     ret (Some ticket))) st2)))"

definition schedule :: "'w collaborators \<Rightarrow> int \<Rightarrow> 'w sched_state \<Rightarrow> ((pyerror + int option) \<times> 'w sched_state) option" where
  "schedule C now = (\<lambda>(s, w).
     if int (length (inflight_requests s)) \<ge> max_inflight (s_plan s) then Some (Inr None, (s, w))
     else
       let s1 = drain_window C w (apply_capacity_hint C w (s\<lparr>sched_round := sched_round s + 1\<rparr>))
       in try_candidates C now (builders C now s1) (s1, w))"


section \<open>Completion\<close>

datatype TerminalStatus = SUCCEEDED | TICKET_FAILED | TICKET_CANCELLED

text \<open>The fields of \<open>CompletionResult\<close> that the scheduler reads.\<close>

record CompletionResult =
  cr_ticket_id :: int
  cr_status :: TerminalStatus
  ignored_requests :: "string list"

definition settle_recompute :: "InflightSlice \<Rightarrow> Scheduler \<Rightarrow> Scheduler" where
  "settle_recompute x s =
     (case map_of (recompute_until s) (inf_request_id x) of
        None \<Rightarrow> s
      | Some bound \<Rightarrow>
          if bound = 0 then s
          else
            let s1 = s\<lparr>recomputed_tokens := recomputed_tokens s + max 0 (min (inf_query_end x) bound - inf_query_start x)\<rparr> in
            if inf_query_end x \<ge> bound then s1\<lparr>recompute_until := AList.delete (inf_request_id x) (recompute_until s1)\<rparr> else s1)"

definition settle_slice :: "'w collaborators \<Rightarrow> int \<Rightarrow> InflightSlice \<Rightarrow> ('w sched_state, unit) py" where
  "settle_slice C now x =
     (let rid = inf_request_id x in
      andthen (ask (\<lambda>s w. Inr (find (registry w) rid))) (\<lambda>ref.
      andthen (own (\<lambda>s. s\<lparr>prefilling := AList.delete rid (prefilling s)\<rparr>)) (\<lambda>_.
      case ref of
        None \<Rightarrow> ret ()
      | Some r \<Rightarrow> (\<lambda>(s, w).
          if is_terminal (machine (view w r)) \<or> tok_cancelled (token (view w r)) then ret () (s, w)
          else
            andthen (own (settle_recompute x)) (\<lambda>_.
            if inf_phase x = PhasePrefill \<and> inf_query_end x < inf_prompt_tokens x then
              andthen (own (\<lambda>s. s\<lparr>prefilling := AList.update rid r (prefilling s)\<rparr>)) (\<lambda>_. requeue C now r)
            else own (running_add rid r)) (s, w)))))"

definition drop_settled :: "string \<Rightarrow> Scheduler \<Rightarrow> Scheduler" where
  "drop_settled rid s = (let s1 = drop_request rid s in s1\<lparr>sequences := AList.delete rid (sequences s1)\<rparr>)"

definition drop_unless_aborting :: "string \<Rightarrow> ('w sched_state, unit) py" where
  "drop_unless_aborting rid = own (\<lambda>s. if rid \<in> abort_pending s then s else drop_settled rid s)"

definition settle_ticket :: "'w collaborators \<Rightarrow> int \<Rightarrow> CompletionResult \<Rightarrow> ('w sched_state, unit) py" where
  "settle_ticket C now out = (\<lambda>(s, w).
     case clear_inflight (cr_ticket_id out) s of
       (None, _) \<Rightarrow> ret () (s, w)
     | (Some ids, s1) \<Rightarrow>
         let items = (case map_of (inflight_slices s1) (cr_ticket_id out) of None \<Rightarrow> [] | Some xs \<Rightarrow> xs);
             s2 = s1\<lparr>inflight_slices := AList.delete (cr_ticket_id out) (inflight_slices s1)\<rparr>
         in andthen (if cr_status out = SUCCEEDED then for_each (settle_slice C now) items
                     else for_each drop_unless_aborting (set_iter C ids)) (\<lambda>_.
            finalize_settled_aborts C (set_iter C ids)) (s2, w))"

definition update_from_output :: "'w collaborators \<Rightarrow> int \<Rightarrow> CompletionResult \<Rightarrow> ('w sched_state, unit) py" where
  "update_from_output C now out =
     andthen (settle_ticket C now out) (\<lambda>_.
     for_each (\<lambda>rid (s, w). if rid \<in> abort_pending s then finalize_abort C rid (s, w)
                            else (Inr (), (drop_settled rid s, w))) (ignored_requests out))"

section \<open>Statistics\<close>

record ContinuousSchedulerStats =
  st_round_id :: int
  st_service_round :: int
  st_waiting :: int
  st_prefilling :: int
  st_running :: int
  st_inflight :: int
  last_prefill_tokens :: int
  last_decode_tokens :: int
  last_mixed :: bool
  st_transient_prepare_failures :: int
  st_preemptions :: int
  st_bypasses :: int
  st_admission_rejections :: int
  effective_prefill_chunk_tokens :: "int option"
  st_chunk_adjustment_reason :: "string option"
  st_recomputed_tokens :: int
  st_wasted_compute_tokens :: int

definition stats :: "Scheduler \<Rightarrow> ContinuousSchedulerStats" where
  "stats s =
     \<lparr>st_round_id = sched_round s, st_service_round = service_round s, st_waiting = int (card (waiting_ids s)),
      st_prefilling = int (length (prefilling s)), st_running = int (length (running s)),
      st_inflight = int (length (inflight_requests s)),
      last_prefill_tokens = (case last_step s of None \<Rightarrow> 0 | Some p \<Rightarrow> num_prefill_tokens p),
      last_decode_tokens = (case last_step s of None \<Rightarrow> 0 | Some p \<Rightarrow> num_decode_tokens p),
      last_mixed = (case last_step s of None \<Rightarrow> False | Some p \<Rightarrow> is_mixed p),
      st_transient_prepare_failures = transient_prepare_failures s, st_preemptions = preemptions s, st_bypasses = bypasses s,
      st_admission_rejections = admission_rejections s, effective_prefill_chunk_tokens = effective_prefill_chunk_size s,
      st_chunk_adjustment_reason = chunk_adjustment_reason s, st_recomputed_tokens = recomputed_tokens s,
      st_wasted_compute_tokens = wasted_compute_tokens s\<rparr>"

end
