(* ===== verification/Sched_Ring.thy ===== *)
theory Sched_Ring
  imports Sched_Continuous
begin

text \<open>
  The decode ring: a dense array of the running ids with an index into it, from which a
  request is removed by moving the last one into its place.
\<close>

section \<open>Dictionaries\<close>

lemma set_delete_subset: "set (AList.delete k d) \<subseteq> set d"
  by (induction d) auto

lemma fst_delete: "fst ` set (AList.delete k d) = fst ` set d - {k}"
  by (induction d) auto

lemma set_update_subset: "set (AList.update k v d) \<subseteq> insert (k, v) (set d)"
  by (induction d) auto

lemma fst_update: "fst ` set (AList.update k v d) = insert k (fst ` set d)"
  by (induction d) auto

section \<open>The invariant\<close>

definition ring_ok :: "(string \<times> nat) list \<Rightarrow> (string \<times> nat) list \<Rightarrow> string list \<Rightarrow> bool" where
  "ring_ok run idx ids \<longleftrightarrow>
     distinct ids \<and> fst ` set run = set ids \<and> fst ` set idx = set ids \<and> (\<forall>i<length ids. map_of idx (ids ! i) = Some i)"

definition cursor_ok :: "string list \<Rightarrow> nat \<Rightarrow> bool" where
  "cursor_ok ids c \<longleftrightarrow> c < length ids \<or> ids = [] \<and> c = 0"

lemma ring_index:
  assumes "ring_ok run idx ids" "map_of idx rid = Some i"
  shows "i < length ids" "ids ! i = rid"
proof -
  have "rid \<in> fst ` set idx" using map_of_SomeD [OF assms(2)] by force
  then have "rid \<in> set ids" using assms(1) by (simp add: ring_ok_def)
  then obtain j where "j < length ids" "ids ! j = rid" by (auto simp: in_set_conv_nth)
  with assms show "i < length ids" "ids ! i = rid" by (auto simp: ring_ok_def)
qed

lemma ring_member:
  assumes "ring_ok run idx ids"
  shows "map_of idx rid = None \<longleftrightarrow> rid \<notin> set ids" "map_of run rid = None \<longleftrightarrow> rid \<notin> set ids"
  using assms by (simp_all add: ring_ok_def map_of_eq_None_iff)

text \<open>Swapping the last id into the place of the removed one.\<close>

lemma swap_last_nth:
  assumes "i < length ids"
  defines "l \<equiv> length ids - 1"
  defines "ids' \<equiv> butlast (if i \<noteq> l then ids[i := ids ! l] else ids)"
  shows "length ids' = l" "j < l \<Longrightarrow> ids' ! j = (if j = i then ids ! l else ids ! j)"
  using assms by (auto simp: nth_butlast)

lemma ring_remove_ids:
  assumes r: "ring_ok run idx ids" and i: "map_of idx rid = Some i"
  defines "l \<equiv> length ids - 1"
  defines "ids' \<equiv> butlast (if i \<noteq> l then ids[i := ids ! l] else ids)"
  shows "set ids' = set ids - {rid}" "distinct ids'"
proof -
  note I = ring_index [OF r i]
  have d: "distinct ids" using r by (simp add: ring_ok_def)
  note N = swap_last_nth [OF I(1), folded l_def, folded ids'_def]
  have l: "l < length ids" "length ids = Suc l" using I(1) by (auto simp: l_def)
  have eq: "ids ! j = ids ! k \<longleftrightarrow> j = k" if "j \<le> l" "k \<le> l" for j k using d l that by (simp add: nth_eq_iff_index_eq)
  show "distinct ids'" unfolding distinct_conv_nth N(1) using N(2) eq by auto
  show "set ids' = set ids - {rid}"
  proof (intro equalityI subsetI)
    fix x assume "x \<in> set ids'"
    then obtain j where j: "j < l" "x = (if j = i then ids ! l else ids ! j)" using N by (auto simp: in_set_conv_nth)
    with I l eq show "x \<in> set ids - {rid}" by (auto split: if_splits)
  next
    fix x assume "x \<in> set ids - {rid}"
    then obtain j where j: "j < length ids" "ids ! j = x" "j \<noteq> i" using I by (auto simp: in_set_conv_nth)
    show "x \<in> set ids'"
    proof (cases "j = l")
      case True
      with j I(1) l have "i < l" by simp
      with N(2) [of i] True j have "ids' ! i = x" by simp
      with nth_mem [of i ids'] N(1) \<open>i < l\<close> show ?thesis by simp
    next
      case False
      with j l have "j < l" by simp
      with N(2) [of j] j have "ids' ! j = x" by simp
      with nth_mem [of j ids'] N(1) \<open>j < l\<close> show ?thesis by simp
    qed
  qed
qed

lemma ring_remove_shape: "\<exists>a b c. ring_remove rid s = s\<lparr>running := a, running_index := b, running_ids := c\<rparr>"
proof (cases "map_of (running s) rid")
  case None
  then have "ring_remove rid s = s" by (simp add: ring_remove_def)
  moreover have "s = s\<lparr>running := running s, running_index := running_index s, running_ids := running_ids s\<rparr>" by simp
  ultimately show ?thesis by metis
next
  case r: (Some x)
  show ?thesis
  proof (cases "map_of (running_index s) rid")
    case None
    with r have "ring_remove rid s = s" by (simp add: ring_remove_def)
    moreover have "s = s\<lparr>running := running s, running_index := running_index s, running_ids := running_ids s\<rparr>" by simp
    ultimately show ?thesis by metis
  next
    case (Some i)
    show ?thesis unfolding ring_remove_def Let_def r Some option.case prod.case by blast
  qed
qed

text \<open>What a removal leaves of the ring and its index.\<close>

lemma ring_remove_ring:
  fixes rid :: string
  assumes r: "ring_ok (running s) (running_index s) (running_ids s)"
  defines "t \<equiv> ring_remove rid s"
  shows "running t = AList.delete rid (running s)" "ring_ok (running t) (running_index t) (running_ids t)"
proof -
  have "running t = AList.delete rid (running s) \<and> ring_ok (running t) (running_index t) (running_ids t)"
  proof (cases "map_of (running s) rid")
    case None
    then have "t = s" by (simp add: ring_remove_def t_def)
    moreover have "AList.delete rid (running s) = running s" using None by (simp add: map_of_eq_None_iff delete_idem)
    ultimately show ?thesis using r by simp
  next
    case (Some x)
    then obtain i where i: "map_of (running_index s) rid = Some i"
      using ring_member [OF r, of rid] by (metis not_None_eq)
    let ?ids = "running_ids s" and ?index = "AList.delete rid (running_index s)" and ?l = "length (running_ids s) - 1"
    have t: "running t = AList.delete rid (running s)"
      "running_index t = (if i \<noteq> ?l then AList.update (?ids ! ?l) i ?index else ?index)"
      "running_ids t = butlast (if i \<noteq> ?l then ?ids[i := ?ids ! ?l] else ?ids)"
      using Some i by (simp_all add: ring_remove_def t_def Let_def)
    note I = ring_index [OF r i] and D = ring_remove_ids [OF r i, folded t(3)] and N = swap_last_nth [OF I(1), folded t(3)]
    have d: "distinct ?ids" and x: "\<And>j. j < length ?ids \<Longrightarrow> map_of (running_index s) (?ids ! j) = Some j"
      and k: "fst ` set (running s) = set ?ids" "fst ` set (running_index s) = set ?ids" using r by (simp_all add: ring_ok_def)
    have last: "?ids ! ?l \<in> set ?ids" using I(1) by (intro nth_mem) simp
    have "?ids ! ?l = ?ids ! i \<longleftrightarrow> ?l = i" using d I(1) by (intro nth_eq_iff_index_eq) auto
    then have "i \<noteq> ?l \<Longrightarrow> ?ids ! ?l \<noteq> rid" using I(2) by auto
    then have keys: "fst ` set (running_index t) = set ?ids - {rid}" unfolding t(2) using last k by (auto simp: fst_update fst_delete)
    have "map_of (running_index t) (running_ids t ! j) = Some j" if "j < length (running_ids t)" for j
    proof -
      have j: "j < ?l" using that N(1) by simp
      have "?ids ! j = rid \<longleftrightarrow> j = i" "?ids ! j = ?ids ! ?l \<longleftrightarrow> j = ?l" "?ids ! ?l = rid \<longleftrightarrow> ?l = i"
        using j I d by (auto simp: nth_eq_iff_index_eq)
      with j x [of j] x [of ?l] I(1) show ?thesis
        unfolding N(2) [OF j] t(2) by (auto simp: update_conv' delete_conv')
    qed
    with D keys k show ?thesis unfolding ring_ok_def t(1) by (simp add: fst_delete)
  qed
  then show "running t = AList.delete rid (running s)" "ring_ok (running t) (running_index t) (running_ids t)" by blast+
qed

text \<open>The cursor is set before and after the removal and is read by neither.\<close>

lemma running_remove_ring:
  "\<exists>c d. running_remove rid s = ring_remove rid (s\<lparr>decode_cursor := c\<rparr>)\<lparr>decode_cursor := d\<rparr>"
proof -
  define t where "t = (case map_of (running_index s) rid of
      Some i \<Rightarrow> if i \<noteq> length (running_ids s) - 1 \<and> decode_cursor s = length (running_ids s) - 1 then s\<lparr>decode_cursor := i\<rparr> else s
    | None \<Rightarrow> s)"
  have t: "t = s\<lparr>decode_cursor := decode_cursor t\<rparr>" unfolding t_def by (simp split: option.split)
  have "\<exists>d. running_remove rid s = (ring_remove rid t)\<lparr>decode_cursor := d\<rparr>"
    unfolding running_remove_def Let_def t_def by blast
  then show ?thesis by (subst (asm) t) blast
qed

section \<open>The queues of the scheduler\<close>

definition queues_ok :: "Scheduler \<Rightarrow> bool" where
  "queues_ok s \<longleftrightarrow>
     ring_ok (running s) (running_index s) (running_ids s) \<and> cursor_ok (running_ids s) (decode_cursor s) \<and>
     length (hot s) \<le> HOT_WINDOW_SIZE"

lemma running_remove_shape:
  "\<exists>a b c d. running_remove rid s = s\<lparr>running := a, running_index := b, running_ids := c, decode_cursor := d\<rparr>"
proof -
  obtain c d where r: "running_remove rid s = ring_remove rid (s\<lparr>decode_cursor := c\<rparr>)\<lparr>decode_cursor := d\<rparr>"
    using running_remove_ring by blast
  obtain x y z where q: "ring_remove rid (s\<lparr>decode_cursor := c\<rparr>) =
      s\<lparr>decode_cursor := c, running := x, running_index := y, running_ids := z\<rparr>"
    using ring_remove_shape [of rid "s\<lparr>decode_cursor := c\<rparr>"] by blast
  have "s\<lparr>decode_cursor := c, running := x, running_index := y, running_ids := z, decode_cursor := d\<rparr> =
      s\<lparr>running := x, running_index := y, running_ids := z, decode_cursor := d\<rparr>" by simp
  then show ?thesis unfolding r q by blast
qed

lemma running_remove_same [simp]:
  "prefilling (running_remove rid s) = prefilling s" "hot (running_remove rid s) = hot s"
  "staging (running_remove rid s) = staging s" "pending (running_remove rid s) = pending s"
  "sequences (running_remove rid s) = sequences s" "waiting_ids (running_remove rid s) = waiting_ids s"
  using running_remove_shape [of rid s] by auto

lemma running_remove_facts:
  assumes q: "queues_ok s"
  shows "running (running_remove rid s) = AList.delete rid (running s)" and "queues_ok (running_remove rid s)"
proof -
  obtain c d where r: "running_remove rid s = ring_remove rid (s\<lparr>decode_cursor := c\<rparr>)\<lparr>decode_cursor := d\<rparr>"
    using running_remove_ring by blast
  have "ring_ok (running (s\<lparr>decode_cursor := c\<rparr>)) (running_index (s\<lparr>decode_cursor := c\<rparr>)) (running_ids (s\<lparr>decode_cursor := c\<rparr>))"
    using q by (simp add: queues_ok_def)
  note R = ring_remove_ring [OF this, of rid]
  have "cursor_ok (running_ids (running_remove rid s)) (decode_cursor (running_remove rid s))"
    by (simp add: running_remove_def Let_def cursor_ok_def)
  moreover have "ring_ok (running (running_remove rid s)) (running_index (running_remove rid s)) (running_ids (running_remove rid s))"
    unfolding r using R(2) by simp
  ultimately show "queues_ok (running_remove rid s)" using q by (simp add: queues_ok_def)
  show "running (running_remove rid s) = AList.delete rid (running s)" unfolding r using R(1) by simp
qed

lemma running_add_facts:
  assumes q: "queues_ok s"
  shows "queues_ok (running_add rid r s)"
proof (cases "map_of (running s) rid = None")
  case False
  then have "rid \<in> fst ` set (running s)" by (auto simp: map_of_eq_None_iff)
  then have "insert rid (fst ` set (running s)) = fst ` set (running s)" by auto
  with False q show ?thesis by (simp add: running_add_def queues_ok_def ring_ok_def fst_update)
next
  case True
  have r: "ring_ok (running s) (running_index s) (running_ids s)" using q by (simp add: queues_ok_def)
  with True have "rid \<notin> set (running_ids s)" using ring_member by blast
  with True q show ?thesis
    by (auto simp: running_add_def queues_ok_def ring_ok_def cursor_ok_def fst_update update_conv' nth_append less_Suc_eq)
qed

lemma advance_decode_cursor_facts: "queues_ok s \<Longrightarrow> queues_ok (advance_decode_cursor ss s)"
  by (auto simp: advance_decode_cursor_def queues_ok_def cursor_ok_def split: option.split)

end
