(* ===== verification/Sched_References.thy ===== *)
theory Sched_References
  imports Sched_Ring
begin

text \<open>
  What the scheduler's queues and ring refer to.  Every lifecycle the scheduler holds is filed
  under the id of its request; the operations keep it so as long as the collaborators treat
  the registry as its own operations do.
\<close>

section \<open>References and names\<close>

definition store_len :: "'w world \<Rightarrow> nat" where
  "store_len w = length (objects (registry w))"

definition names :: "'w world \<Rightarrow> nat \<Rightarrow> string \<Rightarrow> bool" where
  "names w r rid \<longleftrightarrow> r < store_len w \<and> rq_id (request (view w r)) = rid"

text \<open>
  What a collaborator may do to the registry: whatever the operations of the registry and of
  its lifecycles do.  In particular a lifecycle keeps the request it was created for.
\<close>

definition world_next :: "'w world \<Rightarrow> 'w world \<Rightarrow> bool" where
  "world_next w w' \<longleftrightarrow> (mgr_inv (fst w) \<longrightarrow> mgr_inv (fst w') \<and> mgr_next (fst w) (fst w'))"

definition keeps_registry :: "'w collaborators \<Rightarrow> bool" where
  "keeps_registry C \<longleftrightarrow>
     (\<forall>rid w. world_next w (snd (seq_create C rid w))) \<and> (\<forall>h w. world_next w (snd (seq_free C h w))) \<and>
     (\<forall>p w. world_next w (snd (rt_prepare C p w))) \<and> (\<forall>p w. world_next w (snd (rt_adopt C p w))) \<and>
     (\<forall>k r w. world_next w (snd (rt_cancel C k r w))) \<and>
     (\<forall>f r h m w. preempt C = Some f \<longrightarrow> world_next w (snd (f r h m w))) \<and>
     (\<forall>f r w. prepare_request C = Some f \<longrightarrow> world_next w (snd (f r w))) \<and>
     (\<forall>f cs k w. propose C = Some f \<longrightarrow> world_next w (snd (f cs k w)))"

text \<open>
  Every reference the scheduler holds is filed under the id of its request, the ring is
  dense and the ranking window is bounded.
\<close>

definition refs_ok :: "'w sched_state \<Rightarrow> bool" where
  "refs_ok st \<longleftrightarrow> (case st of (s, w) \<Rightarrow>
     mgr_inv (fst w) \<and>
     (\<forall>(rid, r)\<in>set (running s) \<union> set (prefilling s). names w r rid) \<and>
     (\<forall>e\<in>set (hot s) \<union> set (staging s). names w (entry_ref e) (entry_rid e)) \<and>
     queues_ok s)"

definition frame :: "Scheduler \<Rightarrow> Scheduler \<Rightarrow> bool" where
  "frame s s' \<longleftrightarrow> s_plan s' = s_plan s \<and> inflight_ids_all s' = inflight_ids_all s \<and> inflight_requests s' = inflight_requests s \<and>
     inflight_slices s' = inflight_slices s \<and> last_step s' = last_step s"

text \<open>The requests that preemption can still take something from.\<close>

definition reclaimable :: "Scheduler \<Rightarrow> string set" where
  "reclaimable s = fst ` set (running s) \<union> fst ` set (prefilling s) \<union> (entry_rid ` set (hot s) - fst ` set (pending s))"

lemma world_next_refl [simp]: "world_next w w"
  by (simp add: world_next_def)

lemma world_next_trans: "world_next w w' \<Longrightarrow> world_next w' w'' \<Longrightarrow> world_next w w''"
  unfolding world_next_def using mgr_next_trans by blast

lemma world_next_names:
  assumes "mgr_inv (fst w)" "world_next w w'" "names w r rid"
  shows "names w' r rid"
proof -
  obtain g ep x where w: "w = ((g, ep), x)" by (metis surj_pair)
  obtain g' ep' x' where w': "w' = ((g', ep'), x')" by (metis surj_pair)
  have n: "mgr_next (g, ep) (g', ep')" using assms by (simp add: world_next_def w w')
  have r: "r < length (objects g)" "rq_id (request (objects g ! r)) = rid"
    using assms(3) by (simp_all add: names_def store_len_def registry_def view_def w)
  with mgr_nextD(2) [OF n] lc_next_epoch [OF mgr_nextD(3) [OF n r(1)]]
  show ?thesis by (simp add: names_def store_len_def registry_def view_def w')
qed

lemma frame_refl [simp]: "frame s s"
  by (simp add: frame_def)

lemma frame_trans: "frame s s' \<Longrightarrow> frame s' s'' \<Longrightarrow> frame s s''"
  by (simp add: frame_def)

lemma refs_ok_mono:
  assumes ok: "refs_ok (s, w)" and w: "world_next w w'" and sub: "set (running s') \<subseteq> set (running s)"
    "set (prefilling s') \<subseteq> set (prefilling s)" "set (hot s') \<subseteq> set (hot s)" "set (staging s') \<subseteq> set (staging s)"
    "queues_ok s'"
  shows "refs_ok (s', w')"
proof -
  have i: "mgr_inv (fst w)" using ok by (simp add: refs_ok_def)
  then have "mgr_inv (fst w')" using w by (simp add: world_next_def)
  moreover note world_next_names [OF i w]
  ultimately show ?thesis using ok sub unfolding refs_ok_def by fastforce
qed

text \<open>Operations that keep the references in order and the tickets untouched.\<close>

definition tidy :: "('w sched_state, 'a) py \<Rightarrow> bool" where
  "tidy f \<longleftrightarrow> (\<forall>s w r s' w'. refs_ok (s, w) \<longrightarrow> f (s, w) = (r, (s', w')) \<longrightarrow> refs_ok (s', w') \<and> frame s s' \<and> world_next w w')"

lemma tidyD: "tidy f \<Longrightarrow> refs_ok (s, w) \<Longrightarrow> f (s, w) = (r, (s', w')) \<Longrightarrow> refs_ok (s', w') \<and> frame s s' \<and> world_next w w'"
  unfolding tidy_def by blast

lemma tidy_andthen [effect_intros]:
  assumes "tidy f" "\<And>x. tidy (g x)"
  shows "tidy (andthen f g)"
  unfolding tidy_def
proof (intro allI impI)
  fix s w r s' w' assume ok: "refs_ok (s, w)" and e: "andthen f g (s, w) = (r, (s', w'))"
  obtain x s1 w1 where f: "f (s, w) = (x, (s1, w1))" by (metis surj_pair)
  note 1 = tidyD [OF assms(1) ok f]
  show "refs_ok (s', w') \<and> frame s s' \<and> world_next w w'"
  proof (cases x)
    case (Inl e)
    with f \<open>andthen f g (s, w) = _\<close> 1 show ?thesis by (simp add: andthen_def)
  next
    case (Inr y)
    with f e have "g y (s1, w1) = (r, (s', w'))" by (simp add: andthen_def)
    from tidyD [OF assms(2) _ this] 1 show ?thesis by (meson frame_trans world_next_trans)
  qed
qed

lemma tidy_base [effect_intros]: "tidy (ret x)" "tidy (raise e)" "tidy (ask f)"
  by (auto simp: tidy_def ask_def)

lemma tidy_own:
  "(\<And>s (w :: 'w world). refs_ok (s, w) \<Longrightarrow> refs_ok (f s, w)) \<Longrightarrow> (\<And>s. frame s (f s)) \<Longrightarrow>
   tidy (own f :: ('w sched_state, unit) py)"
  unfolding tidy_def own_def by simp

lemma tidy_outside: "(\<And>w. world_next w (snd (f w))) \<Longrightarrow> tidy (outside f)"
  unfolding tidy_def outside_def
proof (intro allI impI)
  fix s w r s' w'
  assume f: "\<And>w. world_next w (snd (f w))" and ok: "refs_ok (s, w)"
    and e: "(case (s, w) of (s, w) \<Rightarrow> case f w of (r, w') \<Rightarrow> (r, (s, w'))) = (r, (s', w'))"
  from e f [of w] have s: "s' = s" "world_next w w'" by (auto split: prod.splits)
  have "queues_ok s" using ok by (simp add: refs_ok_def)
  then show "refs_ok (s', w') \<and> frame s s' \<and> world_next w w'"
    using refs_ok_mono [OF ok s(2)] s by simp
qed

lemma tidy_state: "(\<And>s w. tidy (f s w)) \<Longrightarrow> tidy (\<lambda>(s, w). f s w (s, w))"
  by (auto simp: tidy_def)

lemma tidy_if [effect_intros]: "tidy f \<Longrightarrow> tidy g \<Longrightarrow> tidy (if c then f else g)"
  by simp


section \<open>Dropping requests\<close>

lemma set_delete_first: "set (delete_first rid es) \<subseteq> set es"
  by (induction es) auto

lemma length_delete_first: "length (delete_first rid es) \<le> length es"
  by (induction es) auto

lemma running_remove_frame [simp]: "frame s (running_remove rid s)"
  using running_remove_shape [of rid s] by (auto simp: frame_def)

lemma waiting_remove_frame [simp]:
  "frame s (waiting_remove rid s)" "running (waiting_remove rid s) = running s"
  "prefilling (waiting_remove rid s) = prefilling s" "staging (waiting_remove rid s) = staging s"
  by (auto simp: waiting_remove_def frame_def)

lemma waiting_remove_queues: "queues_ok s \<Longrightarrow> queues_ok (waiting_remove rid s)"
  using length_delete_first [of rid "hot s"] by (simp add: waiting_remove_def queues_ok_def)

lemma drop_request_ok:
  assumes ok: "refs_ok (s, w)"
  shows "refs_ok (drop_request rid s, w)"
proof -
  define t where "t = s\<lparr>recompute_until := AList.delete rid (recompute_until s), prefilling := AList.delete rid (prefilling s)\<rparr>"
  have "queues_ok t" using ok by (simp add: refs_ok_def queues_ok_def t_def)
  note R = running_remove_facts [OF this, of rid]
  have d: "drop_request rid s = waiting_remove rid (running_remove rid t)" by (simp add: drop_request_def t_def Let_def)
  have "set (hot (drop_request rid s)) \<subseteq> set (hot s)"
    using set_delete_first by (auto simp: d t_def waiting_remove_def)
  with R(1) waiting_remove_queues [OF R(2)] show "refs_ok (drop_request rid s, w)"
    by (intro refs_ok_mono [OF ok]) (simp_all add: d t_def set_delete_subset)
qed

lemma drop_request_frame: "frame s (drop_request rid s)"
proof -
  let ?t = "s\<lparr>recompute_until := AList.delete rid (recompute_until s), prefilling := AList.delete rid (prefilling s)\<rparr>"
  have "frame s ?t" by (simp add: frame_def)
  then show ?thesis
    unfolding drop_request_def Let_def by (meson frame_trans running_remove_frame waiting_remove_frame(1))
qed


lemma send_report_facts:
  assumes "send_report rid oc e fr text (s, w) = (x, (s', w'))"
  obtains "w' = w" "s' = s" "\<exists>e. x = Inl e"
    | rep where "w' = w" "x = Inr ()" "rep_request_id rep = rid" "s' = queue_report rep s"
proof (cases "mk_report rid oc e fr text")
  case (Inl e)
  with assms show thesis by (intro that(1)) (auto simp: send_report_def andthen_def ask_def)
next
  case (Inr rep)
  then have "rep_request_id rep = rid" by (auto simp: mk_report_def Let_def ebind_Inr_iff)
  with Inr assms show thesis by (intro that(2) [of rep]) (auto simp: send_report_def andthen_def ask_def own_def)
qed

lemma queue_report_ok: "refs_ok (s, w) \<Longrightarrow> refs_ok (queue_report rep s, w) \<and> frame s (queue_report rep s)"
  by (simp add: refs_ok_def queues_ok_def queue_report_def frame_def)

lemma tidy_send_report: "tidy (send_report rid oc e fr text)"
  unfolding tidy_def
proof (intro allI impI)
  fix s w x s' w' assume "refs_ok (s, w)" and e: "send_report rid oc e fr text (s, w) = (x, (s', w'))"
  from e show "refs_ok (s', w') \<and> frame s s' \<and> world_next w w'"
    by (rule send_report_facts) (use \<open>refs_ok (s, w)\<close> queue_report_ok in simp_all)
qed

lemma tidy_pop_sequence [effect_intros]: "tidy (pop_sequence rid)"
  by (auto simp: tidy_def pop_sequence_def refs_ok_def queues_ok_def frame_def)

lemma tidy_free_sequence: "keeps_registry C \<Longrightarrow> tidy (free_sequence C h)"
  by (auto simp: free_sequence_def keeps_registry_def split: option.splits intro: tidy_outside effect_intros)

lemma tidy_end_request: "tidy (end_request rid r oc fr text)"
  unfolding end_request_def
proof (intro tidy_andthen tidy_pop_sequence tidy_own)
  fix s w assume "refs_ok (s, w)"
  from drop_request_ok [OF this, of rid]
  show "refs_ok (let s1 = drop_request rid s in s1\<lparr>abort_pending := abort_pending s1 - {rid}, abort_reasons := AList.delete rid (abort_reasons s1)\<rparr>, w)"
    by (simp add: refs_ok_def queues_ok_def Let_def)
next
  fix s show "frame s (let s1 = drop_request rid s in s1\<lparr>abort_pending := abort_pending s1 - {rid}, abort_reasons := AList.delete rid (abort_reasons s1)\<rparr>)"
    by (simp add: frame_def Let_def drop_request_frame [unfolded frame_def])
next
  show "tidy (\<lambda>(s, w). send_report rid oc (sequence_epoch (machine (view w r))) fr text (s, w))"
    unfolding tidy_def
  proof (intro allI impI)
    fix s w x s' w' assume ok: "refs_ok (s, w)"
      and "(case (s, w) of (s, w) \<Rightarrow> send_report rid oc (sequence_epoch (machine (view w r))) fr text (s, w)) = (x, (s', w'))"
    then have "send_report rid oc (sequence_epoch (machine (view w r))) fr text (s, w) = (x, (s', w'))" by simp
    from tidyD [OF tidy_send_report ok this] show "refs_ok (s', w') \<and> frame s s' \<and> world_next w w'" .
  qed
qed

lemma tidy_fail_request: "tidy (fail_request rid text)"
  unfolding tidy_def
proof (intro allI impI)
  fix s w x s' w' assume ok: "refs_ok (s, w)" and e: "fail_request rid text (s, w) = (x, (s', w'))"
  then consider "s' = s" "w' = w" | r where "end_request rid r O_FAILED None text (s, w) = (x, (s', w'))"
    unfolding fail_request_def prod.case by (cases "Lifecycle_Manager.find (registry w) rid") (auto split: if_splits)
  then show "refs_ok (s', w') \<and> frame s s' \<and> world_next w w'"
  proof cases
    case 1
    with ok show ?thesis by simp
  next
    case (2 r)
    from tidyD [OF tidy_end_request ok 2] show ?thesis .
  qed
qed

section \<open>Preemption\<close>

lemma new_queue_entry_facts:
  assumes "new_queue_entry now rid r q s = (x, s1)"
  shows "frame s s1" "hot s1 = hot s" "staging s1 = staging s" "running s1 = running s" "queues_ok s1 = queues_ok s"
    "prefilling s1 = prefilling s" "pending s1 = pending s" "x = Inr e \<Longrightarrow> entry_rid e = rid \<and> entry_ref e = r"
  using assms by (auto simp: new_queue_entry_def Let_def frame_def queues_ok_def split: option.splits sum.splits)

lemma refresh_window_hints_single:
  "\<exists>e'. refresh_window_hints C s w [e] = [e'] \<and> entry_rid e' = entry_rid e \<and> entry_ref e' = entry_ref e"
  by (simp add: refresh_window_hints_def refresh_hint_def)

lemma requeue_front_facts:
  assumes ok: "refs_ok (s, w)" and e: "names w (entry_ref e) (entry_rid e)"
  shows "refs_ok (requeue_front C w e s, w)" "frame s (requeue_front C w e s)" "running (requeue_front C w e s) = running s"
    "prefilling (requeue_front C w e s) = prefilling s" "pending (requeue_front C w e s) = pending s"
proof -
  define t where "t = (if HOT_WINDOW_SIZE \<le> length (hot s) then s\<lparr>staging := last (hot s) # staging s, hot := butlast (hot s)\<rparr> else s)"
  have d: "requeue_front C w e s = t\<lparr>hot := refresh_window_hints C t w [e] @ hot t, waiting_ids := insert (entry_rid e) (waiting_ids t)\<rparr>"
    by (simp add: requeue_front_def t_def Let_def)
  have "HOT_WINDOW_SIZE \<le> length (hot s) \<Longrightarrow> hot s \<noteq> []" by (auto simp: HOT_WINDOW_SIZE_def)
  then have h: "set (hot t) \<union> set (staging t) \<subseteq> set (hot s) \<union> set (staging s)"
    unfolding t_def by (auto dest: in_set_butlastD)
  have t: "running t = running s" "prefilling t = prefilling s" "pending t = pending s" "frame s t"
    "running_index t = running_index s" "running_ids t = running_ids s" "decode_cursor t = decode_cursor s"
    by (auto simp: frame_def t_def)
  have n: "length (hot t) < HOT_WINDOW_SIZE" using ok by (auto simp: t_def refs_ok_def queues_ok_def HOT_WINDOW_SIZE_def)
  obtain z where z: "refresh_window_hints C t w [e] = [z]" "entry_rid z = entry_rid e" "entry_ref z = entry_ref e"
    using refresh_window_hints_single by blast
  show "refs_ok (requeue_front C w e s, w)" unfolding d using e z h t n ok unfolding refs_ok_def queues_ok_def by auto
  show "frame s (requeue_front C w e s)" "running (requeue_front C w e s) = running s"
    "prefilling (requeue_front C w e s) = prefilling s" "pending (requeue_front C w e s) = pending s"
    unfolding d using t by (simp_all add: frame_def)
qed

lemma waiting_add_ok: "refs_ok (s, w) \<Longrightarrow> names w (entry_ref e) (entry_rid e) \<Longrightarrow> refs_ok (waiting_add e s, w)"
  by (simp add: refs_ok_def queues_ok_def waiting_add_def)

lemma requeue_facts:
  assumes ok: "refs_ok (s, w)" and r: "r < store_len w" and e: "requeue C now r (s, w) = (x, (s', w'))"
  shows "refs_ok (s', w') \<and> frame s s' \<and> w' = w \<and> running s' = running s \<and> prefilling s' = prefilling s \<and> pending s' = pending s \<and>
    (map_of (prefilling s) (rq_id (request (view w r))) = None \<longrightarrow> hot s' = hot s)"
proof -
  let ?rid = "rq_id (request (view w r))"
  obtain y s1 where q: "new_queue_entry now ?rid r (map_of (sequences s) ?rid) s = (y, s1)" by force
  note Q = new_queue_entry_facts [OF q]
  have ok1: "refs_ok (s1, w)" using ok Q by (simp add: refs_ok_def)
  show ?thesis
  proof (cases "is_terminal (machine (view w r)) \<or> tok_cancelled (token (view w r)) \<or> ?rid \<in> waiting_ids s")
    case True
    then have "requeue C now r (s, w) = (Inr (), (s, w))"
      by (cases "is_terminal (machine (view w r)) \<or> tok_cancelled (token (view w r))") (simp_all add: requeue_def Let_def)
    with e ok show ?thesis by simp
  next
    case live: False
    show ?thesis
    proof (cases y)
      case (Inl a)
      with live q have "requeue C now r (s, w) = (Inl a, (s1, w))" by (simp add: requeue_def Let_def)
      with e ok1 Q(1-7) show ?thesis by simp
    next
      case (Inr z)
      then have "entry_rid z = ?rid" "entry_ref z = r" using Q(8) by blast+
      with r have z: "names w (entry_ref z) (entry_rid z)" by (simp add: names_def)
      show ?thesis
      proof (cases "map_of (prefilling s1) ?rid = None")
        case True
        with live q Inr have "requeue C now r (s, w) = (Inr (), (waiting_add z s1, w))" by (simp add: requeue_def Let_def)
        with e have s: "s' = waiting_add z s1" "w' = w" by simp_all
        from waiting_add_ok [OF ok1 z] Q show ?thesis unfolding s by (simp add: waiting_add_def frame_def)
      next
        case False
        then obtain v where "map_of (prefilling s1) ?rid = Some v" by blast
        with live q Inr have "requeue C now r (s, w) = (Inr (), (requeue_front C w z s1, w))" by (simp add: requeue_def Let_def)
        from trans [OF this [symmetric] e] have s: "s' = requeue_front C w z s1" "w' = w" by auto
        note F = requeue_front_facts [OF ok1 z, of C]
        have "refs_ok (s', w')" unfolding s by (rule F(1))
        moreover have "frame s s'" unfolding s by (rule frame_trans [OF Q(1) F(2)])
        moreover have "map_of (prefilling s) ?rid \<noteq> None" using False Q(6) by simp
        ultimately show ?thesis unfolding s using F(3-5) Q(4,6,7) by auto
      qed
    qed
  qed
qed

lemma take_victim_facts:
  fixes lc :: RequestLifecycle and mode :: PreemptionMode and s :: Scheduler
  assumes ok: "refs_ok (s, w)"
  defines "rid \<equiv> rq_id (request lc)" and "t \<equiv> take_victim mode lc s"
  shows "refs_ok (t, w)" "frame s t" "running t = AList.delete rid (running s)" "prefilling t = AList.delete rid (prefilling s)"
    "hot t = hot s" "pending t = pending s"
proof -
  define u where "u = (if mode = RECOMPUTE then
      s\<lparr>recompute_until := AList.update rid (num_computed_tokens (machine lc)) (recompute_until s),
        wasted_compute_tokens := wasted_compute_tokens s + max 0 (num_computed_tokens (machine lc) - num_cached_tokens (machine lc))\<rparr>
      else s)"
  have t: "t = (running_remove rid u)\<lparr>prefilling := AList.delete rid (prefilling (running_remove rid u))\<rparr>"
    unfolding t_def take_victim_def Let_def rid_def u_def ..
  have u: "frame s u" "running u = running s" "queues_ok u = queues_ok s" "prefilling u = prefilling s" "hot u = hot s"
    "staging u = staging s" "pending u = pending s" by (simp_all add: u_def frame_def queues_ok_def)
  have i: "queues_ok u" using ok by (simp add: refs_ok_def u)
  note R = running_remove_facts [OF i, of rid]
  have "frame s (running_remove rid u)" using u(1) by (rule frame_trans) simp
  then show "frame s t" by (simp add: frame_def t)
  show p: "running t = AList.delete rid (running s)" "prefilling t = AList.delete rid (prefilling s)"
    "hot t = hot s" "pending t = pending s" using R(1) by (simp_all add: t u)
  have "staging t = staging s" "queues_ok t" using R(2) by (simp_all add: t u queues_ok_def)
  with p show "refs_ok (t, w)" by (intro refs_ok_mono [OF ok]) (simp_all add: set_delete_subset)
qed

lemma reclaimable_finite [simp]: "finite (reclaimable s)"
  by (simp add: reclaimable_def)

lemma counting_preemptions [simp]:
  "refs_ok (s\<lparr>preemptions := n\<rparr>, w) = refs_ok (s, w)" "frame s' (s\<lparr>preemptions := n\<rparr>) = frame s' s"
  "reclaimable (s\<lparr>preemptions := n\<rparr>) = reclaimable s"
  by (simp_all add: refs_ok_def queues_ok_def frame_def reclaimable_def)

lemma preempted_facts:
  fixes w :: "'w world" and r :: nat
  assumes ok: "refs_ok (s, w)" and r: "r < store_len w" and e: "preempted C now r (s, w) = (x, (s', w'))"
  defines "rid \<equiv> rq_id (request (view w r))"
  shows "refs_ok (s', w') \<and> frame s s' \<and> w' = w" "x = Inr v \<Longrightarrow> v = Some rid \<and> reclaimable s' \<subseteq> reclaimable s - {rid}"
proof -
  define t where "t = take_victim (preemption_mode (s_plan s)) (view w r) s"
  note T = take_victim_facts [OF ok, where lc = "view w r" and mode = "preemption_mode (s_plan s)", folded t_def rid_def]
  obtain y s2 w2 where q: "send_report rid (if preemption_mode (s_plan s) = SWAP then O_PREEMPTED_SWAP else O_PREEMPTED_RECOMPUTE)
      (sequence_epoch (machine (view w r))) None [] (t, w) = (y, (s2, w2))" by (metis surj_pair)
  have "(refs_ok (s', w') \<and> frame s s' \<and> w' = w) \<and> (x = Inr v \<longrightarrow> v = Some rid \<and> reclaimable s' \<subseteq> reclaimable s - {rid})"
    using q
  proof (cases rule: send_report_facts)
    case 1
    then obtain a where "y = Inl a" by blast
    with q 1 have "preempted C now r (s, w) = (Inl a, (t, w))"
      by (simp add: preempted_def Let_def andthen_def own_def t_def rid_def)
    with e T show ?thesis by auto
  next
    case (2 rep)
    then have ok2: "refs_ok (s2, w)" and f2: "frame s s2" using queue_report_ok [OF T(1), of rep] T(2) frame_trans by blast+
    have p2: "running s2 = running t" "prefilling s2 = prefilling t" "hot s2 = hot t" "rid \<in> fst ` set (pending s2)"
      "fst ` set (pending t) \<subseteq> fst ` set (pending s2)" using 2 by (auto simp: queue_report_def fst_update)
    obtain z s3 w3 where z: "requeue C now r (s2, w) = (z, (s3, w3))" by (metis surj_pair)
    note Z = requeue_facts [OF ok2 r z]
    have "map_of (prefilling s2) rid = None" using T(4) p2 by (simp add: map_of_eq_None_iff fst_delete)
    with Z have h: "hot s3 = hot s2" by (simp add: rid_def)
    have f3: "frame s s3" using f2 Z frame_trans by blast
    have "reclaimable s3 \<subseteq> reclaimable s - {rid}"
      using T(3-6) p2 Z h by (auto simp: reclaimable_def fst_delete)
    show ?thesis
    proof (cases z)
      case (Inl a)
      with q 2 z have "preempted C now r (s, w) = (Inl a, (s3, w3))"
        by (simp add: preempted_def Let_def andthen_def own_def t_def rid_def)
      with e Z f3 show ?thesis by auto
    next
      case (Inr u)
      with q 2 z have "preempted C now r (s, w) = (Inr (Some rid), (s3\<lparr>preemptions := preemptions s3 + 1\<rparr>, w3))"
        by (simp add: preempted_def Let_def andthen_def own_def t_def rid_def)
      with e have "x = Inr (Some rid)" "s' = s3\<lparr>preemptions := preemptions s3 + 1\<rparr>" "w' = w3" by auto
      with Z f3 \<open>reclaimable s3 \<subseteq> reclaimable s - {rid}\<close> show ?thesis by auto
    qed
  qed
  then show "refs_ok (s', w') \<and> frame s s' \<and> w' = w" "x = Inr v \<Longrightarrow> v = Some rid \<and> reclaimable s' \<subseteq> reclaimable s - {rid}" by blast+
qed

text \<open>The victim comes from the running, the prefilling or the waiting requests, under its own id.\<close>

lemma foldl_update_set:
  "set (foldl (\<lambda>c x. if P x then AList.update (f x) (g x) c else c) d xs) \<subseteq> set d \<union> {(f x, g x) | x. x \<in> set xs \<and> P x}"
proof (induction xs arbitrary: d)
  case (Cons x xs)
  have "set (if P x then AList.update (f x) (g x) d else d) \<subseteq> set d \<union> {(f y, g y) | y. y \<in> set (x # xs) \<and> P y}"
    using set_update_subset [of "f x" "g x" d] by auto
  with Cons [of "if P x then AList.update (f x) (g x) d else d"] show ?case by (simp only: foldl_Cons) fastforce
qed simp

lemma preemption_candidates_set:
  assumes ok: "refs_ok (s, w)" and r: "(k, r) \<in> set (preemption_candidates v s)"
  shows "names w r k" "k \<in> reclaimable s"
proof -
  have inner: "set (foldl (\<lambda>c (rid, r). AList.update rid r c) (running s) (prefilling s)) \<subseteq> set (running s) \<union> set (prefilling s)"
    using foldl_update_set [of "\<lambda>_. True" fst snd "running s" "prefilling s"] by (simp add: case_prod_unfold)
  have "set (preemption_candidates v s) \<subseteq> set (running s) \<union> set (prefilling s) \<union>
      {(entry_rid e, entry_ref e) | e. e \<in> set (hot s) \<and> map_of (pending s) (entry_rid e) = None}"
    unfolding preemption_candidates_def by (rule order_trans [OF foldl_update_set]) (use inner in blast)
  with r consider "(k, r) \<in> set (running s) \<union> set (prefilling s)"
    | e where "e \<in> set (hot s)" "map_of (pending s) (entry_rid e) = None" "k = entry_rid e" "r = entry_ref e" by blast
  then have "names w r k \<and> k \<in> reclaimable s"
  proof cases
    case 1
    moreover have "k \<in> fst ` set (running s) \<union> fst ` set (prefilling s)" using 1 by force
    ultimately show ?thesis using ok by (auto simp: refs_ok_def reclaimable_def)
  next
    case (2 e)
    with ok show ?thesis by (auto simp: refs_ok_def reclaimable_def map_of_eq_None_iff)
  qed
  then show "names w r k" "k \<in> reclaimable s" by simp_all
qed

lemma try_preempt_one_facts:
  fixes w :: "'w world"
  assumes ok: "refs_ok (s, w)" and C: "keeps_registry C" and e: "try_preempt_one C now ids (s, w) = (x, (s', w'))"
  shows "refs_ok (s', w') \<and> frame s s' \<and> world_next w w'"
    and "x = Inr (Some v) \<Longrightarrow> v \<in> reclaimable s \<and> reclaimable s' \<subseteq> reclaimable s - {v}"
proof -
  have "(refs_ok (s', w') \<and> frame s s' \<and> world_next w w') \<and>
    (x = Inr (Some v) \<longrightarrow> v \<in> reclaimable s \<and> reclaimable s' \<subseteq> reclaimable s - {v})"
  proof (cases "s' = s \<and> w' = w \<and> x = Inr None")
    case True
    with ok show ?thesis by simp
  next
    case False
    obtain f where f: "preempt C = Some f"
      using False e by (cases "preempt C") (simp_all add: try_preempt_one_def)
    obtain r where r: "select_preemption_victim (view w) ids (map snd (preemption_candidates (view w) s)) = Some r"
      using False e f by (cases "select_preemption_victim (view w) ids (map snd (preemption_candidates (view w) s))")
        (simp_all add: try_preempt_one_def)
    obtain h where h: "map_of (sequences s) (rq_id (request (view w r))) = Some h"
      using False e f r by (cases "map_of (sequences s) (rq_id (request (view w r)))") (simp_all add: try_preempt_one_def)
    obtain y w1 where y: "f r h (mode_value (preemption_mode (s_plan s))) w = (y, w1)" by (metis surj_pair)
    have "world_next w (snd (f r h (mode_value (preemption_mode (s_plan s))) w))" using C f unfolding keeps_registry_def by blast
    with y have w1: "world_next w w1" by simp
    from ok have ok1: "refs_ok (s, w1)" by (intro refs_ok_mono [OF ok w1]) (auto simp: refs_ok_def)
    obtain k where "(k, r) \<in> set (preemption_candidates (view w) s)" using select_victim_Some(1) [OF r] by auto
    from preemption_candidates_set [OF ok this] have n: "names w r k" and k: "k \<in> reclaimable s" .
    have "mgr_inv (fst w)" using ok by (simp add: refs_ok_def)
    from world_next_names [OF this w1 n] have n1: "r < store_len w1" "rq_id (request (view w1 r)) = k" by (simp_all add: names_def)
    have e': "try_preempt_one C now ids (s, w) = (case y of Inl a \<Rightarrow> (Inl a, (s, w1)) | Inr b \<Rightarrow> if \<not> b then (Inr None, (s, w1)) else preempted C now r (s, w1))"
      using f r h y by (auto simp: try_preempt_one_def andthen_def outside_def split: sum.split)
    show ?thesis
    proof (cases "y = Inr True")
      case False
      with e e' have "s' = s" "w' = w1" "x \<noteq> Inr (Some v)" by (auto split: sum.splits if_splits)
      with ok1 w1 show ?thesis by simp
    next
      case True
      with e e' have p: "preempted C now r (s, w1) = (x, (s', w'))" by simp
      from preempted_facts [OF ok1 n1(1) p, unfolded n1(2)] k w1 show ?thesis by auto
    qed
  qed
  then show "refs_ok (s', w') \<and> frame s s' \<and> world_next w w'"
    and "x = Inr (Some v) \<Longrightarrow> v \<in> reclaimable s \<and> reclaimable s' \<subseteq> reclaimable s - {v}" by blast+
qed

end
