(* ===== verification/Sched_Termination.thy ===== *)
theory Sched_Termination
  imports Sched_References "HOL-Library.Sublist"
begin

text \<open>
  The scheduling loop returns.  Nothing in the code bounds the loop that reshapes a refused
  step: it ends because every reshaping makes the step smaller, and a preemption, which
  leaves the step as it is, takes a request out of those that can be reclaimed.
\<close>

section \<open>The size of a step\<close>

definition weight :: "BatchStepPlan \<Rightarrow> nat" where
  "weight p = of_bool (speculative p \<noteq> []) + (\<Sum>sl\<leftarrow>slices p. nat (query_count sl)) + length (slices p)"

lemma plan_rows_no_drafts: "plan_rows [] i n ss = Inr (exts, rows, att, t) \<Longrightarrow> exts = []"
  by (induction ss arbitrary: i n exts rows att t) (auto simp: ebind_Inr_iff)

lemma build_plan_Inr:
  assumes "build_plan p now k ss vs drafts = Inr q"
  shows "slices q = ss" "inputs q = vs" "step_id q = k" "plan_validate q = Inr ()" "drafts = [] \<Longrightarrow> speculative q = []"
  using assms plan_rows_no_drafts by (auto simp: build_plan_def ebind_Inr_iff Let_def)

lemma weight_subseq:
  assumes sub: "subseq (slices q) (slices p)" and spec: "speculative p = [] \<Longrightarrow> speculative q = []"
  shows "weight q \<le> weight p" and "slices q \<noteq> slices p \<Longrightarrow> weight q < weight p"
proof -
  have sum: "(\<Sum>sl\<leftarrow>slices q. nat (query_count sl)) \<le> (\<Sum>sl\<leftarrow>slices p. nat (query_count sl))"
    using sub by induction auto
  have len: "length (slices q) \<le> length (slices p)" by (rule list_emb_length [OF sub])
  have flag: "of_bool (speculative q \<noteq> []) \<le> (of_bool (speculative p \<noteq> []) :: nat)" using spec by auto
  show "weight q \<le> weight p" using sum len flag unfolding weight_def by linarith
  assume "slices q \<noteq> slices p"
  with sub have "length (slices q) \<noteq> length (slices p)" using subseq_same_length by blast
  with len have "length (slices q) < length (slices p)" by simp
  with sum flag show "weight q < weight p" unfolding weight_def by linarith
qed

lemma pick_prefill_mem:
  "pick_prefill p best is = Some i \<Longrightarrow> (best = Some i \<or> i \<in> set is \<and> phase (slices p ! i) = PhasePrefill)"
  by (induction "is" arbitrary: best) (auto split: if_splits option.splits)

lemma rebuild_Inr: "rebuild p now plan ss vs = Inr (Some q) \<Longrightarrow> slices q = ss \<and> speculative q = []"
  by (auto simp: rebuild_def ebind_Inr_iff dest: build_plan_Inr)

lemma mk_slice_Inr: "mk_slice s = Inr t \<longleftrightarrow> slice_validate s = Inr () \<and> t = s"
  by (auto simp: mk_slice_def ebind_Inr_iff)

lemma subseq_drop_nth: "i < length xs \<Longrightarrow> subseq (take i xs @ drop (Suc i) xs) xs"
  by (subst (3) id_take_nth_drop) (auto intro: list_emb_append_mono)

lemma sum_list_update_less:
  "i < length xs \<Longrightarrow> f y < f (xs ! i) \<Longrightarrow> sum_list (map f (xs[i := y])) < (sum_list (map f xs) :: nat)"
proof (induction xs arbitrary: i)
  case (Cons x xs)
  then show ?case by (cases i) auto
qed simp

text \<open>Halving the widest prefill, dropping a row and giving up the drafts all shrink the step.\<close>

lemma shrink_transient_less:
  assumes "shrink_transient p now plan = Inr (Some q)"
  shows "weight q < weight plan"
proof (cases "speculative plan = []")
  case False
  with assms have "rebuild p now plan (slices plan) (inputs plan) = Inr (Some q)"
    by (simp add: shrink_transient_def Let_def)
  with False rebuild_Inr show ?thesis by (auto simp: weight_def)
next
  case spec: True
  show ?thesis
  proof (cases "pick_prefill plan None [0..<length (slices plan)]")
    case None
    with spec assms have "rebuild p now plan (butlast (slices plan)) (butlast (inputs plan)) = Inr (Some q)"
      and n: "1 < length (slices plan)"
      by (auto simp: shrink_transient_def Let_def split: if_splits)
    then have q: "slices q = butlast (slices plan)" "speculative q = []" using rebuild_Inr by blast+
    have "subseq (slices q) (slices plan)"
      unfolding q by (rule prefix_imp_subseq [OF prefixeq_butlast])
    moreover have "length (butlast (slices plan)) < length (slices plan)" using n by simp
    ultimately show ?thesis using weight_subseq(2) q by (metis less_irrefl)
  next
    case (Some i)
    then have i: "i < length (slices plan)" using pick_prefill_mem by fastforce
    let ?sl = "slices plan ! i"
    show ?thesis
    proof (cases "query_count ?sl > 1")
      case True
      with spec Some assms obtain sl' where "rebuild p now plan ((slices plan)[i := sl']) (inputs plan) = Inr (Some q)"
        and c: "query_count sl' = max 1 (query_count ?sl div 2)"
        by (auto simp: shrink_transient_def Let_def ebind_Inr_iff mk_slice_Inr)
      then have q: "slices q = (slices plan)[i := sl']" "speculative q = []" using rebuild_Inr by blast+
      have "nat (query_count sl') < nat (query_count ?sl)" using c True by simp
      from sum_list_update_less [OF i, where f = "\<lambda>x. nat (query_count x)", OF this] q spec show ?thesis
        by (simp add: weight_def)
    next
      case False
      with spec Some assms have "rebuild p now plan (take i (slices plan) @ drop (Suc i) (slices plan))
          (take i (inputs plan) @ drop (Suc i) (inputs plan)) = Inr (Some q)"
        by (auto simp: shrink_transient_def Let_def split: if_splits)
      then have q: "slices q = take i (slices plan) @ drop (Suc i) (slices plan)" "speculative q = []" using rebuild_Inr by blast+
      have "subseq (slices q) (slices plan)" unfolding q by (rule subseq_drop_nth [OF i])
      moreover have "length (slices q) < length (slices plan)" using q i by simp
      ultimately show ?thesis using weight_subseq(2) q by (metis less_irrefl)
    qed
  qed
qed

lemma shrink_transient_None: "shrink_transient p now plan = Inr None \<Longrightarrow> speculative plan = []"
  by (auto simp: shrink_transient_def rebuild_def Let_def ebind_Inr_iff split: if_splits)

lemma zip_filter_subseq: "subseq (map fst (filter P (zip xs ys))) xs"
proof (induction xs arbitrary: ys)
  case (Cons x xs)
  then show ?case by (cases ys) auto
qed simp

lemma without_request_le:
  assumes "without_request p now plan rid = Inr (Some q)"
  shows "weight q \<le> weight plan" and "rid \<in> set (request_order plan) \<Longrightarrow> weight q < weight plan"
proof -
  let ?pairs = "filter (\<lambda>(sl, _). sl_request_id sl \<noteq> rid) (zip (slices plan) (inputs plan))"
  have b: "build_plan p now (step_id plan) (map fst ?pairs) (map snd ?pairs)
      (map (\<lambda>q. (sp_request_id q, q)) (speculative plan)) = Inr q"
    using assms by (auto simp: without_request_def Let_def ebind_Inr_iff split: if_splits)
  have q: "slices q = map fst ?pairs" "speculative plan = [] \<Longrightarrow> speculative q = []"
    using build_plan_Inr(1,5) [OF b] by simp_all
  have sub: "subseq (slices q) (slices plan)" unfolding q(1) by (rule zip_filter_subseq)
  show "weight q \<le> weight plan" by (rule weight_subseq(1) [OF sub q(2)])
  assume "rid \<in> set (request_order plan)"
  moreover have "rid \<notin> set (map sl_request_id (slices q))" unfolding q(1) by auto
  ultimately have "slices q \<noteq> slices plan" by (auto simp: request_order_def)
  with sub q(2) show "weight q < weight plan" using weight_subseq(2) [of q plan] by simp
qed


section \<open>A refused step is reshaped\<close>

lemma reduce_chunk_cap_frame [simp]:
  "running (reduce_chunk_cap p s) = running s" "prefilling (reduce_chunk_cap p s) = prefilling s"
  "hot (reduce_chunk_cap p s) = hot s" "staging (reduce_chunk_cap p s) = staging s" "pending (reduce_chunk_cap p s) = pending s"
  "running_index (reduce_chunk_cap p s) = running_index s" "running_ids (reduce_chunk_cap p s) = running_ids s"
  "decode_cursor (reduce_chunk_cap p s) = decode_cursor s" "frame s' (reduce_chunk_cap p s) = frame s' s"
  by (simp_all add: reduce_chunk_cap_def frame_def split: option.split)

lemma tidy_counters:
  "tidy (own (\<lambda>s. reduce_chunk_cap p (s\<lparr>transient_prepare_failures := transient_prepare_failures s + 1\<rparr>)))"
  "tidy (own (\<lambda>s. s\<lparr>resource_blocked := b\<rparr>))"
  "tidy (own (\<lambda>s. s\<lparr>sched_step_id := sched_step_id s + 1\<rparr>))"
proof -
  show "tidy (own (\<lambda>s. reduce_chunk_cap p (s\<lparr>transient_prepare_failures := transient_prepare_failures s + 1\<rparr>)))"
    by (rule tidy_own) (simp add: refs_ok_def queues_ok_def, simp only: reduce_chunk_cap_frame, simp add: frame_def)
  show "tidy (own (\<lambda>s. s\<lparr>resource_blocked := b\<rparr>))" by (rule tidy_own) (simp_all add: refs_ok_def queues_ok_def frame_def)
  show "tidy (own (\<lambda>s. s\<lparr>sched_step_id := sched_step_id s + 1\<rparr>))" by (rule tidy_own) (simp_all add: refs_ok_def queues_ok_def frame_def)
qed

lemma tidy_option: "(\<And>x. tidy (f x)) \<Longrightarrow> tidy g \<Longrightarrow> tidy (case v of None \<Rightarrow> g | Some x \<Rightarrow> f x)"
  by (cases v) simp_all

lemma tidy_try_preempt:
  "keeps_registry C \<Longrightarrow> tidy (\<lambda>(s, w). try_preempt_one C now (ids \<union> inflight_ids_all s) (s, w))"
  unfolding tidy_def prod.case using try_preempt_one_facts(1) by blast

lemma tidy_after_refusal:
  assumes C: "keeps_registry C"
  shows "tidy (after_refusal C now cur err)"
proof -
  have "tidy (after_pressure C now cur)" unfolding after_pressure_def make_room_def
    by (intro tidy_option tidy_andthen tidy_base tidy_counters tidy_try_preempt [OF C])
  then show ?thesis
    by (cases err) (auto simp: after_refusal_def intro!: tidy_option tidy_andthen tidy_base tidy_fail_request tidy_free_sequence [OF C])
qed

text \<open>
  The three ways a step is reshaped: a refused request leaves it, it shrinks, or it stays and
  a victim is reclaimed.
\<close>

lemma make_room_cases:
  fixes w :: "'w world"
  assumes C: "keeps_registry C" and ok: "refs_ok (s, w)" and e: "make_room C now cur (s, w) = (Inr (Some q), (s', w'))"
  obtains v where "q = cur \<or> without_request (s_plan s) now cur v = Inr (Some q)" "card (reclaimable s') < card (reclaimable s)"
proof -
  from e obtain victim s2 w2 where v: "try_preempt_one C now (set (request_order cur) \<union> inflight_ids_all s) (s, w) = (Inr victim, (s2, w2))"
    and q: "(case victim of
       Some v \<Rightarrow> andthen (ask (\<lambda>s w. without_request (s_plan s) now cur v)) (\<lambda>q. ret (Some (case q of None \<Rightarrow> cur | Some q' \<Rightarrow> q')))
     | None \<Rightarrow> andthen (own (\<lambda>s. s\<lparr>resource_blocked := True\<rparr>)) (\<lambda>_. ret None)) (s2, w2) = (Inr (Some q), (s', w'))"
    unfolding make_room_def andthen_Inr by (metis (no_types, lifting) prod.case surj_pair)
  show thesis
  proof (cases victim)
    case None
    with q show thesis by (simp add: andthen_Inr)
  next
    case (Some x)
    with q have "s' = s2" "q = cur \<or> without_request (s_plan s2) now cur x = Inr (Some q)"
      by (auto simp: andthen_Inr split: option.splits)
    moreover have "card (reclaimable s2) < card (reclaimable s)"
      using try_preempt_one_facts(2) [OF ok C v] Some by (intro psubset_card_mono) auto
    moreover have "s_plan s2 = s_plan s" using try_preempt_one_facts(1) [OF ok C v] by (simp add: frame_def)
    ultimately show thesis by (intro that [of x]) simp_all
  qed
qed

lemma after_refusal_cases:
  fixes w :: "'w world"
  assumes C: "keeps_registry C" and ok: "refs_ok (s, w)" and e: "after_refusal C now cur err (s, w) = (Inr (Some q), (s', w'))"
  obtains (refused) r where "r \<in> set (request_order cur)" "without_request (s_plan s) now cur r = Inr (Some q)"
    | (shrunk) "shrink_transient (s_plan s) now cur = Inr (Some q)"
    | (room) v where "q = cur \<or> without_request (s_plan s) now cur v = Inr (Some q)" "card (reclaimable s') < card (reclaimable s)"
proof (cases err)
  case (Other_Error x)
  with e show thesis by (simp add: after_refusal_def)
next
  case err: (Step_Prepare_Error tr rid msg)
  show thesis
  proof (cases tr)
    case False
    with e err obtain r h u st where r: "r \<in> set (request_order cur)" and h: "fail_request r msg (s, w) = (Inr h, u)"
      and f: "free_sequence C h u = (Inr (), st)" and q: "ask (\<lambda>s w. without_request (s_plan s) now cur r) st = (Inr (Some q), (s', w'))"
      by (auto simp: after_refusal_def andthen_Inr split: option.splits if_splits)
    obtain s1 w1 where u: "u = (s1, w1)" by (cases u)
    note 1 = tidyD [OF tidy_fail_request ok h [unfolded u]]
    obtain s2 w2 where st: "st = (s2, w2)" by (cases st)
    note 2 = tidyD [OF tidy_free_sequence [OF C] conjunct1 [OF 1] f [unfolded u st]]
    from 1 2 have "s_plan s2 = s_plan s" by (simp add: frame_def)
    with q st have "without_request (s_plan s) now cur r = Inr (Some q)" by simp
    with r show thesis by (rule refused)
  next
    case True
    define t where "t = reduce_chunk_cap cur (s\<lparr>transient_prepare_failures := transient_prepare_failures s + 1\<rparr>)"
    have ok1: "refs_ok (t, w)" and r1: "reclaimable t = reclaimable s" using ok by (simp_all add: refs_ok_def queues_ok_def reclaimable_def t_def)
    have "frame s t" unfolding t_def by (simp only: reduce_chunk_cap_frame) (simp add: frame_def)
    then have p: "s_plan t = s_plan s" by (simp add: frame_def)
    from e err True have e1: "after_pressure C now cur (s, w) = (Inr (Some q), (s', w'))" by (simp add: after_refusal_def)
    have e2: "after_pressure C now cur (s, w) =
        (case shrink_transient (s_plan s) now cur of Inl x \<Rightarrow> (Inl x, (t, w)) | Inr (Some p) \<Rightarrow> (Inr (Some p), (t, w))
         | Inr None \<Rightarrow> make_room C now cur (t, w))"
      using p by (simp add: after_pressure_def andthen_def t_def [symmetric] split: sum.split option.split)
    show thesis
    proof (cases "shrink_transient (s_plan s) now cur")
      case (Inl x)
      with e1 e2 show thesis by simp
    next
      case sh: (Inr smaller)
      show thesis
      proof (cases smaller)
        case (Some p)
        with e1 e2 sh have "shrink_transient (s_plan s) now cur = Inr (Some q)" by simp
        then show thesis by (rule shrunk)
      next
        case None
        with e1 e2 sh have "make_room C now cur (t, w) = (Inr (Some q), (s', w'))" by simp
        from C ok1 this show thesis by (rule make_room_cases) (use room p r1 in simp)
      qed
    qed
  qed
qed

lemma after_refusal_progress:
  assumes C: "keeps_registry C" and ok: "refs_ok (s, w)" and e: "after_refusal C now cur err (s, w) = (Inr (Some q), (s', w'))"
  shows "weight q < weight cur \<or> weight q \<le> weight cur \<and> card (reclaimable s') < card (reclaimable s)"
  using C ok e
proof (cases rule: after_refusal_cases)
  case (refused r)
  with without_request_le(2) show ?thesis by blast
next
  case shrunk
  with shrink_transient_less show ?thesis by blast
next
  case (room v)
  with without_request_le(1) show ?thesis by blast
qed

section \<open>The loop returns\<close>

text \<open>
  The loop returns, and whatever holds of the candidate and is kept by each reshaping holds of
  the step that was prepared.
\<close>

lemma prepare_loop_returns:
  fixes w :: "'w world"
  assumes C: "keeps_registry C"
    and Q: "\<And>cur err s w q s' w'. refs_ok (s, w) \<Longrightarrow> s_plan s = P \<Longrightarrow> Q cur \<Longrightarrow>
      after_refusal C now cur err (s, w) = (Inr (Some q), (s', w')) \<Longrightarrow> Q q"
  shows "refs_ok (s, w) \<Longrightarrow> s_plan s = P \<Longrightarrow> Q cur \<Longrightarrow>
    \<exists>x s' w'. prepare_loop C now cur (s, w) = Some (x, (s', w')) \<and> refs_ok (s', w') \<and> frame s s' \<and> world_next w w' \<and>
      (\<forall>p. x = Inr (Some p) \<longrightarrow> Q p)"
proof (induction "(weight cur, card (reclaimable s))" arbitrary: cur s w rule: less_induct)
  case less
  obtain y w1 where y: "rt_prepare C cur w = (y, w1)" by (metis surj_pair)
  then have w1: "world_next w w1" using C unfolding keeps_registry_def by (metis snd_conv)
  with less.prems(1) have ok1: "refs_ok (s, w1)" by (intro refs_ok_mono [OF less.prems(1) w1]) (auto simp: refs_ok_def)
  show ?case
  proof (cases y)
    case (Inr u)
    with y have "prepare_loop C now cur (s, w) = Some (Inr (Some cur), (s, w1))" by (simp add: prepare_loop.simps [of C now cur "(s, w)"])
    with ok1 w1 less.prems(3) show ?thesis by auto
  next
    case (Inl err)
    obtain z s2 w2 where z: "after_refusal C now cur err (s, w1) = (z, (s2, w2))" by (metis surj_pair)
    note T = tidyD [OF tidy_after_refusal [OF C] ok1 z]
    have w2: "world_next w w2" using w1 T world_next_trans by blast
    show ?thesis
    proof (cases "\<exists>q. z = Inr (Some q)")
      case False
      then have "prepare_loop C now cur (s, w) = Some (z, (s2, w2))"
        using y Inl z by (auto simp: prepare_loop.simps [of C now cur "(s, w)"] split: sum.split option.split)
      with T w2 False show ?thesis by auto
    next
      case True
      then obtain q where q: "z = Inr (Some q)" by blast
      then have e: "prepare_loop C now cur (s, w) = prepare_loop C now q (s2, w2)"
        using y Inl z by (simp add: prepare_loop.simps [of C now cur "(s, w)"])
      have "(weight q, card (reclaimable s2)) < (weight cur, card (reclaimable s))"
        using after_refusal_progress [OF C ok1 z [unfolded q]] by auto
      moreover have "s_plan s2 = P" using T less.prems(2) by (simp add: frame_def)
      moreover have "Q q" by (rule Q [OF ok1 less.prems(2,3) z [unfolded q]])
      ultimately obtain x s3 w3 where r: "prepare_loop C now q (s2, w2) = Some (x, (s3, w3))"
        "refs_ok (s3, w3)" "frame s2 s3" "world_next w2 w3" "\<forall>p. x = Inr (Some p) \<longrightarrow> Q p" using less.hyps [of q s2 w2] T by blast
      have "frame s s3" using T r(3) frame_trans by blast
      moreover have "world_next w w3" by (rule world_next_trans [OF w2 r(4)])
      ultimately show ?thesis using e r by auto
    qed
  qed
qed

section \<open>Building candidates\<close>

lemma refs_ok_hot_map:
  "refs_ok (s, w) \<Longrightarrow> (\<And>e. entry_rid (f e) = entry_rid e \<and> entry_ref (f e) = entry_ref e) \<Longrightarrow>
   refs_ok (s\<lparr>hot := map f (hot s)\<rparr>, w)"
  by (auto simp: refs_ok_def queues_ok_def ball_Un)

lemma tidy_mark_bypass:
  "tidy (own (mark_bypass e))"
  "tidy (own (\<lambda>s. mark_bypass e (s\<lparr>admission_rejections := admission_rejections s + 1\<rparr>)))"
proof -
  have mark: "refs_ok (mark_bypass e s, w)" if "refs_ok (s, w)" for s and w :: "'x world"
  proof -
    have "refs_ok (s\<lparr>hot := map (\<lambda>x. if entry_id x = entry_id e then x\<lparr>bypass_count := bypass_count x + 1\<rparr> else x) (hot s)\<rparr>, w)"
      by (rule refs_ok_hot_map [OF that]) simp
    then show ?thesis by (simp add: mark_bypass_def refs_ok_def queues_ok_def)
  qed
  show "tidy (own (mark_bypass e))" by (rule tidy_own, erule mark) (simp add: frame_def mark_bypass_def)
  show "tidy (own (\<lambda>s. mark_bypass e (s\<lparr>admission_rejections := admission_rejections s + 1\<rparr>)))"
    by (rule tidy_own, rule mark) (simp_all add: refs_ok_def queues_ok_def frame_def mark_bypass_def)
qed

lemma tidy_call_preparer: "keeps_registry C \<Longrightarrow> tidy (call_preparer C r)"
  unfolding call_preparer_def keeps_registry_def
  by (cases "prepare_request C") (auto intro: tidy_base tidy_outside)

lemma tidy_prefill_loop:
  assumes C: "keeps_registry C"
  shows "tidy (prefill_loop C part es b)"
proof (induction es arbitrary: part b)
  case (Cons e es)
  have "tidy (case c of
              PC_Skip \<Rightarrow> prefill_loop C part es b
            | PC_Bypass \<Rightarrow> andthen (own (mark_bypass e)) (\<lambda>_. prefill_loop C part es b)
            | PC_Reject \<Rightarrow>
                andthen (own (\<lambda>s. mark_bypass e (s\<lparr>admission_rejections := admission_rejections s + 1\<rparr>))) (\<lambda>_.
                prefill_loop C part es b)
            | PC_Take sl i b1 is_last \<Rightarrow>
                andthen (prefill_loop C (if is_last then part else insert (entry_rid e) part) es b1) (\<lambda>(b2, rest).
                ret (b2, (sl, i) # rest)))" for c
    by (cases c) (simp_all add: Cons tidy_andthen tidy_mark_bypass tidy_base split: prod.split)
  then show ?case
    unfolding prefill_loop.simps by (intro tidy_if tidy_andthen tidy_base tidy_call_preparer [OF C] Cons) simp_all
qed (simp add: tidy_base)

lemma tidy_append_prefills:
  assumes C: "keeps_registry C"
  shows "tidy (append_prefills C now b)"
  unfolding tidy_def
proof (intro allI impI)
  fix s w x s' w' assume ok: "refs_ok (s, w)" and e: "append_prefills C now b (s, w) = (x, (s', w'))"
  show "refs_ok (s', w') \<and> frame s s' \<and> world_next w w'"
  proof (cases "remaining_sequences b \<le> 0 \<or> hot s = []")
    case True
    with e have "s' = s" "w' = w" by (simp_all add: append_prefills_def)
    with ok show ?thesis by simp
  next
    case False
    define upd where "upd = (\<lambda>e. if eligible C now s w e \<and> hints_enabled C s then refresh_hint C w e else e)"
    let ?s = "s\<lparr>hot := map upd (hot s)\<rparr>"
    have ok1: "refs_ok (?s, w)" by (rule refs_ok_hot_map [OF ok]) (simp add: upd_def refresh_hint_def)
    define f where "f = andthen (ask (\<lambda>s2 w2. order_waiting (view w2) (service_round s2) now (bypass_limit s2)
         (policy_name (scheduling_policy (s_plan s2))) (map upd (filter (eligible C now s w) (hot s))))) (\<lambda>ranked.
       prefill_loop C (set (map fst (prefilling s))) (sort_key (\<lambda>e. entry_rid e \<notin> set (map fst (prefilling s))) ranked) b)"
    have "tidy f" unfolding f_def by (intro tidy_andthen tidy_base tidy_prefill_loop [OF C])
    moreover have "f (?s, w) = (x, (s', w'))" using e False unfolding append_prefills_def f_def upd_def Let_def by simp
    moreover have "frame s ?s" by (simp add: frame_def)
    ultimately show ?thesis using tidyD [OF _ ok1] frame_trans by blast
  qed
qed

lemma tidy_make_plan: "tidy (make_plan now rows drafts)"
  unfolding make_plan_def by (intro tidy_if tidy_andthen tidy_base tidy_counters)

lemma tidy_append_speculation:
  assumes C: "keeps_registry C"
  shows "tidy (append_speculation C b rows)"
proof (cases "propose C")
  case None
  then show ?thesis by (simp add: append_speculation_def tidy_base)
next
  case (Some f)
  with C have f: "world_next w (snd (f cs k w))" for cs k w unfolding keeps_registry_def by blast
  have "tidy (\<lambda>(s, w). outside (f cs (sched_round s)) (s, w))" for cs
    using tidyD [OF tidy_outside [of "f cs k" for k, OF f]] unfolding tidy_def prod.case by blast
  then show ?thesis
    unfolding append_speculation_def Some option.case by (intro tidy_if tidy_andthen tidy_base)
qed

lemma tidy_builders:
  assumes C: "keeps_registry C" and b: "b \<in> set (builders C now s)"
  shows "tidy b"
proof -
  note T = tidy_andthen tidy_base tidy_make_plan tidy_append_speculation [OF C] tidy_append_prefills [OF C]
  have 1: "tidy (build_decodes_first C now)" unfolding build_decodes_first_def by (intro T; simp add: T split: prod.split)
  have 2: "tidy (build_prefills_first C now)" unfolding build_prefills_first_def by (intro T; simp add: T split: prod.split)
  have "tidy (build_continuous_batch C now)"
    unfolding tidy_def
  proof (intro allI impI)
    fix s w x s' w' assume ok: "refs_ok (s, w)" and e: "build_continuous_batch C now (s, w) = (x, (s', w'))"
    from e tidyD [OF 1 ok] tidyD [OF 2 ok] show "refs_ok (s', w') \<and> frame s s' \<and> world_next w w'"
      by (cases "decode_first s") (auto simp: build_continuous_batch_def)
  qed
  moreover have "tidy (build_decode_only C now)" unfolding build_decode_only_def by (intro T; simp add: T split: prod.split)
  moreover have "tidy (build_prefill_only C now)" unfolding build_prefill_only_def by (intro T; simp add: T split: prod.split)
  ultimately show ?thesis using b by (auto simp: builders_def split: if_splits)
qed

end
