(* ===== verification/Sched_Limits.thy ===== *)
theory Sched_Limits
  imports Sched_Termination Plan_Properties
begin

text \<open>
  Every step the scheduler hands to the runtime stays within the limits of the resolved plan:
  what the builders put into a candidate is what they took from the budget, and reshaping a
  refused step only takes away.
\<close>

section \<open>The rows of a plan\<close>

definition total_rows :: "BatchStepPlan \<Rightarrow> int" where
  "total_rows p = (\<Sum>sl\<leftarrow>slices p. query_count sl) + (\<Sum>q\<leftarrow>speculative p. effective_k q)"

definition draft_width :: "(string \<times> SpeculativeSlicePlan) list \<Rightarrow> ScheduledSlice \<Rightarrow> int" where
  "draft_width drafts sl = (case map_of drafts (sl_request_id sl) of None \<Rightarrow> 0 | Some q \<Rightarrow> effective_k q)"

lemma plan_rows_total:
  "plan_rows drafts i acc ss = Inr (exts, rows, att, n) \<Longrightarrow>
     n = acc + (\<Sum>sl\<leftarrow>ss. query_count sl) + (\<Sum>q\<leftarrow>exts. effective_k q) \<and>
     (\<Sum>q\<leftarrow>exts. effective_k q) = (\<Sum>sl\<leftarrow>ss. draft_width drafts sl)"
proof (induction ss arbitrary: i acc exts rows att n)
  case (Cons s ss)
  show ?case
  proof (cases "map_of drafts (sl_request_id s)")
    case None
    with Cons.prems obtain exts' rows' att' where "plan_rows drafts (i + 1) (acc + query_count s) ss = Inr (exts', rows', att', n)" "exts = exts'"
      by (auto simp: ebind_Inr_iff)
    from Cons.IH [OF this(1)] None this(2) show ?thesis by (simp add: draft_width_def)
  next
    case (Some q)
    with Cons.prems obtain q' exts' rows' att' where q: "with_slice_index i q = Inr q'"
      and r: "plan_rows drafts (i + 1) (acc + (query_count s + effective_k q)) ss = Inr (exts', rows', att', n)" "exts = q' # exts'"
      by (auto simp: ebind_Inr_iff)
    from q have "effective_k q' = effective_k q" by (auto simp: with_slice_index_def Let_def ebind_Inr_iff)
    with Cons.IH [OF r(1)] Some r(2) show ?thesis by (simp add: draft_width_def)
  qed
qed simp

lemma build_plan_total:
  assumes b: "build_plan p now k ss vs drafts = Inr q"
  shows "total_rows q = (\<Sum>sl\<leftarrow>ss. query_count sl) + (\<Sum>sl\<leftarrow>ss. draft_width drafts sl)"
    and "physical_token_slots (capabilities p) (total_rows q) = Inr (padded_num_tokens q)"
proof -
  from b obtain exts rows att n where r: "plan_rows drafts 0 0 ss = Inr (exts, rows, att, n)"
    and n: "physical_token_slots (capabilities p) n = Inr (padded_num_tokens q)" "speculative q = exts" "slices q = ss"
    by (auto simp: build_plan_def ebind_Inr_iff Let_def)
  with plan_rows_total [OF r] show "total_rows q = (\<Sum>sl\<leftarrow>ss. query_count sl) + (\<Sum>sl\<leftarrow>ss. draft_width drafts sl)"
    and "physical_token_slots (capabilities p) (total_rows q) = Inr (padded_num_tokens q)" by (auto simp: total_rows_def)
qed

text \<open>Each request takes at most its own draft.\<close>

lemma draft_width_le:
  assumes "distinct (map sl_request_id ss)" "\<forall>q\<in>snd ` set drafts. 0 \<le> effective_k q"
  shows "(\<Sum>sl\<leftarrow>ss. draft_width drafts sl) \<le> (\<Sum>(k, q)\<leftarrow>drafts. effective_k q)"
  using assms
proof (induction drafts)
  case Nil
  then show ?case by (simp add: draft_width_def)
next
  case (Cons d drafts)
  obtain k q where d: "d = (k, q)" by force
  have q: "0 \<le> effective_k q" "\<forall>q\<in>snd ` set drafts. 0 \<le> effective_k q" using Cons.prems d by auto
  have "(\<Sum>sl\<leftarrow>xs. draft_width (d # drafts) sl) \<le> (if k \<in> set (map sl_request_id xs) then effective_k q else 0) + (\<Sum>sl\<leftarrow>xs. draft_width drafts sl)"
    if "distinct (map sl_request_id xs)" for xs
    using that
  proof (induction xs)
    case (Cons x xs)
    have "0 \<le> draft_width drafts x" using q(2) map_of_SomeD
      by (force simp: draft_width_def split: option.split)
    with Cons q(1) show ?case by (auto simp: draft_width_def d split: option.splits)
  qed simp
  from this [OF Cons.prems(1)] Cons.IH [OF Cons.prems(1) q(2)] q(1) show ?case by (auto simp: d split: if_splits)
qed


section \<open>Reshaping stays within the limits\<close>

definition row_limit :: "ResolvedSchedulerPlan \<Rightarrow> int" where
  "row_limit P = (let b = budget_from_plan P in
     max_physical_tokens b - max_physical_tokens b mod token_padding_multiple (bb_capabilities b))"

definition fits :: "ResolvedSchedulerPlan \<Rightarrow> string set \<Rightarrow> BatchStepPlan \<Rightarrow> bool" where
  "fits P ids p \<longleftrightarrow>
     plan_validate p = Inr () \<and> total_rows p \<le> row_limit P \<and> int (length (slices p)) \<le> max_sequences (budget_from_plan P) \<and>
     physical_token_slots (capabilities P) (total_rows p) = Inr (padded_num_tokens p) \<and> set (request_order p) \<subseteq> ids"

lemma valid_drafts_nonneg:
  assumes v: "plan_validate p = Inr ()"
  shows "q \<in> set (speculative p) \<Longrightarrow> 0 \<le> effective_k q" "0 \<le> (\<Sum>q\<leftarrow>speculative p. effective_k q)"
proof -
  show e: "0 \<le> effective_k q" if "q \<in> set (speculative p)" for q using valid_plan(5) [OF v that] by (simp add: spec_ok_def)
  show "0 \<le> (\<Sum>q\<leftarrow>speculative p. effective_k q)" by (rule sum_list_nonneg) (use e in auto)
qed

lemma valid_slices_nonneg:
  assumes v: "plan_validate p = Inr ()"
  shows "\<forall>sl\<in>set (slices p). 0 \<le> query_count sl"
proof
  fix sl assume "sl \<in> set (slices p)"
  then obtain i where i: "i < length (slices p)" "slices p ! i = sl" by (auto simp: in_set_conv_nth)
  with valid_plan(6) [OF v i(1)] have "slice_validate sl = Inr ()" by (simp add: pair_ok_def)
  from slice_validate_Inr [OF this] show "0 \<le> query_count sl" by simp
qed

lemma fitsI:
  assumes f: "fits P ids plan" and b: "build_plan P now k ss vs drafts = Inr q"
    and len: "length ss \<le> length (slices plan)" and sub: "sl_request_id ` set ss \<subseteq> sl_request_id ` set (slices plan)"
    and rows: "(\<Sum>sl\<leftarrow>ss. query_count sl) \<le> (\<Sum>sl\<leftarrow>slices plan. query_count sl)"
    and drafts: "drafts = [] \<or> drafts = map (\<lambda>q. (sp_request_id q, q)) (speculative plan)"
  shows "fits P ids q"
proof -
  have v: "plan_validate plan = Inr ()" using f by (simp add: fits_def)
  note B = build_plan_Inr [OF b] and T = build_plan_total [OF b]
  have d: "distinct (map sl_request_id ss)" using valid_plan(7) [OF B(4)] by (simp add: request_order_def B(1))
  have "(\<Sum>sl\<leftarrow>ss. draft_width drafts sl) \<le> (\<Sum>(k, q)\<leftarrow>drafts. effective_k q)"
    by (rule draft_width_le [OF d]) (use drafts valid_drafts_nonneg(1) [OF v] in auto)
  also have "\<dots> \<le> (\<Sum>q\<leftarrow>speculative plan. effective_k q)"
    using drafts valid_drafts_nonneg(2) [OF v] by (auto simp: comp_def)
  finally have "total_rows q \<le> total_rows plan" using T(1) rows by (simp add: total_rows_def)
  moreover have "set (request_order q) \<subseteq> ids" using f sub by (auto simp: fits_def request_order_def B(1))
  ultimately show ?thesis using f B(1,4) T(2) len by (simp add: fits_def)
qed

lemma subseq_fits:
  fixes ss ts :: "ScheduledSlice list"
  assumes "subseq ss ts" "\<forall>sl\<in>set ts. 0 \<le> query_count sl"
  shows "length ss \<le> length ts" "sl_request_id ` set ss \<subseteq> sl_request_id ` set ts"
    "(\<Sum>sl\<leftarrow>ss. query_count sl) \<le> (\<Sum>sl\<leftarrow>ts. query_count sl)"
proof -
  show "length ss \<le> length ts" by (rule list_emb_length [OF assms(1)])
  show "sl_request_id ` set ss \<subseteq> sl_request_id ` set ts" using assms(1) by induction auto
  show "(\<Sum>sl\<leftarrow>ss. query_count sl) \<le> (\<Sum>sl\<leftarrow>ts. query_count sl)"
    using assms by induction (auto intro!: sum_list_nonneg)
qed

lemma sum_list_update_le:
  "i < length xs \<Longrightarrow> f y \<le> f (xs ! i) \<Longrightarrow> sum_list (map f (xs[i := y])) \<le> (sum_list (map f xs) :: int)"
proof (induction xs arbitrary: i)
  case (Cons x xs)
  then show ?case by (cases i) auto
qed simp

lemma shrink_fits:
  assumes f: "fits P ids plan" and e: "shrink_transient P now plan = Inr (Some q)"
  shows "fits P ids q"
proof -
  have v: "plan_validate plan = Inr ()" using f by (simp add: fits_def)
  note pos = valid_slices_nonneg [OF v]
  have sub: "fits P ids q" if "rebuild P now plan ss vs = Inr (Some q)" "subseq ss (slices plan)" for ss vs
    using that(1) subseq_fits [OF that(2) pos] by (auto simp: rebuild_def ebind_Inr_iff intro: fitsI [OF f])
  show ?thesis
  proof (cases "speculative plan = []")
    case False
    with e sub [of "slices plan"] show ?thesis by (auto simp: shrink_transient_def Let_def)
  next
    case spec: True
    show ?thesis
    proof (cases "pick_prefill plan None [0..<length (slices plan)]")
      case None
      with spec e have "rebuild P now plan (butlast (slices plan)) (butlast (inputs plan)) = Inr (Some q)"
        by (auto simp: shrink_transient_def Let_def split: if_splits)
      then show ?thesis by (rule sub) (rule prefix_imp_subseq [OF prefixeq_butlast])
    next
      case (Some i)
      then have i: "i < length (slices plan)" using pick_prefill_mem by fastforce
      show ?thesis
      proof (cases "query_count (slices plan ! i) > 1")
        case True
        with spec Some e obtain sl where b: "rebuild P now plan ((slices plan)[i := sl]) (inputs plan) = Inr (Some q)"
          and sl: "query_count sl = max 1 (query_count (slices plan ! i) div 2)" "sl_request_id sl = sl_request_id (slices plan ! i)"
          by (auto simp: shrink_transient_def Let_def ebind_Inr_iff mk_slice_Inr)
        have "query_count sl \<le> query_count (slices plan ! i)" using sl(1) True by simp
        moreover have "sl_request_id ` set ((slices plan)[i := sl]) \<subseteq> sl_request_id ` set (slices plan)"
          using set_update_subset_insert [of "slices plan" i sl] sl(2) i by fastforce
        ultimately show ?thesis using b i
          by (auto simp: rebuild_def ebind_Inr_iff intro: fitsI [OF f] sum_list_update_le)
      next
        case False
        with spec Some e have "rebuild P now plan (take i (slices plan) @ drop (Suc i) (slices plan))
            (take i (inputs plan) @ drop (Suc i) (inputs plan)) = Inr (Some q)"
          by (auto simp: shrink_transient_def Let_def split: if_splits)
        then show ?thesis by (rule sub) (rule subseq_drop_nth [OF i])
      qed
    qed
  qed
qed

lemma without_fits:
  assumes f: "fits P ids plan" and e: "without_request P now plan rid = Inr (Some q)"
  shows "fits P ids q"
proof -
  let ?pairs = "filter (\<lambda>(sl, _). sl_request_id sl \<noteq> rid) (zip (slices plan) (inputs plan))"
  have b: "build_plan P now (step_id plan) (map fst ?pairs) (map snd ?pairs)
      (map (\<lambda>q. (sp_request_id q, q)) (speculative plan)) = Inr q"
    using e by (auto simp: without_request_def Let_def ebind_Inr_iff split: if_splits)
  have v: "plan_validate plan = Inr ()" using f by (simp add: fits_def)
  note S = subseq_fits [OF zip_filter_subseq [of "\<lambda>(sl, _). sl_request_id sl \<noteq> rid" "slices plan" "inputs plan"] valid_slices_nonneg [OF v]]
  show ?thesis by (rule fitsI [OF f b S]) simp
qed

lemma after_refusal_fits:
  assumes C: "keeps_registry C" and ok: "refs_ok (s, w)" and P: "s_plan s = P" and f: "fits P ids cur"
    and e: "after_refusal C now cur err (s, w) = (Inr (Some q), (s', w'))"
  shows "fits P ids q"
  using C ok e
proof (cases rule: after_refusal_cases)
  case (refused r)
  with without_fits [OF f] P show ?thesis by blast
next
  case shrunk
  with shrink_fits [OF f] P show ?thesis by blast
next
  case (room v)
  with without_fits [OF f] f P show ?thesis by blast
qed


section \<open>Building stays within the limits\<close>

definition spends :: "BatchBudget \<Rightarrow> BatchBudget \<Rightarrow> int \<Rightarrow> int \<Rightarrow> bool" where
  "spends b b' n k \<longleftrightarrow>
     budget_ok b' \<and> max_physical_tokens b' = max_physical_tokens b \<and> max_sequences b' = max_sequences b \<and>
     bb_capabilities b' = bb_capabilities b \<and> logical_tokens b' = logical_tokens b + n \<and> bb_sequences b' = bb_sequences b + k"

lemma spends_refl: "budget_ok b \<Longrightarrow> spends b b 0 0"
  by (simp add: spends_def)

lemma spends_trans: "spends b b' n k \<Longrightarrow> spends b' b'' n' k' \<Longrightarrow> spends b b'' (n + n') (k + k')"
  by (simp add: spends_def)

lemma try_consume_spends:
  assumes b: "budget_ok b" and e: "try_consume n ph new b = (Inr ok, b')"
  shows "ok \<Longrightarrow> 1 \<le> n \<and> spends b b' n (of_bool new)" "\<not> ok \<Longrightarrow> b' = b"
proof -
  have n: "1 \<le> n" using e by (auto simp: try_consume_def require_int_def split: sum.splits if_splits)
  from e have c: "(if can_add n new b = Inr True then (Inr True, record_tokens n ph new b) else (Inr False, b)) = (Inr ok :: pyerror + bool, b')"
    unfolding try_consume_eq [OF b n] .
  show "1 \<le> n \<and> spends b b' n (of_bool new)" if ok
  proof -
    from c that have "can_add n new b = Inr True" "b' = record_tokens n ph new b" by (auto split: if_splits)
    with record_ok [OF b n] n show ?thesis by (auto simp: spends_def record_tokens_def Let_def)
  qed
  show "b' = b" if "\<not> ok" using c that by (auto split: if_splits)
qed

abbreviation row_sum :: "(ScheduledSlice \<times> RequestStepInput) list \<Rightarrow> int" where
  "row_sum rows \<equiv> (\<Sum>row\<leftarrow>rows. query_count (fst row))"

abbreviation row_ids :: "(ScheduledSlice \<times> RequestStepInput) list \<Rightarrow> string set" where
  "row_ids rows \<equiv> (\<lambda>row. sl_request_id (fst row)) ` set rows"

lemma decode_loop_spends:
  "decode_loop v busy_ids run ids b = Inr (b', rows) \<Longrightarrow> budget_ok b \<Longrightarrow>
   spends b b' (row_sum rows) (int (length rows)) \<and> row_ids rows \<inter> busy_ids = {}"
proof (induction ids arbitrary: b b' rows)
  case Nil
  then show ?case by (simp add: spends_refl)
next
  case (Cons rid ids)
  from Cons.prems(1) obtain r where r: "map_of run rid = Some r" by (cases "map_of run rid") auto
  let ?lc = "v r"
  show ?case
  proof (cases "is_terminal (machine ?lc) \<or> tok_cancelled (token ?lc) \<or> rq_id (request ?lc) \<in> busy_ids")
    case True
    with Cons.prems(1) r have "decode_loop v busy_ids run ids b = Inr (b', rows)" by (auto split: if_splits)
    from Cons.IH [OF this Cons.prems(2)] show ?thesis .
  next
    case live: False
    with Cons.prems(1) r obtain ok b1 where c: "try_consume 1 PhaseDecode True b = (Inr ok, b1)"
      by (auto split: sum.splits prod.splits)
    note S = try_consume_spends [OF Cons.prems(2) c]
    show ?thesis
    proof (cases ok)
      case False
      with Cons.prems(1) r live c S(2) have "b' = b" "rows = []" by auto
      with Cons.prems(2) show ?thesis by (simp add: spends_refl)
    next
      case True
      with Cons.prems(1) r live c obtain i rest where rest: "decode_loop v busy_ids run ids b1 = Inr (b', rest)"
        and rows: "rows = (\<lparr>sl_request_id = rq_id (request ?lc), sl_epoch = in_epoch i, expected_state_version = in_version i,
          query_start = in_computed i, query_count = 1, phase = PhaseDecode,
          sample_last_query = (in_computed i + 1 = int (length (in_known i)))\<rparr>, i) # rest"
        by (auto simp: ebind_Inr_iff mk_slice_Inr)
      have b1: "budget_ok b1" "spends b b1 1 1" using S(1) True by (simp_all add: spends_def)
      note IH = Cons.IH [OF rest b1(1)]
      from spends_trans [OF b1(2) conjunct1 [OF IH]] IH live show ?thesis by (simp add: rows)
    qed
  qed
qed

lemma choose_prefill_spends:
  assumes e: "choose_prefill C s w part b e = Inr (PC_Take sl i b1 is_last)" and b: "budget_ok b"
  shows "spends b b1 (query_count sl) 1 \<and> sl_request_id sl = entry_rid e"
proof -
  from e obtain chunk where c: "try_consume chunk PhasePrefill True b = (Inr True, b1)" and sl: "query_count sl = chunk" "sl_request_id sl = entry_rid e"
    by (auto simp: choose_prefill_def Let_def ebind_Inr_iff mk_slice_Inr split: if_splits sum.splits prod.splits)
  with try_consume_spends(1) [OF b c] show ?thesis by simp
qed


lemma prefill_loop_spends:
  "prefill_loop C part es b (s, w) = (Inr (b', rows), (s', w')) \<Longrightarrow> budget_ok b \<Longrightarrow>
   spends b b' (row_sum rows) (int (length rows)) \<and> row_ids rows \<subseteq> entry_rid ` set es"
proof (induction es arbitrary: part b s w b' rows)
  case Nil
  then show ?case by (simp add: spends_refl)
next
  case (Cons e es)
  show ?case
  proof (cases "remaining_sequences b \<le> 0 \<or> largest_fittable 1 True b = Inr 0")
    case True
    with Cons.prems(1) have "b' = b" "rows = []" by (auto simp: andthen_Inr split: if_splits)
    with Cons.prems(2) show ?thesis by (simp add: spends_refl)
  next
    case False
    with Cons.prems(1) obtain ready s1 w1 where p: "call_preparer C (entry_ref e) (s, w) = (Inr ready, (s1, w1))"
      and c: "(if \<not> ready then prefill_loop C part es b
          else andthen (ask (\<lambda>s w. choose_prefill C s w part b e)) (\<lambda>c.
            case c of
              PC_Skip \<Rightarrow> prefill_loop C part es b
            | PC_Bypass \<Rightarrow> andthen (own (mark_bypass e)) (\<lambda>_. prefill_loop C part es b)
            | PC_Reject \<Rightarrow>
                andthen (own (\<lambda>s. mark_bypass e (s\<lparr>admission_rejections := admission_rejections s + 1\<rparr>))) (\<lambda>_.
                prefill_loop C part es b)
            | PC_Take sl i b1 is_last \<Rightarrow>
                andthen (prefill_loop C (if is_last then part else insert (entry_rid e) part) es b1) (\<lambda>(b2, rest).
                ret (b2, (sl, i) # rest)))) (s1, w1) = (Inr (b', rows), (s', w'))"
      unfolding prefill_loop.simps by (auto simp: andthen_Inr split: if_splits)
    have skip: ?thesis if "prefill_loop C part es b (s2, w2) = (Inr (b', rows), (s', w'))" for s2 w2
      using Cons.IH [OF that Cons.prems(2)] by auto
    show ?thesis
    proof (cases ready)
      case False
      with c skip show ?thesis by simp
    next
      case True
      with c obtain d where d: "choose_prefill C s1 w1 part b e = Inr d" by (auto simp: andthen_Inr)
      show ?thesis
      proof (cases d)
        case (PC_Take sl i b1 is_last)
        with c True d obtain rest where r: "prefill_loop C (if is_last then part else insert (entry_rid e) part) es b1 (s1, w1) =
            (Inr (b', rest), (s', w'))" "rows = (sl, i) # rest"
          by (auto simp: andthen_Inr)
        note t = choose_prefill_spends [OF d [unfolded PC_Take] Cons.prems(2)]
        then have "budget_ok b1" by (simp add: spends_def)
        note IH = Cons.IH [OF r(1) this]
        from spends_trans [OF conjunct1 [OF t] conjunct1 [OF IH]] IH t show ?thesis unfolding r(2) by auto
      qed (use c True d skip in \<open>auto simp: andthen_Inr\<close>)
    qed
  qed
qed

lemma order_waiting_set:
  assumes "order_waiting v k now l name es = Inr ranked"
  shows "set ranked = set es"
proof -
  have "set (sort_by v key es) = set es" for key by (cases key) simp_all
  with assms show ?thesis by (auto simp: order_waiting_def rank_waiting_def ebind_Inr_iff split: if_splits)
qed

lemma append_prefills_spends:
  assumes e: "append_prefills C now b (s, w) = (Inr (b', rows), (s', w'))" and b: "budget_ok b"
  shows "spends b b' (row_sum rows) (int (length rows)) \<and> row_ids rows \<inter> inflight_ids_all s = {}"
proof (cases "remaining_sequences b \<le> 0 \<or> hot s = []")
  case True
  with e have "b' = b" "rows = []" by (simp_all add: append_prefills_def)
  with b show ?thesis by (simp add: spends_refl)
next
  case False
  define upd where "upd = (\<lambda>e. if eligible C now s w e \<and> hints_enabled C s then refresh_hint C w e else e)"
  from e False obtain v k l name ranked where o: "order_waiting v k now l name (map upd (filter (eligible C now s w) (hot s))) = Inr ranked"
    and p: "prefill_loop C (set (map fst (prefilling s))) (sort_key (\<lambda>e. entry_rid e \<notin> set (map fst (prefilling s))) ranked) b
      (s\<lparr>hot := map upd (hot s)\<rparr>, w) = (Inr (b', rows), (s', w'))"
    unfolding append_prefills_def upd_def Let_def by (auto simp: andthen_Inr)
  have "entry_rid (upd e) = entry_rid e" for e by (simp add: upd_def refresh_hint_def)
  then have "entry_rid ` set ranked \<inter> inflight_ids_all s = {}"
    unfolding order_waiting_set [OF o] by (auto simp: eligible_def Let_def)
  moreover have "set (sort_key (\<lambda>e. entry_rid e \<notin> set (map fst (prefilling s))) ranked) = set ranked" by simp
  ultimately show ?thesis using prefill_loop_spends [OF p b] by blast
qed

text \<open>Drafts.\<close>

abbreviation draft_sum :: "(string \<times> SpeculativeSlicePlan) list \<Rightarrow> int" where
  "draft_sum drafts \<equiv> (\<Sum>(k, q)\<leftarrow>drafts. effective_k q)"

lemma draft_sum_update:
  "\<forall>q\<in>snd ` set d. 0 \<le> effective_k q \<Longrightarrow> draft_sum (AList.update k q d) \<le> draft_sum d + effective_k q"
proof (induction d)
  case (Cons x d)
  obtain k1 q1 where x: "x = (k1, q1)" by (cases x)
  with Cons.prems have "0 \<le> effective_k q1" "\<forall>q\<in>snd ` set d. 0 \<le> effective_k q" by simp_all
  with Cons.IH x show ?case by simp
qed simp

lemma fit_drafts_spends:
  "fit_drafts qs b drafts = Inr (b', drafts') \<Longrightarrow> budget_ok b \<Longrightarrow> \<forall>q\<in>snd ` set drafts. 0 \<le> effective_k q \<Longrightarrow>
   \<exists>n. spends b b' n 0 \<and> draft_sum drafts' \<le> draft_sum drafts + n \<and> (\<forall>q\<in>snd ` set drafts'. 0 \<le> effective_k q)"
proof (induction qs arbitrary: b drafts)
  case Nil
  then show ?case by (intro exI [of _ 0]) (simp add: spends_refl)
next
  case (Cons q qs)
  from Cons.prems(1) obtain fit where fit: "largest_fittable (effective_k q) False b = Inr fit" by (auto simp: ebind_Inr_iff)
  show ?case
  proof (cases "fit \<le> 0")
    case True
    with Cons.prems(1) fit have "fit_drafts qs b drafts = Inr (b', drafts')" by simp
    from Cons.IH [OF this Cons.prems(2,3)] show ?thesis .
  next
    case False
    with Cons.prems(1) fit obtain q1 where q1: "(case try_consume (effective_k q1) PhaseDecode False b of
        (Inl e, _) \<Rightarrow> Inl e
      | (Inr ok, b1) \<Rightarrow> if \<not> ok then fit_drafts qs b1 drafts
          else fit_drafts qs b1 (AList.update (sp_request_id q1) q1 drafts)) = Inr (b', drafts')"
      by (auto simp: ebind_Inr_iff)
    then obtain ok b1 where c: "try_consume (effective_k q1) PhaseDecode False b = (Inr ok, b1)"
      and r: "(if \<not> ok then fit_drafts qs b1 drafts else fit_drafts qs b1 (AList.update (sp_request_id q1) q1 drafts)) = Inr (b', drafts')"
      by (cases "try_consume (effective_k q1) PhaseDecode False b"; cases "fst (try_consume (effective_k q1) PhaseDecode False b)") simp_all
    note S = try_consume_spends [OF Cons.prems(2) c]
    show ?thesis
    proof (cases ok)
      case False
      with r S(2) have "fit_drafts qs b drafts = Inr (b', drafts')" by simp
      from Cons.IH [OF this Cons.prems(2,3)] show ?thesis .
    next
      case True
      then have s: "1 \<le> effective_k q1" "spends b b1 (effective_k q1) 0" "budget_ok b1" using S(1) by (simp_all add: spends_def)
      have d: "\<forall>q\<in>snd ` set (AList.update (sp_request_id q1) q1 drafts). 0 \<le> effective_k q"
        using Cons.prems(3) s(1) set_update_subset [of "sp_request_id q1" q1 drafts] by fastforce
      from True r have "fit_drafts qs b1 (AList.update (sp_request_id q1) q1 drafts) = Inr (b', drafts')" by simp
      from Cons.IH [OF this s(3) d] obtain n where n: "spends b1 b' n 0"
        "draft_sum drafts' \<le> draft_sum (AList.update (sp_request_id q1) q1 drafts) + n" "\<forall>q\<in>snd ` set drafts'. 0 \<le> effective_k q" by blast
      with spends_trans [OF s(2) n(1)] draft_sum_update [OF Cons.prems(3), of "sp_request_id q1" q1] show ?thesis
        by (intro exI [of _ "effective_k q1 + n"]) simp
    qed
  qed
qed


lemma append_speculation_spends:
  assumes e: "append_speculation C b rows (s, w) = (Inr (b', drafts), (s', w'))" and b: "budget_ok b"
  shows "s' = s \<and> (\<exists>n. spends b b' n 0 \<and> draft_sum drafts \<le> n \<and> (\<forall>q\<in>snd ` set drafts. 0 \<le> effective_k q))"
proof (cases "drafts = [] \<and> b' = b \<and> s' = s")
  case True
  then show ?thesis by (auto intro!: exI [of _ 0] spends_refl b)
next
  case False
  with e obtain f cs qs where t: "fit_drafts qs b [] = Inr (b', drafts)"
    and o: "outside (f cs (sched_round s)) (s, w) = (Inr qs, (s', w'))"
    by (cases "propose C") (auto simp: append_speculation_def andthen_Inr split: if_splits)
  then have "s' = s" by (cases "f cs (sched_round s) w") (simp add: outside_def)
  with fit_drafts_spends [OF t b] show ?thesis by auto
qed

section \<open>Candidate steps fit\<close>

lemma make_plan_fits:
  assumes e: "make_plan now rows drafts (s, w) = (Inr (Some q), (s', w'))" and P: "s_plan s = P"
    and b: "spends (budget_from_plan P) b n (int (length rows))" and n: "row_sum rows + draft_sum drafts \<le> n"
    and d: "\<forall>q\<in>snd ` set drafts. 0 \<le> effective_k q" and ids: "row_ids rows \<subseteq> ids"
  shows "fits P ids q"
proof -
  from e P obtain k where q: "build_plan P now k (map fst rows) (map snd rows) drafts = Inr q"
    by (auto simp: make_plan_def andthen_Inr split: if_splits)
  note B = build_plan_Inr [OF q] and T = build_plan_total [OF q]
  have "distinct (map sl_request_id (map fst rows))" using valid_plan(7) [OF B(4)] by (simp add: request_order_def B(1))
  from draft_width_le [OF this d] T(1) n have "total_rows q \<le> n" by (simp add: case_prod_beta comp_def)
  moreover have "n \<le> row_limit P" "int (length rows) \<le> max_sequences (budget_from_plan P)"
    using b by (auto simp: spends_def budget_ok_def row_limit_def Let_def budget_from_plan_def)
  moreover have "set (request_order q) \<subseteq> ids" using ids by (auto simp: request_order_def B(1))
  ultimately show ?thesis using B(1,4) T(2) by (simp add: fits_def)
qed

lemma append_decodes_spends:
  assumes "append_decodes s w b = Inr (b', rows)" "budget_ok b"
  shows "spends b b' (row_sum rows) (int (length rows)) \<and> row_ids rows \<inter> inflight_ids_all s = {}"
  using assms decode_loop_spends by (auto simp: append_decodes_def spends_refl split: if_splits)

lemma build_decodes_first_fits:
  assumes C: "keeps_registry C" and ok: "refs_ok (s, w)" and b: "budget_ok (budget_from_plan (s_plan s))"
    and e: "build_decodes_first C now (s, w) = (Inr (Some q), (s', w'))"
  shows "fits (s_plan s) (- inflight_ids_all s) q"
proof -
  from e obtain b1 ds b2 drafts s2 w2 b3 ps s3 w3 where 1: "append_decodes s w (budget_from_plan (s_plan s)) = Inr (b1, ds)"
    and 2: "append_speculation C b1 ds (s, w) = (Inr (b2, drafts), (s2, w2))"
    and 3: "append_prefills C now b2 (s2, w2) = (Inr (b3, ps), (s3, w3))"
    and 4: "make_plan now (ds @ ps) drafts (s3, w3) = (Inr (Some q), (s', w'))"
    by (auto simp: build_decodes_first_def andthen_Inr)
  note A = append_decodes_spends [OF 1 b]
  then have "budget_ok b1" by (simp add: spends_def)
  with append_speculation_spends [OF 2] obtain n where B: "s2 = s" "spends b1 b2 n 0" "draft_sum drafts \<le> n"
    "\<forall>q\<in>snd ` set drafts. 0 \<le> effective_k q" by blast
  then have "budget_ok b2" by (simp add: spends_def)
  note D = append_prefills_spends [OF 3 this]
  have f: "s_plan s3 = s_plan s"
    using tidyD [OF tidy_append_prefills [OF C] _ 3] tidyD [OF tidy_append_speculation [OF C] ok 2] B(1) by (simp add: frame_def)
  have S: "spends (budget_from_plan (s_plan s)) b3 (row_sum ds + n + row_sum ps) (int (length (ds @ ps)))"
    using spends_trans [OF spends_trans [OF conjunct1 [OF A] B(2)] conjunct1 [OF D]] by simp
  have "row_ids (ds @ ps) \<subseteq> - inflight_ids_all s" using A D B(1) by auto
  then show ?thesis using B(3) f by (intro make_plan_fits [OF 4 _ S _ B(4)]) simp_all
qed

lemma build_prefills_first_fits:
  assumes C: "keeps_registry C" and ok: "refs_ok (s, w)" and b: "budget_ok (budget_from_plan (s_plan s))"
    and e: "build_prefills_first C now (s, w) = (Inr (Some q), (s', w'))"
  shows "fits (s_plan s) (- inflight_ids_all s) q"
proof -
  from e obtain b1 ps s1 w1 b2 ds b3 drafts s3 w3 where
      1: "append_prefills C now (budget_from_plan (s_plan s)) (s, w) = (Inr (b1, ps), (s1, w1))"
    and 2: "append_decodes s1 w1 b1 = Inr (b2, ds)"
    and 3: "append_speculation C b2 (ps @ ds) (s1, w1) = (Inr (b3, drafts), (s3, w3))"
    and 4: "make_plan now (ps @ ds) drafts (s3, w3) = (Inr (Some q), (s', w'))"
    by (auto simp: build_prefills_first_def andthen_Inr)
  note A = append_prefills_spends [OF 1 b]
  then have "budget_ok b1" by (simp add: spends_def)
  note B = append_decodes_spends [OF 2 this]
  then have "budget_ok b2" by (simp add: spends_def)
  with append_speculation_spends [OF 3] obtain n where D: "s3 = s1" "spends b2 b3 n 0" "draft_sum drafts \<le> n"
    "\<forall>q\<in>snd ` set drafts. 0 \<le> effective_k q" by blast
  have f: "s_plan s3 = s_plan s" "inflight_ids_all s1 = inflight_ids_all s"
    using tidyD [OF tidy_append_prefills [OF C] ok 1] D(1) by (simp_all add: frame_def)
  have S: "spends (budget_from_plan (s_plan s)) b3 (row_sum ps + row_sum ds + n) (int (length (ps @ ds)))"
    using spends_trans [OF spends_trans [OF conjunct1 [OF A] conjunct1 [OF B]] D(2)] by simp
  have "row_ids (ps @ ds) \<subseteq> - inflight_ids_all s" using A B f(2) by auto
  then show ?thesis using D(3) f(1) by (intro make_plan_fits [OF 4 _ S _ D(4)]) simp_all
qed

lemma build_decode_only_fits:
  assumes b: "budget_ok (budget_from_plan (s_plan s))" and e: "build_decode_only C now (s, w) = (Inr (Some q), (s', w'))"
  shows "fits (s_plan s) (- inflight_ids_all s) q"
proof -
  from e obtain b1 ds b2 drafts s2 w2 where 1: "append_decodes s w (budget_from_plan (s_plan s)) = Inr (b1, ds)"
    and 2: "append_speculation C b1 ds (s, w) = (Inr (b2, drafts), (s2, w2))"
    and 4: "make_plan now ds drafts (s2, w2) = (Inr (Some q), (s', w'))"
    by (auto simp: build_decode_only_def andthen_Inr)
  note A = append_decodes_spends [OF 1 b]
  then have "budget_ok b1" by (simp add: spends_def)
  with append_speculation_spends [OF 2] obtain n where B: "s2 = s" "spends b1 b2 n 0" "draft_sum drafts \<le> n"
    "\<forall>q\<in>snd ` set drafts. 0 \<le> effective_k q" by blast
  have S: "spends (budget_from_plan (s_plan s)) b2 (row_sum ds + n) (int (length ds))"
    using spends_trans [OF conjunct1 [OF A] B(2)] by simp
  have "row_ids ds \<subseteq> - inflight_ids_all s" using A by auto
  then show ?thesis using B(1,3) by (intro make_plan_fits [OF 4 _ S _ B(4)]) simp_all
qed

lemma build_prefill_only_fits:
  assumes C: "keeps_registry C" and ok: "refs_ok (s, w)" and b: "budget_ok (budget_from_plan (s_plan s))"
    and e: "build_prefill_only C now (s, w) = (Inr (Some q), (s', w'))"
  shows "fits (s_plan s) (- inflight_ids_all s) q"
proof -
  from e obtain b1 ps s1 w1 where
      1: "append_prefills C now (budget_from_plan (s_plan s)) (s, w) = (Inr (b1, ps), (s1, w1))"
    and 4: "make_plan now ps [] (s1, w1) = (Inr (Some q), (s', w'))"
    by (auto simp: build_prefill_only_def andthen_Inr)
  note A = append_prefills_spends [OF 1 b]
  have f: "s_plan s1 = s_plan s" using tidyD [OF tidy_append_prefills [OF C] ok 1] by (simp add: frame_def)
  with A show ?thesis by (intro make_plan_fits [OF 4, of _ b1 "row_sum ps"]) auto
qed

lemma builders_fit:
  assumes C: "keeps_registry C" and ok: "refs_ok (s, w)" and b: "budget_ok (budget_from_plan (s_plan s))"
    and f: "f \<in> set (builders C now s0)" and e: "f (s, w) = (Inr (Some q), (s', w'))"
  shows "fits (s_plan s) (- inflight_ids_all s) q"
proof -
  from f consider "f = build_continuous_batch C now" | "f = build_decode_only C now" | "f = build_prefill_only C now"
    by (auto simp: builders_def split: if_splits)
  then show ?thesis
  proof cases
    case 1
    then show ?thesis
      using e build_decodes_first_fits [OF C ok b] build_prefills_first_fits [OF C ok b]
      by (cases "decode_first s") (auto simp: build_continuous_batch_def)
  next
    case 2
    with e show ?thesis using build_decode_only_fits [OF b] by blast
  next
    case 3
    with e show ?thesis using build_prefill_only_fits [OF C ok b] by blast
  qed
qed

end
