(* ===== verification/Sched_Steps.thy ===== *)
theory Sched_Steps
  imports Sched_Limits
begin

text \<open>
  One round of the continuous scheduler as a whole: what \<open>schedule()\<close> has done when it comes
  back, with a ticket or without.
\<close>

section \<open>Tickets\<close>

text \<open>
  Every ticket in flight has its requests and, for each of them, exactly one slice; no request
  is in flight under two tickets; there are at most as many tickets as the plan allows.
\<close>

definition ticket_ok :: "Scheduler \<Rightarrow> int \<Rightarrow> string set \<Rightarrow> bool" where
  "ticket_ok s t ids \<longleftrightarrow> ids \<noteq> {} \<and>
     (\<exists>items. map_of (inflight_slices s) t = Some items \<and> distinct (map inf_request_id items) \<and> set (map inf_request_id items) = ids)"

definition flights_ok :: "Scheduler \<Rightarrow> bool" where
  "flights_ok s \<longleftrightarrow>
     distinct (map fst (inflight_requests s)) \<and> inflight_ids_all s = \<Union> (snd ` set (inflight_requests s)) \<and>
     (\<forall>(t, ids)\<in>set (inflight_requests s). ticket_ok s t ids) \<and>
     (\<forall>(t, ids)\<in>set (inflight_requests s). \<forall>(t', ids')\<in>set (inflight_requests s). t \<noteq> t' \<longrightarrow> ids \<inter> ids' = {}) \<and>
     fst ` set (inflight_slices s) = fst ` set (inflight_requests s) \<and>
     int (length (inflight_requests s)) \<le> max_inflight (s_plan s)"

lemma flights_frame: "flights_ok s \<Longrightarrow> frame s s' \<Longrightarrow> flights_ok s'"
  unfolding flights_ok_def frame_def ticket_ok_def by simp

lemma flights_okD:
  assumes "flights_ok s"
  shows "distinct (map fst (inflight_requests s))" "inflight_ids_all s = \<Union> (snd ` set (inflight_requests s))"
    "\<forall>(t, ids)\<in>set (inflight_requests s). ticket_ok s t ids"
    "\<forall>(t, ids)\<in>set (inflight_requests s). \<forall>(t', ids')\<in>set (inflight_requests s). t \<noteq> t' \<longrightarrow> ids \<inter> ids' = {}"
    "fst ` set (inflight_slices s) = fst ` set (inflight_requests s)" "int (length (inflight_requests s)) \<le> max_inflight (s_plan s)"
  using assms unfolding flights_ok_def by - (elim conjE, assumption)+

text \<open>A new ticket.\<close>

definition boards :: "BatchStepPlan \<Rightarrow> int \<Rightarrow> Scheduler \<Rightarrow> Scheduler \<Rightarrow> bool" where
  "boards cur t s s' \<longleftrightarrow>
     map_of (inflight_requests s) t = None \<and> set (request_order cur) \<noteq> {} \<and> s_plan s' = s_plan s \<and>
     inflight_requests s' = AList.update t (set (request_order cur)) (inflight_requests s) \<and>
     inflight_ids_all s' = inflight_ids_all s \<union> set (request_order cur) \<and>
     inflight_slices s' = AList.update t (map inflight_slice (zip (slices cur) (inputs cur))) (inflight_slices s) \<and>
     last_step s' = Some cur"

lemma update_new: "map_of d k = None \<Longrightarrow> AList.update k v d = d @ [(k, v)]"
  by (induction d) (auto split: if_splits)

lemma disjoint_snoc:
  assumes "\<forall>(t, ids)\<in>set xs. \<forall>(t', ids')\<in>set xs. t \<noteq> t' \<longrightarrow> ids \<inter> ids' = {}" "\<And>k ids. (k, ids) \<in> set xs \<Longrightarrow> new \<inter> ids = {}"
  shows "\<forall>(t, ids)\<in>set (xs @ [(n, new)]). \<forall>(t', ids')\<in>set (xs @ [(n, new)]). t \<noteq> t' \<longrightarrow> ids \<inter> ids' = {}"
proof -
  have "x \<notin> ids" if "(k, ids) \<in> set xs" "x \<in> new" for k ids x using assms(2) [OF that(1)] that(2) by blast
  with assms(1) show ?thesis by (auto simp: split_beta)
qed

lemma boards_flights:
  assumes ok: "flights_ok s" and b: "boards cur t s s'" and f: "fits P (- inflight_ids_all s) cur"
    and n: "int (length (inflight_requests s)) < max_inflight (s_plan s)"
  shows "flights_ok s'"
proof -
  note F = flights_okD [OF ok]
  let ?ids = "set (request_order cur)" and ?items = "map inflight_slice (zip (slices cur) (inputs cur))"
  have v: "plan_validate cur = Inr ()" and new: "?ids \<inter> inflight_ids_all s = {}" using f by (auto simp: fits_def)
  have len: "length (slices cur) = length (inputs cur)" using valid_plan(1) [OF v] by simp
  have "map inf_request_id ?items = request_order cur"
    using len by (auto simp: request_order_def inflight_slice_def comp_def map_fst_zip_take intro: nth_equalityI)
  then have items: "distinct (map inf_request_id ?items)" "set (map inf_request_id ?items) = ?ids"
    using valid_plan(7) [OF v] by simp_all
  have none: "map_of (inflight_requests s) t = None" using b by (simp add: boards_def)
  then have t: "t \<notin> fst ` set (inflight_requests s)" by (simp add: map_of_eq_None_iff)
  have req: "inflight_requests s' = inflight_requests s @ [(t, ?ids)]" using b none by (simp add: boards_def update_new)
  have new_slices: "inflight_slices s' = AList.update t ?items (inflight_slices s)" "s_plan s' = s_plan s" "?ids \<noteq> {}"
    "inflight_ids_all s' = inflight_ids_all s \<union> ?ids"
    using b by (simp_all add: boards_def)
  have old: "ticket_ok s' k ids" if "(k, ids) \<in> set (inflight_requests s)" for k ids
  proof -
    have "k \<noteq> t" using t that by force
    moreover have "ticket_ok s k ids" using F(3) that by blast
    ultimately show ?thesis by (simp add: ticket_ok_def new_slices update_conv')
  qed
  have "map_of (inflight_slices s') t = Some ?items" by (simp add: new_slices update_conv')
  then have this_one: "ticket_ok s' t ?ids" using new_slices(3) items unfolding ticket_ok_def by blast
  have dis: "?ids \<inter> ids = {}" if "(k, ids) \<in> set (inflight_requests s)" for k ids
    using that new unfolding F(2) by force
  show ?thesis
    unfolding flights_ok_def req new_slices
  proof (intro conjI)
    show "distinct (map fst (inflight_requests s @ [(t, ?ids)]))" using F(1) t by simp
    show "inflight_ids_all s \<union> ?ids = \<Union> (snd ` set (inflight_requests s @ [(t, ?ids)]))" by (auto simp: F(2))
    show "\<forall>(k, ids)\<in>set (inflight_requests s @ [(t, ?ids)]). ticket_ok s' k ids" using old this_one by auto
    show "\<forall>(k, ids)\<in>set (inflight_requests s @ [(t, ?ids)]). \<forall>(t', ids')\<in>set (inflight_requests s @ [(t, ?ids)]). k \<noteq> t' \<longrightarrow> ids \<inter> ids' = {}"
      by (rule disjoint_snoc [OF F(4)]) (rule dis)
    show "fst ` set (AList.update t ?items (inflight_slices s)) = fst ` set (inflight_requests s @ [(t, ?ids)])"
      unfolding fst_update F(5) by simp
    show "int (length (inflight_requests s @ [(t, ?ids)])) \<le> max_inflight (s_plan s)" using n by simp
  qed
qed

section \<open>Adopting a step\<close>

lemma found_names:
  assumes "mgr_inv (fst w)" "find (registry w) rid = Some r"
  shows "names w r rid"
proof -
  obtain g ep x where w: "w = ((g, ep), x)" by (metis surj_pair)
  from assms tables_okD(1,2) [OF mgr_invD(4), of g ep rid r] show ?thesis
    by (auto simp: w names_def store_len_def registry_def view_def find_def split: option.splits)
qed

lemma tidy_take_prefill: "tidy (take_prefill sl)"
  unfolding tidy_def
proof (intro allI impI)
  fix s w x s' w' assume ok: "refs_ok (s, w)" and e: "take_prefill sl (s, w) = (x, (s', w'))"
  let ?s1 = "waiting_remove (sl_request_id sl) s"
  have q: "queues_ok ?s1" using ok waiting_remove_queues by (simp add: refs_ok_def)
  have ok1: "refs_ok (?s1, w)"
    by (rule refs_ok_mono [OF ok]) (use q set_delete_first in \<open>auto simp: waiting_remove_def\<close>)
  show "refs_ok (s', w') \<and> frame s s' \<and> world_next w w'"
  proof (cases "phase sl \<noteq> PhasePrefill")
    case True
    with e ok show ?thesis by (auto simp: take_prefill_def)
  next
    case False
    show ?thesis
    proof (cases "find (registry w) (sl_request_id sl)")
      case None
      with e False have "s' = ?s1" "w' = w" by (auto simp: take_prefill_def andthen_def lc_get_def)
      with ok1 show ?thesis by simp
    next
      case (Some r)
      with e False have s': "s' = ?s1\<lparr>prefilling := AList.update (sl_request_id sl) r (prefilling ?s1)\<rparr>" "w' = w"
        by (auto simp: take_prefill_def andthen_def lc_get_def)
      have "names w r (sl_request_id sl)" using ok found_names [OF _ Some] by (simp add: refs_ok_def)
      then have "refs_ok (s', w)"
        using ok1 set_update_subset [of "sl_request_id sl" r "prefilling ?s1"]
        by (fastforce simp: refs_ok_def s'(1) queues_ok_def)
      moreover have "frame s s'" using waiting_remove_frame(1) [of s] by (simp add: s'(1) frame_def)
      ultimately show ?thesis using s'(2) by simp
    qed
  qed
qed

lemma tidy_for_each: "(\<And>x. tidy (f x)) \<Longrightarrow> tidy (for_each f xs)"
proof (induction xs)
  case Nil
  then show ?case by (simp add: tidy_def)
next
  case (Cons x xs)
  have "for_each f (x # xs) = andthen (f x) (\<lambda>_. for_each f xs)" by (rule ext) (simp add: andthen_def)
  with Cons show ?case by (simp add: tidy_andthen)
qed


lemma recover_chunk_cap_same [simp]:
  "s_plan (recover_chunk_cap s) = s_plan s"
  "running (recover_chunk_cap s) = running s"
  "prefilling (recover_chunk_cap s) = prefilling s"
  "hot (recover_chunk_cap s) = hot s"
  "staging (recover_chunk_cap s) = staging s"
  "inflight_requests (recover_chunk_cap s) = inflight_requests s"
  "inflight_ids_all (recover_chunk_cap s) = inflight_ids_all s"
  "inflight_slices (recover_chunk_cap s) = inflight_slices s"
  "last_step (recover_chunk_cap s) = last_step s"
  "running_ids (recover_chunk_cap s) = running_ids s"
  "running_index (recover_chunk_cap s) = running_index s"
  "decode_cursor (recover_chunk_cap s) = decode_cursor s"
  by (simp_all add: recover_chunk_cap_def Let_def split: option.split)

lemma advance_decode_cursor_same [simp]:
  "s_plan (advance_decode_cursor ss s) = s_plan s"
  "running (advance_decode_cursor ss s) = running s"
  "prefilling (advance_decode_cursor ss s) = prefilling s"
  "hot (advance_decode_cursor ss s) = hot s"
  "staging (advance_decode_cursor ss s) = staging s"
  "inflight_requests (advance_decode_cursor ss s) = inflight_requests s"
  "inflight_ids_all (advance_decode_cursor ss s) = inflight_ids_all s"
  "inflight_slices (advance_decode_cursor ss s) = inflight_slices s"
  "last_step (advance_decode_cursor ss s) = last_step s"
  by (simp_all add: advance_decode_cursor_def split: option.split)

text \<open>The state of the scheduler once the runtime has adopted a step under a new ticket.\<close>

definition boarded :: "BatchStepPlan \<Rightarrow> int \<Rightarrow> Scheduler \<Rightarrow> Scheduler" where
  "boarded cur t s =
     (let s1 = recover_chunk_cap (advance_decode_cursor (slices cur)
          (s\<lparr>inflight_requests := AList.update t (set (request_order cur)) (inflight_requests s),
             inflight_ids_all := inflight_ids_all s \<union> set (request_order cur), service_round := service_round s + 1\<rparr>)) in
      s1\<lparr>last_step := Some cur,
         inflight_slices := AList.update t (map inflight_slice (zip (slices cur) (inputs cur))) (inflight_slices s1),
         resource_blocked := False\<rparr>)"

lemma adopt_step_eq:
  assumes "rt_adopt C cur w = (y, w1)"
  shows "adopt_step C cur (s, w) =
    (case y of
       Inl e \<Rightarrow> (Inl e, (s, w1))
     | Inr t \<Rightarrow>
         if set (request_order cur) = {} \<or> map_of (inflight_requests s) t \<noteq> None then (Inl ValueError, (s, w1))
         else case for_each take_prefill (slices cur) (boarded cur t s, w1) of
           (Inl e, st) \<Rightarrow> (Inl e, st)
         | (Inr _, st) \<Rightarrow> (Inr t, st))"
proof (cases y)
  case (Inl e)
  with assms show ?thesis by (simp add: adopt_step_def andthen_def outside_def)
next
  case (Inr t)
  with assms show ?thesis
    by (cases "set (request_order cur) = {}"; cases "map_of (inflight_requests s) t")
      (simp_all add: adopt_step_def andthen_def outside_def set_inflight_def boarded_def Let_def split: prod.split sum.split)
qed

lemma boarded_facts:
  assumes "queues_ok s" "set (request_order cur) \<noteq> {}" "map_of (inflight_requests s) t = None"
  shows "boards cur t s (boarded cur t s)" "queues_ok (boarded cur t s)" "running (boarded cur t s) = running s"
    "prefilling (boarded cur t s) = prefilling s" "hot (boarded cur t s) = hot s" "staging (boarded cur t s) = staging s"
proof -
  show "boards cur t s (boarded cur t s)" using assms(2,3) by (simp add: boards_def boarded_def Let_def)
  have "queues_ok (s\<lparr>inflight_requests := AList.update t (set (request_order cur)) (inflight_requests s),
      inflight_ids_all := inflight_ids_all s \<union> set (request_order cur), service_round := service_round s + 1\<rparr>)"
    using assms(1) by (simp add: queues_ok_def)
  from advance_decode_cursor_facts [OF this, of "slices cur"] show "queues_ok (boarded cur t s)"
    by (simp add: boarded_def Let_def queues_ok_def)
qed (simp_all add: boarded_def Let_def)

lemma adopt_step_facts:
  assumes C: "keeps_registry C" and ok: "refs_ok (s, w)" and e: "adopt_step C cur (s, w) = (x, (s', w'))"
  shows "refs_ok (s', w') \<and> world_next w w' \<and>
    (frame s s' \<and> (\<exists>e. x = Inl e) \<or> (\<exists>t. boards cur t s s' \<and> (\<forall>k. x = Inr k \<longrightarrow> k = t)))"
proof -
  obtain y w1 where y: "rt_adopt C cur w = (y, w1)" by (metis surj_pair)
  then have w1: "world_next w w1" using C unfolding keeps_registry_def by (metis snd_conv)
  have q: "queues_ok s" using ok by (simp add: refs_ok_def)
  have ok1: "refs_ok (s, w1)" by (rule refs_ok_mono [OF ok w1]) (simp_all add: q)
  show ?thesis
  proof (cases y)
    case (Inl err)
    with e y have "s' = s" "w' = w1" "x = Inl err" by (simp_all add: adopt_step_eq [OF y])
    with ok1 w1 show ?thesis by simp
  next
    case (Inr t)
    let ?ids = "set (request_order cur)"
    show ?thesis
    proof (cases "?ids = {} \<or> map_of (inflight_requests s) t \<noteq> None")
      case True
      with e Inr have "s' = s" "w' = w1" "x = Inl ValueError" by (simp_all add: adopt_step_eq [OF y])
      with ok1 w1 show ?thesis by simp
    next
      case False
      then have n: "?ids \<noteq> {}" "map_of (inflight_requests s) t = None" by simp_all
      obtain z st where z: "for_each take_prefill (slices cur) (boarded cur t s, w1) = (z, st)" by (rule prod.exhaust)
      have "adopt_step C cur (s, w) = (case z of Inl e \<Rightarrow> (Inl e, st) | Inr _ \<Rightarrow> (Inr t, st))"
        unfolding adopt_step_eq [OF y] using n by (simp add: Inr z)
      with e have x: "st = (s', w')" "\<forall>k. x = Inr k \<longrightarrow> k = t" by (cases z; auto)+
      note B = boarded_facts [OF q n]
      have "refs_ok (boarded cur t s, w1)" by (rule refs_ok_mono [OF ok1]) (simp_all add: B)
      note F = tidyD [OF tidy_for_each [OF tidy_take_prefill] this z [unfolded x(1)]]
      with B(1) have "boards cur t s s'" by (simp add: boards_def frame_def)
      with F x(2) w1 show ?thesis using world_next_trans by blast
    qed
  qed
qed


section \<open>A round\<close>

lemma boards_frame: "frame s s1 \<Longrightarrow> boards cur t s1 s' \<Longrightarrow> boards cur t s s'"
  unfolding boards_def frame_def by simp

definition with_burst :: "BatchStepPlan \<Rightarrow> Scheduler \<Rightarrow> Scheduler" where
  "with_burst plan s = s\<lparr>decode_burst := (if is_pure_decode plan then decode_burst s + 1 else 0)\<rparr>"

lemma with_burst_facts:
  "refs_ok (s, w) \<Longrightarrow> refs_ok (with_burst plan s, w)" "frame s (with_burst plan s)"
  by (simp_all add: with_burst_def refs_ok_def frame_def queues_ok_def)

text \<open>What a round comes back with: nothing is in flight that was not, or one more ticket is.\<close>

definition round_result ::
  "(BatchStepPlan \<Rightarrow> bool) \<Rightarrow> Scheduler \<Rightarrow> 'w world \<Rightarrow> (pyerror + int option) \<times> 'w sched_state \<Rightarrow> bool" where
  "round_result Q s w res \<longleftrightarrow> (case res of (x, (s', w')) \<Rightarrow> refs_ok (s', w') \<and> world_next w w' \<and>
     (frame s s' \<and> (\<forall>t. x \<noteq> Inr (Some t)) \<or> (\<exists>cur t. Q cur \<and> boards cur t s s' \<and> (\<forall>k. x = Inr k \<longrightarrow> k = Some t))))"

lemma round_result_later:
  "frame s s1 \<Longrightarrow> world_next w w1 \<Longrightarrow> round_result Q s1 w1 res \<Longrightarrow> round_result Q s w res"
  unfolding round_result_def by (cases res) (simp split: prod.split, meson boards_frame frame_trans world_next_trans)

lemma finish_round:
  assumes C: "keeps_registry C" and ok: "refs_ok (s, w)" and Q: "Q cur"
  shows "round_result Q s w (andthen (adopt_step C cur) (\<lambda>ticket. andthen (own (with_burst plan)) (\<lambda>_. ret (Some ticket))) (s, w))"
proof -
  obtain x st where a: "adopt_step C cur (s, w) = (x, st)" by (rule prod.exhaust)
  obtain s' w' where st: "st = (s', w')" by (rule prod.exhaust)
  note F = adopt_step_facts [OF C ok a [unfolded st]]
  show ?thesis
  proof (cases x)
    case (Inl e)
    with F have "round_result Q s w (Inl e, (s', w'))" using Q unfolding round_result_def by auto
    with a Inl st show ?thesis by (simp add: andthen_def)
  next
    case (Inr t)
    with F have b: "boards cur t s s'" by auto
    have "boards cur t s (with_burst plan s')" using b with_burst_facts(2) [of s' plan] by (simp add: boards_def frame_def)
    moreover have "refs_ok (with_burst plan s', w')" using F with_burst_facts(1) by blast
    ultimately have "round_result Q s w (Inr (Some t), (with_burst plan s', w'))" using F Q unfolding round_result_def by auto
    with a Inr st show ?thesis by (simp add: andthen_def)
  qed
qed

lemma try_candidates_returns:
  assumes C: "keeps_registry C"
    and Q: "\<And>cur err s w q s' w'. refs_ok (s, w) \<Longrightarrow> s_plan s = P \<Longrightarrow> Q cur \<Longrightarrow>
      after_refusal C now cur err (s, w) = (Inr (Some q), (s', w')) \<Longrightarrow> Q q"
  shows "(\<And>b. b \<in> set bs \<Longrightarrow> tidy b) \<Longrightarrow>
    (\<And>b s w q s' w'. b \<in> set bs \<Longrightarrow> refs_ok (s, w) \<Longrightarrow> s_plan s = P \<Longrightarrow> inflight_ids_all s = I \<Longrightarrow>
      b (s, w) = (Inr (Some q), (s', w')) \<Longrightarrow> Q q) \<Longrightarrow>
    refs_ok (s, w) \<Longrightarrow> s_plan s = P \<Longrightarrow> inflight_ids_all s = I \<Longrightarrow>
    \<exists>res. try_candidates C now bs (s, w) = Some res \<and> round_result Q s w res"
proof (induction bs arbitrary: s w)
  case Nil
  then show ?case by (simp add: round_result_def)
next
  case (Cons b bs)
  obtain x st where x: "b (s, w) = (x, st)" by (rule prod.exhaust)
  obtain s1 w1 where st: "st = (s1, w1)" by (rule prod.exhaust)
  have "tidy b" using Cons.prems(1) by simp
  note B = tidyD [OF this Cons.prems(3) x [unfolded st]]
  have f1: "s_plan s1 = P" "inflight_ids_all s1 = I" using B Cons.prems(4,5) by (simp_all add: frame_def)
  have go_on: "\<exists>res. try_candidates C now bs (s2, w2) = Some res \<and> round_result Q s w res"
    if "refs_ok (s2, w2)" "frame s s2" "world_next w w2" for s2 w2
  proof -
    have "s_plan s2 = P" "inflight_ids_all s2 = I" using that(2) Cons.prems(4,5) by (simp_all add: frame_def)
    then have "\<exists>res. try_candidates C now bs (s2, w2) = Some res \<and> round_result Q s2 w2 res"
    proof (intro Cons.IH that(1))
      show "tidy c" if "c \<in> set bs" for c using Cons.prems(1) that by simp
      show "Q q" if "c \<in> set bs" "refs_ok (s, w)" "s_plan s = P" "inflight_ids_all s = I" "c (s, w) = (Inr (Some q), (s', w'))" for c s w q s' w'
        using Cons.prems(2) [of c s w q s' w'] that by simp
    qed
    with round_result_later [OF that(2,3)] show ?thesis by blast
  qed
  show ?case
  proof (cases x)
    case (Inl e)
    with B have "round_result Q s w (Inl e, (s1, w1))" by (simp add: round_result_def)
    with Inl x st show ?thesis by simp
  next
    case (Inr r)
    show ?thesis
    proof (cases r)
      case None
      with Inr x st go_on B show ?thesis by simp
    next
      case (Some plan)
      with Inr x st have "b (s, w) = (Inr (Some plan), (s1, w1))" by simp
      with Cons.prems(2) [of b s w plan s1 w1] Cons.prems(3-5) have "Q plan" by simp
      have "\<exists>x s' w'. prepare_loop C now plan (s1, w1) = Some (x, (s', w')) \<and> refs_ok (s', w') \<and> frame s1 s' \<and> world_next w1 w' \<and>
          (\<forall>p. x = Inr (Some p) \<longrightarrow> Q p)"
        by (rule prepare_loop_returns [where P = P, OF C]) (use Q B f1 \<open>Q plan\<close> in blast)+
      then obtain y s2 w2 where
        y: "prepare_loop C now plan (s1, w1) = Some (y, (s2, w2))" "refs_ok (s2, w2)" "frame s1 s2" "world_next w1 w2" "\<forall>p. y = Inr (Some p) \<longrightarrow> Q p"
        by blast
      have f2: "frame s s2" "world_next w w2" using B y frame_trans world_next_trans by blast+
      show ?thesis
      proof (cases y)
        case (Inl e)
        with y f2 have "round_result Q s w (Inl e, (s2, w2))" by (simp add: round_result_def)
        with Inl y(1) Inr Some x st show ?thesis by simp
      next
        case (Inr p)
        show ?thesis
        proof (cases p)
          case None
          with Inr y(1,2) \<open>x = Inr r\<close> Some x st go_on f2 show ?thesis by simp
        next
          case (Some cur)
          then have "round_result Q s w (andthen (adopt_step C cur) (\<lambda>ticket.
              andthen (own (with_burst plan)) (\<lambda>_. ret (Some ticket))) (s2, w2))"
            using finish_round [OF C y(2)] y(5) Inr round_result_later [OF f2] by blast
          with Some Inr y(1) \<open>x = Inr r\<close> \<open>r = Some plan\<close> x st show ?thesis by (simp add: with_burst_def [abs_def])
        qed
      qed
    qed
  qed
qed


lemma drain_loop_parts:
  "drain_loop ids n es = (admitted, rest) \<Longrightarrow> set admitted \<union> set rest \<subseteq> set es \<and> length admitted \<le> n"
proof (induction es arbitrary: n admitted rest)
  case (Cons e es)
  show ?case
  proof (cases "n = 0 \<or> entry_rid e \<notin> ids")
    case True
    with Cons show ?thesis by (cases "n = 0") fastforce+
  next
    case False
    obtain a r where "drain_loop ids (n - 1) es = (a, r)" by (rule prod.exhaust)
    with Cons.IH [OF this] Cons.prems False show ?thesis by auto
  qed
qed simp

lemma refresh_window_hints_set:
  "e \<in> set (refresh_window_hints C s w es) \<Longrightarrow> \<exists>e'\<in>set es. entry_ref e = entry_ref e' \<and> entry_rid e = entry_rid e'"
  "length (refresh_window_hints C s w es) = length es"
  by (auto simp: refresh_window_hints_def refresh_hint_def split: if_splits)

lemma drain_window_facts:
  assumes ok: "refs_ok (s, w)"
  shows "refs_ok (drain_window C w s, w) \<and> frame s (drain_window C w s)"
proof (cases "staging s = [] \<or> HOT_WINDOW_SIZE \<le> length (hot s)")
  case True
  with ok show ?thesis by (simp add: drain_window_def)
next
  case False
  obtain a r where d: "drain_loop (waiting_ids s) (HOT_WINDOW_SIZE - length (hot s)) (staging s) = (a, r)" by (rule prod.exhaust)
  let ?h = "hot s @ refresh_window_hints C s w a"
  have w: "drain_window C w s = s\<lparr>hot := ?h, staging := r\<rparr>" using False d by (simp add: drain_window_def)
  note D = drain_loop_parts [OF d]
  have n: "names w (entry_ref e) (entry_rid e)" if "e \<in> set (hot s) \<union> set (staging s)" for e
    using ok that by (auto simp: refs_ok_def)
  have h: "names w (entry_ref e) (entry_rid e)" if e: "e \<in> set ?h \<union> set r" for e
  proof -
    consider "e \<in> set (hot s) \<union> set (staging s)" | "e \<in> set (refresh_window_hints C s w a)" using e D by auto
    then show ?thesis
    proof cases
      case 2
      from refresh_window_hints_set(1) [OF this] obtain e' where e': "e' \<in> set a" "entry_ref e = entry_ref e'" "entry_rid e = entry_rid e'" by blast
      with D n [of e'] show ?thesis by auto
    qed (rule n)
  qed
  have "queues_ok s" using ok by (simp add: refs_ok_def)
  then have "queues_ok (s\<lparr>hot := ?h, staging := r\<rparr>)"
    using D by (simp add: queues_ok_def refresh_window_hints_set(2) HOT_WINDOW_SIZE_def) linarith
  moreover have "\<forall>e\<in>set ?h \<union> set r. names w (entry_ref e) (entry_rid e)" using h by blast
  ultimately have "refs_ok (s\<lparr>hot := ?h, staging := r\<rparr>, w)" using ok by (simp add: refs_ok_def)
  then show ?thesis unfolding w by (simp add: frame_def)
qed

lemma apply_capacity_hint_facts:
  assumes "refs_ok (s, w)"
  shows "refs_ok (apply_capacity_hint C w s, w) \<and> frame s (apply_capacity_hint C w s)"
proof -
  have q: "queues_ok (apply_capacity_hint C w s)" "running (apply_capacity_hint C w s) = running s"
    "prefilling (apply_capacity_hint C w s) = prefilling s" "hot (apply_capacity_hint C w s) = hot s"
    "staging (apply_capacity_hint C w s) = staging s" "frame s (apply_capacity_hint C w s)"
    using assms by (simp_all add: apply_capacity_hint_def refs_ok_def queues_ok_def frame_def Let_def split: option.split)
  then have "refs_ok (apply_capacity_hint C w s, w)" by (intro refs_ok_mono [OF assms]) simp_all
  with q(6) show ?thesis by blast
qed

lemma schedule_round:
  assumes C: "keeps_registry C" and ok: "refs_ok (s, w)"
    and Q: "\<And>cur err s w q s' w'. refs_ok (s, w) \<Longrightarrow> s_plan s = P \<Longrightarrow> Q cur \<Longrightarrow>
      after_refusal C now cur err (s, w) = (Inr (Some q), (s', w')) \<Longrightarrow> Q q"
    and Q0: "\<And>b s0 s w q s' w'. b \<in> set (builders C now s0) \<Longrightarrow> refs_ok (s, w) \<Longrightarrow> s_plan s = P \<Longrightarrow> inflight_ids_all s = I \<Longrightarrow>
      b (s, w) = (Inr (Some q), (s', w')) \<Longrightarrow> Q q"
    and P: "s_plan s = P" and I: "inflight_ids_all s = I"
  shows "\<exists>res. schedule C now (s, w) = Some res \<and> round_result Q s w res \<and>
    (int (length (inflight_requests s)) \<ge> max_inflight P \<longrightarrow> res = (Inr None, (s, w)))"
proof (cases "int (length (inflight_requests s)) \<ge> max_inflight P")
  case True
  with ok P show ?thesis by (simp add: schedule_def round_result_def)
next
  case False
  let ?a = "s\<lparr>sched_round := sched_round s + 1\<rparr>" let ?b = "apply_capacity_hint C w ?a" let ?c = "drain_window C w ?b"
  have "refs_ok (?a, w)" "frame s ?a" using ok by (simp_all add: refs_ok_def queues_ok_def frame_def)
  with apply_capacity_hint_facts [of ?a w C] drain_window_facts [of ?b w C] have c: "refs_ok (?c, w)" "frame s ?c"
    using frame_trans by blast+
  have "\<exists>res. try_candidates C now (builders C now ?c) (?c, w) = Some res \<and> round_result Q ?c w res"
  proof (rule try_candidates_returns [where P = P and I = I, OF C Q _ _ c(1)])
    show "tidy b" if "b \<in> set (builders C now ?c)" for b using tidy_builders [OF C that] .
    show "Q q" if "b \<in> set (builders C now ?c)" "refs_ok (s, w)" "s_plan s = P" "inflight_ids_all s = I"
      "b (s, w) = (Inr (Some q), (s', w'))" for b s w q s' w'
      using Q0 [of b ?c s w q s' w'] that by simp
  qed (use c(2) P I in \<open>simp_all add: frame_def\<close>)
  then obtain res where r: "try_candidates C now (builders C now ?c) (?c, w) = Some res" "round_result Q ?c w res" by blast
  from False P r(1) have "schedule C now (s, w) = Some res" by (simp add: schedule_def Let_def)
  with False round_result_later [OF c(2) world_next_refl r(2)] show ?thesis by simp
qed

end
