(* ===== verification/Sched_Operations.thy ===== *)
theory Sched_Operations
  imports Sched_Steps
begin

text \<open>
  The remaining operations of the scheduler keep its references and tickets in order:
  admission, abort, finish, fail, reporting and the completion of a step.
\<close>

section \<open>Operations on one request of the registry\<close>

definition tidy_for :: "nat \<Rightarrow> string \<Rightarrow> ('w sched_state, 'a) py \<Rightarrow> bool" where
  "tidy_for r rid f \<longleftrightarrow> (\<forall>s w x s' w'. refs_ok (s, w) \<longrightarrow> names w r rid \<longrightarrow> f (s, w) = (x, (s', w')) \<longrightarrow>
     refs_ok (s', w') \<and> frame s s' \<and> world_next w w')"

lemma tidy_forI:
  "(\<And>s w x s' w'. refs_ok (s, w) \<Longrightarrow> names w r rid \<Longrightarrow> f (s, w) = (x, (s', w')) \<Longrightarrow> refs_ok (s', w') \<and> frame s s' \<and> world_next w w') \<Longrightarrow>
   tidy_for r rid f"
  unfolding tidy_for_def by blast

lemma tidy_forD:
  "tidy_for r rid f \<Longrightarrow> refs_ok (s, w) \<Longrightarrow> names w r rid \<Longrightarrow> f (s, w) = (x, (s', w')) \<Longrightarrow>
   refs_ok (s', w') \<and> frame s s' \<and> world_next w w'"
  unfolding tidy_for_def by blast

lemma tidyI:
  "(\<And>s w x s' w'. refs_ok (s, w) \<Longrightarrow> f (s, w) = (x, (s', w')) \<Longrightarrow> refs_ok (s', w') \<and> frame s s' \<and> world_next w w') \<Longrightarrow> tidy f"
  unfolding tidy_def by blast

lemma tidy_tidy_for: "tidy f \<Longrightarrow> tidy_for r rid f"
  unfolding tidy_def tidy_for_def by blast

lemma tidy_for_andthen:
  assumes f: "tidy_for r rid f" and g: "\<And>x. tidy_for r rid (g x)"
  shows "tidy_for r rid (andthen f g)"
proof (rule tidy_forI)
  fix s w x s' w' assume ok: "refs_ok (s, w)" and n: "names w r rid" and e: "andthen f g (s, w) = (x, (s', w'))"
  obtain y st where y: "f (s, w) = (y, st)" by (rule prod.exhaust)
  obtain s1 w1 where st: "st = (s1, w1)" by (rule prod.exhaust)
  note F = tidy_forD [OF f ok n y [unfolded st]]
  show "refs_ok (s', w') \<and> frame s s' \<and> world_next w w'"
  proof (cases y)
    case (Inl err)
    with e y st F show ?thesis by (auto simp: andthen_def)
  next
    case (Inr v)
    with e y st have g1: "g v (s1, w1) = (x, (s', w'))" by (simp add: andthen_def)
    have "names w1 r rid" using world_next_names [OF _ _ n] F ok by (simp add: refs_ok_def)
    from tidy_forD [OF g conjunct1 [OF F] this g1] F show ?thesis using frame_trans world_next_trans by blast
  qed
qed

lemma tidy_for_state: "(\<And>s w. tidy_for r rid (f s w)) \<Longrightarrow> tidy_for r rid (\<lambda>(s, w). f s w (s, w))"
  unfolding tidy_for_def by auto

lemma tidy_for_if: "tidy_for r rid f \<Longrightarrow> tidy_for r rid g \<Longrightarrow> tidy_for r rid (if c then f else g)"
  by simp

lemma managed_next:
  assumes "managed f (s, w) = (x, (s', w'))"
  shows "s' = s" "w' = (snd (f (fst w)), snd w)" "x = fst (f (fst w))"
  using assms by (auto simp: managed_def outside_def split: prod.splits)

lemma refs_ok_world:
  assumes "refs_ok (s, w)" "world_next w w'"
  shows "refs_ok (s, w')"
proof -
  have "queues_ok s" using assms(1) by (simp add: refs_ok_def)
  then show ?thesis by (intro refs_ok_mono [OF assms]) simp_all
qed

lemma tidy_managed:
  assumes "mgr_evolves f"
  shows "tidy (managed f)"
proof (rule tidyI)
  fix s w x s' w' assume ok: "refs_ok (s, w)" and e: "managed f (s, w) = (x, (s', w'))"
  note M = managed_next [OF e]
  have "world_next w w'" using mgr_evolvesD [OF assms] by (simp add: M world_next_def)
  with refs_ok_world [OF ok this] M(1) show "refs_ok (s', w') \<and> frame s s' \<and> world_next w w'" by simp
qed

lemma tidy_at_ref:
  assumes "evolves f"
  shows "tidy_for r rid (managed (at_ref r f))"
proof (rule tidy_forI)
  fix s w x s' w' assume ok: "refs_ok (s, w)" and n: "names w r rid" and e: "managed (at_ref r f) (s, w) = (x, (s', w'))"
  note M = managed_next [OF e]
  have "r < length (objects (fst (fst w)))" using n by (simp add: names_def store_len_def registry_def)
  then have "mgr_inv (snd (at_ref r f (fst w))) \<and> mgr_next (fst w) (snd (at_ref r f (fst w)))" if "mgr_inv (fst w)"
    using at_ref_evolves [of "fst (fst w)" "snd (fst w)" r, OF _ _ assms] that by simp
  then have "world_next w w'" by (simp add: M world_next_def)
  with refs_ok_world [OF ok this] M(1) show "refs_ok (s', w') \<and> frame s s' \<and> world_next w w'" by simp
qed

text \<open>What is looked up in the registry goes by its id; what is created there too.\<close>

lemma tidy_found:
  assumes "tidy (g None)" "\<And>r. tidy_for r rid (g (Some r))"
  shows "tidy (\<lambda>(s, w). g (find (registry w) rid) (s, w))"
proof (rule tidyI)
  fix s w x s' w' assume ok: "refs_ok (s, w)" and e: "(case (s, w) of (s, w) \<Rightarrow> g (find (registry w) rid) (s, w)) = (x, (s', w'))"
  show "refs_ok (s', w') \<and> frame s s' \<and> world_next w w'"
  proof (cases "find (registry w) rid")
    case None
    with e tidyD [OF assms(1) ok] show ?thesis by simp
  next
    case (Some r)
    have "names w r rid" using found_names [OF _ Some] ok by (simp add: refs_ok_def)
    from tidy_forD [OF assms(2) ok this] e Some show ?thesis by simp
  qed
qed

lemma tidy_create:
  assumes q: "request_ok q" and g: "\<And>r. tidy_for r (rq_id q) (g r)"
  shows "tidy (andthen (managed (create q now)) g)"
proof (rule tidyI)
  fix s w x s' w' assume ok: "refs_ok (s, w)" and e: "andthen (managed (create q now)) g (s, w) = (x, (s', w'))"
  obtain m y where w: "w = (m, y)" by (rule prod.exhaust)
  obtain h ep where m: "m = (h, ep)" by (rule prod.exhaust)
  let ?w1 = "(snd (create q now m), y)"
  have c: "managed (create q now) (s, w) = (fst (create q now m), (s, ?w1))" by (simp add: managed_def outside_def w split: prod.split)
  have n: "world_next w ?w1" using create_step [OF _ q, of h ep now] by (simp add: world_next_def w m)
  note ok1 = refs_ok_world [OF ok n]
  show "refs_ok (s', w') \<and> frame s s' \<and> world_next w w'"
  proof (cases "fst (create q now m)")
    case (Inl err)
    with c e have "s' = s" "w' = ?w1" by (simp_all add: andthen_def)
    with ok1 n show ?thesis by simp
  next
    case (Inr r)
    then have "names ?w1 r (rq_id q)"
      by (auto simp: create_def m names_def store_len_def registry_def view_def RequestLifecycle_init_def Let_def split: if_splits prod.splits)
    moreover have "g r (s, ?w1) = (x, (s', w'))" using Inr c e by (simp add: andthen_def)
    ultimately show ?thesis using tidy_forD [OF g ok1] n world_next_trans by blast
  qed
qed


section \<open>Aborting, finishing and failing\<close>

text \<open>A change of fields that neither the references nor the tickets depend on.\<close>

definition minor :: "(Scheduler \<Rightarrow> Scheduler) \<Rightarrow> bool" where
  "minor f \<longleftrightarrow> (\<forall>s. running (f s) = running s \<and> prefilling (f s) = prefilling s \<and> hot (f s) = hot s \<and> staging (f s) = staging s \<and>
     queues_ok (f s) = queues_ok s \<and> frame s (f s))"

lemma tidy_minor:
  assumes "minor f"
  shows "tidy (own f)"
proof (rule tidy_own)
  show "refs_ok (f s, w)" if "refs_ok (s, w)" for s and w :: "'a world" using that assms by (simp add: refs_ok_def minor_def)
  show "frame s (f s)" for s using assms by (simp add: minor_def)
qed

lemma tidy_drop:
  assumes "minor f" "minor g"
  shows "tidy (own (\<lambda>s. g (drop_request rid (f s))))"
proof (rule tidy_own)
  fix s and w :: "'a world" assume "refs_ok (s, w)"
  then have "refs_ok (f s, w)" using assms(1) by (simp add: refs_ok_def minor_def)
  from drop_request_ok [OF this, of rid] show "refs_ok (g (drop_request rid (f s)), w)" using assms(2) by (simp add: refs_ok_def minor_def)
next
  fix s
  have "frame s (f s)" "frame (drop_request rid (f s)) (g (drop_request rid (f s)))" using assms by (simp_all add: minor_def)
  then show "frame s (g (drop_request rid (f s)))" using frame_trans drop_request_frame by blast
qed

lemma tidy_report_open: "tidy (report_open ref rid fr text :: ('w sched_state, unit) py)"
proof (cases ref)
  case None
  then show ?thesis by (simp add: report_open_def tidy_def)
next
  case (Some r)
  have "report_open ref rid fr text = (\<lambda>(s, w :: 'w world). (if is_terminal (machine (view w r)) then ret ()
      else send_report rid O_ABORTED (sequence_epoch (machine (view w r))) fr text) (s, w))"
    by (rule ext) (simp add: report_open_def Some split: prod.split)
  moreover have "tidy (\<lambda>(s, w :: 'w world). (if is_terminal (machine (view w r)) then ret ()
      else send_report rid O_ABORTED (sequence_epoch (machine (view w r))) fr text) (s, w))"
    by (intro tidy_state tidy_if tidy_base tidy_send_report)
  ultimately show ?thesis by simp
qed

lemma tidy_finalize_abort:
  assumes C: "keeps_registry C"
  shows "tidy (finalize_abort C rid)"
proof -
  have 1: "tidy (own (\<lambda>s. id (drop_request rid (s\<lparr>abort_reasons := AList.delete rid (abort_reasons s)\<rparr>))))"
    by (rule tidy_drop) (simp_all add: minor_def queues_ok_def frame_def)
  have 2: "tidy (own (\<lambda>s. s\<lparr>abort_pending := abort_pending s - {rid}\<rparr>))" by (rule tidy_minor) (simp add: minor_def queues_ok_def frame_def)
  show ?thesis unfolding finalize_abort_def
    using 1 2 by (intro tidy_andthen tidy_base tidy_pop_sequence tidy_free_sequence [OF C])
      (auto simp: split_beta intro!: tidy_andthen tidy_report_open tidy_pop_sequence tidy_free_sequence [OF C])
qed

lemma tidy_finalize_settled: "keeps_registry C \<Longrightarrow> tidy (finalize_settled_aborts C ids)"
  unfolding finalize_settled_aborts_def
proof (rule tidy_for_each)
  fix rid assume C: "keeps_registry C"
  have "(\<lambda>(s, w). if rid \<in> abort_pending s then finalize_abort C rid (s, w) else ret () (s, w)) =
      (\<lambda>(s, w). (if rid \<in> abort_pending s then finalize_abort C rid else ret ()) (s, w))" by auto
  moreover have "tidy (\<lambda>(s, w). (if rid \<in> abort_pending s then finalize_abort C rid else ret ()) (s, w))"
    by (intro tidy_state tidy_if tidy_base tidy_finalize_abort [OF C])
  ultimately show "tidy (\<lambda>(s, w). if rid \<in> abort_pending s then finalize_abort C rid (s, w) else ret () (s, w))" by simp
qed

lemma evolves_finish_reason: "evolves (on_lc (\<lambda>lc. if c lc then lc\<lparr>finish_reason := fr\<rparr> else lc))"
  unfolding evolves_def
proof (intro allI impI)
  fix s assume s: "lc_inv s"
  obtain lc ep where e: "s = (lc, ep)" by (rule prod.exhaust)
  have "on_lc (\<lambda>lc. if c lc then lc\<lparr>finish_reason := fr\<rparr> else lc) s = on_lc (\<lambda>x. if c lc then x\<lparr>finish_reason := fr\<rparr> else x) s"
    by (simp add: on_lc_def e)
  with evolvesD [OF evolves_fields(3) s]
  show "lc_inv (snd (on_lc (\<lambda>lc. if c lc then lc\<lparr>finish_reason := fr\<rparr> else lc) s)) \<and>
      lc_next s (snd (on_lc (\<lambda>lc. if c lc then lc\<lparr>finish_reason := fr\<rparr> else lc) s))" by simp
qed

lemma tidy_abort:
  assumes C: "keeps_registry C"
  shows "tidy (abort C rid reason fr)"
proof -
  let ?cancel = "\<lambda>s. for_each (\<lambda>(ticket, ids). if ids \<noteq> {} \<and> ids \<subseteq> abort_pending s
      then outside (rt_cancel C ticket ''all requests in ticket aborted'') else ret ()) (inflight_requests s)"
  have c: "tidy (outside (rt_cancel C k t))" for k t by (rule tidy_outside) (use C in \<open>unfold keeps_registry_def, blast\<close>)
  have "tidy (\<lambda>(s, w). (if rid \<in> inflight_ids_all s then andthen (?cancel s) (\<lambda>_. ret True)
      else andthen (finalize_abort C rid) (\<lambda>_. ret True)) (s, w))"
    by (rule tidy_state) (auto intro!: tidy_andthen tidy_base tidy_for_each tidy_finalize_abort [OF C] c split: prod.split)
  moreover have "(\<lambda>(s, w). (if rid \<in> inflight_ids_all s then andthen (?cancel s) (\<lambda>_. ret True)
      else andthen (finalize_abort C rid) (\<lambda>_. ret True)) (s, w)) =
    (\<lambda>(s, w). if rid \<in> inflight_ids_all s then andthen (?cancel s) (\<lambda>_. ret True) (s, w)
      else andthen (finalize_abort C rid) (\<lambda>_. ret True) (s, w))" by auto
  ultimately have last: "tidy (\<lambda>(s, w). if rid \<in> inflight_ids_all s then andthen (?cancel s) (\<lambda>_. ret True) (s, w)
      else andthen (finalize_abort C rid) (\<lambda>_. ret True) (s, w))" by simp
  have m: "minor (\<lambda>s. s\<lparr>abort_reasons := AList.update rid (reason, fr) (abort_reasons s)\<rparr>)"
    "minor (\<lambda>s. s\<lparr>abort_pending := insert rid (abort_pending s)\<rparr>)" by (simp_all add: minor_def queues_ok_def frame_def)
  let ?body = "\<lambda>r. andthen (own (\<lambda>s. s\<lparr>abort_reasons := AList.update rid (reason, fr) (abort_reasons s)\<rparr>)) (\<lambda>_.
    andthen (managed (at_ref r (on_lc (\<lambda>lc. lc\<lparr>token := snd (token_cancel reason (token lc))\<rparr>)))) (\<lambda>_.
    andthen (managed (at_ref r (on_lc (\<lambda>lc. if fr \<noteq> None \<and> finish_reason lc = None then lc\<lparr>finish_reason := fr\<rparr> else lc)))) (\<lambda>_.
    andthen (own (\<lambda>s. s\<lparr>abort_pending := insert rid (abort_pending s)\<rparr>)) (\<lambda>_.
    (\<lambda>(s, w). if rid \<in> inflight_ids_all s then andthen (?cancel s) (\<lambda>_. ret True) (s, w)
      else andthen (finalize_abort C rid) (\<lambda>_. ret True) (s, w))))))"
  have b: "tidy_for r rid (?body r)" for r
    by (intro tidy_for_andthen tidy_at_ref tidy_tidy_for [OF tidy_minor] m evolves_fields(2) evolves_finish_reason tidy_tidy_for [OF last])
  let ?g = "\<lambda>ref. case ref of None \<Rightarrow> ret False
    | Some r \<Rightarrow> (\<lambda>(s, w). (if is_terminal (machine (view w r)) \<or> rid \<in> abort_pending s then ret False else ?body r) (s, w))"
  have "abort C rid reason fr = (\<lambda>(s, w). ?g (find (registry w) rid) (s, w))"
    by (rule ext) (simp add: abort_def split: option.split prod.split)
  moreover have "tidy (\<lambda>(s, w). ?g (find (registry w) rid) (s, w))"
    by (intro tidy_found; unfold option.case; intro tidy_base tidy_for_state tidy_for_if b tidy_tidy_for [OF tidy_base(1)])
  ultimately show ?thesis by simp
qed

lemma tidy_finish: "tidy (finish_request rid reason text :: ('w sched_state, _) py)"
proof -
  let ?g = "\<lambda>ref. case ref of None \<Rightarrow> ret None
    | Some r \<Rightarrow> (\<lambda>(s, w :: 'w world). (if is_terminal (machine (view w r)) \<or> inflight (view w r) \<noteq> None \<or> rid \<in> inflight_ids_all s then ret None
        else end_request rid r O_FINISHED (Some reason) text) (s, w))"
  have "finish_request rid reason text = (\<lambda>(s, w). ?g (find (registry w) rid) (s, w))"
    by (rule ext) (simp add: finish_request_def split: option.split prod.split)
  moreover have "tidy (\<lambda>(s, w). ?g (find (registry w) rid) (s, w))"
    by (intro tidy_found; unfold option.case; intro tidy_base tidy_for_state tidy_for_if tidy_tidy_for [OF tidy_end_request] tidy_tidy_for [OF tidy_base(1)])
  ultimately show ?thesis by simp
qed

lemma tidy_flush: "tidy (flush_reports ts :: ('w sched_state, _) py)"
proof -
  let ?body = "andthen ((own :: _ \<Rightarrow> ('w sched_state, unit) py) (\<lambda>s. s\<lparr>report_step_id := report_step_id s + 1\<rparr>)) (\<lambda>_.
       andthen (ask (\<lambda>s w. let sr = \<lparr>srep_step_id = report_step_id s, reports = map snd (pending s)\<rparr> in
         ebind (scheduler_report_validate sr) (\<lambda>_. Inr sr))) (\<lambda>sr.
       andthen (own (\<lambda>s. s\<lparr>pending := []\<rparr>)) (\<lambda>_.
       andthen (managed (apply_scheduler_report sr ts)) (\<lambda>_. ret (Some sr)))))"
  have "tidy ?body"
    by (intro tidy_andthen tidy_base tidy_managed apply_report_evolves tidy_minor) (simp_all add: minor_def queues_ok_def frame_def)
  then have "tidy (\<lambda>(s, w :: 'w world). (if pending s = [] then ret None else ?body) (s, w))" by (intro tidy_state tidy_if tidy_base)
  moreover have "flush_reports ts = (\<lambda>(s, w). (if pending s = [] then ret None else ?body) (s, w))"
    by (rule ext) (simp add: flush_reports_def split: prod.split)
  ultimately show ?thesis by simp
qed


section \<open>Admission\<close>

lemma tidy_or_cleanup:
  assumes x: "tidy x" and c: "tidy c"
  shows "tidy (or_cleanup x c)"
proof (rule tidyI)
  fix s w y s' w' assume ok: "refs_ok (s, w)" and e: "or_cleanup x c (s, w) = (y, (s', w'))"
  obtain v st where v: "x (s, w) = (v, st)" by (rule prod.exhaust)
  obtain s1 w1 where st: "st = (s1, w1)" by (rule prod.exhaust)
  note X = tidyD [OF x ok v [unfolded st]]
  show "refs_ok (s', w') \<and> frame s s' \<and> world_next w w'"
  proof (cases v)
    case (Inr a)
    with e v st have "s' = s1" "w' = w1" by (auto simp: or_cleanup_def)
    with X show ?thesis by simp
  next
    case (Inl a)
    obtain z st' where z: "c (s1, w1) = (z, st')" by (rule prod.exhaust)
    with Inl e v st have "st' = (s', w')" by (auto simp: or_cleanup_def split: sum.splits)
    with tidyD [OF c conjunct1 [OF X], of z s' w'] z X show ?thesis using frame_trans world_next_trans by blast
  qed
qed

lemma tidy_discard: "tidy f \<Longrightarrow> tidy (discard f)"
  unfolding discard_def by (intro tidy_andthen tidy_base)

lemma evolves_rollback: "mgr_evolves (mgr_rollback rid)"
  unfolding mgr_evolves_def
proof (intro allI impI)
  fix s assume i: "mgr_inv s"
  obtain g ep where s: "s = (g, ep)" by (rule prod.exhaust)
  from active_step [OF i [unfolded s] map_of_delete_sub]
  show "mgr_inv (snd (mgr_rollback rid s)) \<and> mgr_next s (snd (mgr_rollback rid s))" by (simp add: s mgr_rollback_def)
qed

lemma evolves_advance: "mgr_evolves (advance_to_queue rid c d ts)"
  unfolding mgr_evolves_def
proof (intro allI impI)
  fix s assume i: "mgr_inv s"
  show "mgr_inv (snd (advance_to_queue rid c d ts s)) \<and> mgr_next s (snd (advance_to_queue rid c d ts s))"
    using mgr_exec_step [OF i, of "(Mgr_Advance rid c d, ts)"] by simp
qed

lemma tidy_rollback_children:
  assumes C: "keeps_registry C"
  shows "tidy (rollback_children C ids)"
proof -
  have "tidy (own (\<lambda>s. let s1 = drop_request rid s in
      s1\<lparr>abort_pending := abort_pending s1 - {rid}, abort_reasons := AList.delete rid (abort_reasons s1),
         ordinals := AList.delete rid (ordinals s1), pending := AList.delete rid (pending s1)\<rparr>))" for rid
    unfolding Let_def by (rule tidy_drop [of id, unfolded id_apply]) (simp_all add: minor_def queues_ok_def frame_def)
  then show ?thesis unfolding rollback_children_def
    by (intro tidy_for_each tidy_andthen tidy_pop_sequence tidy_free_sequence [OF C] tidy_discard tidy_managed evolves_rollback)
qed

lemma tidy_enqueue_new: "tidy_for r rid (enqueue_new now rid r h)"
proof (rule tidy_forI)
  fix s w x s' w' assume ok: "refs_ok (s, w)" and n: "names w r rid" and e: "enqueue_new now rid r h (s, w) = (x, (s', w'))"
  obtain y s1 where q: "new_queue_entry now rid r (Some h) s = (y, s1)" by (rule prod.exhaust)
  note Q = new_queue_entry_facts [OF q]
  have ok1: "refs_ok (s1, w)" using ok Q by (simp add: refs_ok_def)
  show "refs_ok (s', w') \<and> frame s s' \<and> world_next w w'"
  proof (cases y)
    case (Inl a)
    with e q have "s' = s1" "w' = w" by (auto simp: enqueue_new_def)
    with ok1 Q(1) show ?thesis by simp
  next
    case (Inr z)
    with e q have s': "s' = waiting_add z s1" "w' = w" by (auto simp: enqueue_new_def)
    have "names w (entry_ref z) (entry_rid z)" using Q(8) [OF Inr] n by simp
    from waiting_add_ok [OF ok1 this] Q(1) show ?thesis unfolding s' by (simp add: waiting_add_def frame_def)
  qed
qed

lemma tidy_add_single:
  assumes C: "keeps_registry C" and q: "request_ok q"
  shows "tidy (add_single C now q defer_remote)"
proof -
  have "\<forall>rid w. world_next w (snd (seq_create C rid w))" using C unfolding keeps_registry_def by (elim conjE)
  then have seq: "tidy (outside (seq_create C rid))" for rid by (intro tidy_outside) blast
  have own: "tidy (own (\<lambda>s. s\<lparr>sequences := AList.update rid h (sequences s)\<rparr>))" for rid h
    by (rule tidy_minor) (simp add: minor_def queues_ok_def frame_def)
  have rep: "tidy_for r rid (\<lambda>(s, w). send_report rid oc (sequence_epoch (machine (view w r))) fr msg (s, w))" for r rid oc fr msg
    by (intro tidy_for_state tidy_tidy_for tidy_send_report)
  have main: "tidy (andthen (managed (create q now)) (\<lambda>r.
      andthen (managed (advance_to_queue (rq_id q) 0 defer_remote now)) (\<lambda>_.
      andthen (managed (at_ref r (bind_sequence h 0 0))) (\<lambda>_.
      andthen (enqueue_new now (rq_id q) r h) (\<lambda>_.
      andthen (\<lambda>(s, w). send_report (rq_id q) O_ADMITTED (sequence_epoch (machine (view w r))) None [] (s, w)) (\<lambda>_.
      ret r))))))" for h
    by (intro tidy_create q tidy_for_andthen tidy_at_ref tidy_enqueue_new rep tidy_tidy_for [OF tidy_managed] tidy_tidy_for [OF tidy_base(1)]
        evolves_advance evolves_slices(5))
  show ?thesis unfolding add_single_def Let_def
    by (intro tidy_andthen tidy_base seq own tidy_or_cleanup main tidy_rollback_children [OF C])
qed


section \<open>Completion\<close>

lemma ball_subset: "\<forall>x\<in>B. P x \<Longrightarrow> A \<subseteq> B \<Longrightarrow> \<forall>x\<in>A. P x"
  by blast

lemma ball_pairs: "\<forall>(k, j)\<in>B. \<forall>(k', j')\<in>B. R k j k' j' \<Longrightarrow> A \<subseteq> B \<Longrightarrow> \<forall>(k, j)\<in>A. \<forall>(k', j')\<in>A. R k j k' j'"
  by blast

lemma flights_clear:
  assumes ok: "flights_ok s" and ids: "map_of (inflight_requests s) t = Some ids"
  shows "flights_ok (s\<lparr>inflight_requests := AList.delete t (inflight_requests s), inflight_ids_all := inflight_ids_all s - ids,
    inflight_slices := AList.delete t (inflight_slices s)\<rparr>)"
proof -
  note F = flights_okD [OF ok]
  let ?d = "AList.delete t (inflight_requests s)"
  have mem: "(t, ids) \<in> set (inflight_requests s)" using map_of_SomeD [OF ids] .
  have d: "set ?d = {x \<in> set (inflight_requests s). fst x \<noteq> t}" by (auto simp: AList.delete_eq)
  have unique: "j = ids" if "(t, j) \<in> set (inflight_requests s)" for j using map_of_is_SomeI [OF F(1) that] ids by simp
  have disjoint: "ids \<inter> j = {}" if "(k, j) \<in> set (inflight_requests s)" "k \<noteq> t" for k j
    using F(4) mem that by blast
  have union: "\<Union> (snd ` set ?d) = inflight_ids_all s - ids"
  proof (intro set_eqI iffI)
    fix y assume "y \<in> \<Union> (snd ` set ?d)"
    then obtain k j where "(k, j) \<in> set (inflight_requests s)" "k \<noteq> t" "y \<in> j" unfolding d by auto
    with disjoint [of k j] show "y \<in> inflight_ids_all s - ids" unfolding F(2) by force
  next
    fix y assume y: "y \<in> inflight_ids_all s - ids"
    then obtain k j where k: "(k, j) \<in> set (inflight_requests s)" "y \<in> j" unfolding F(2) by auto
    with unique [of j] y have "k \<noteq> t" by auto
    with k show "y \<in> \<Union> (snd ` set ?d)" unfolding d by force
  qed
  have "length ?d \<le> length (inflight_requests s)" by (simp add: AList.delete_eq)
  then have len: "int (length ?d) \<le> max_inflight (s_plan s)" using F(6) by linarith
  define u where "u = s\<lparr>inflight_requests := ?d, inflight_ids_all := inflight_ids_all s - ids, inflight_slices := AList.delete t (inflight_slices s)\<rparr>"
  have u: "inflight_requests u = ?d" "inflight_ids_all u = inflight_ids_all s - ids" "inflight_slices u = AList.delete t (inflight_slices s)"
    "s_plan u = s_plan s" by (simp_all add: u_def)
  have one: "ticket_ok u k j" if "(k, j) \<in> set ?d" for k j
  proof -
    have kj: "(k, j) \<in> set (inflight_requests s)" "k \<noteq> t" using that d by auto
    then have "ticket_ok s k j" using F(3) by blast
    with kj(2) show ?thesis by (simp add: ticket_ok_def delete_conv' u)
  qed
  have sub: "set ?d \<subseteq> set (inflight_requests s)" by (rule set_delete_subset)
  have "flights_ok u" unfolding flights_ok_def u union
  proof (intro conjI)
    show "distinct (map fst ?d)" by (rule distinct_delete [OF F(1)])
    show "\<forall>(k, j)\<in>set ?d. ticket_ok u k j" using one by blast
    show "\<forall>(k, j)\<in>set ?d. \<forall>(k', j')\<in>set ?d. k \<noteq> k' \<longrightarrow> j \<inter> j' = {}"
      using F(4) sub by (rule ball_pairs)
    show "fst ` set (AList.delete t (inflight_slices s)) = fst ` set ?d" by (simp only: fst_delete F(5))
  qed (simp_all add: len)
  then show ?thesis by (simp add: u_def)
qed

lemma refs_ok_grow:
  assumes ok: "refs_ok (s, w)" and n: "names w r rid"
    and sub: "set (running s') \<union> set (prefilling s') \<subseteq> insert (rid, r) (set (running s) \<union> set (prefilling s))"
    and same: "hot s' = hot s" "staging s' = staging s" "queues_ok s'"
  shows "refs_ok (s', w)"
proof -
  have "\<forall>x\<in>insert (rid, r) (set (running s) \<union> set (prefilling s)). case x of (k, q) \<Rightarrow> names w q k"
    using ok n by (simp add: refs_ok_def)
  then have "\<forall>x\<in>set (running s') \<union> set (prefilling s'). case x of (k, q) \<Rightarrow> names w q k" using sub by (rule ball_subset)
  then show ?thesis using ok same by (simp add: refs_ok_def)
qed

lemma tidy_for_prefilling: "tidy_for r rid (own (\<lambda>s. s\<lparr>prefilling := AList.update rid r (prefilling s)\<rparr>))"
proof (rule tidy_forI)
  fix s w x s' w' assume ok: "refs_ok (s, w)" and n: "names w r rid"
    and e: "own (\<lambda>s. s\<lparr>prefilling := AList.update rid r (prefilling s)\<rparr>) (s, w) = (x, (s', w'))"
  then have s': "s' = s\<lparr>prefilling := AList.update rid r (prefilling s)\<rparr>" "w' = w" by simp_all
  have "queues_ok s'" using ok by (simp add: refs_ok_def s'(1) queues_ok_def)
  then have "refs_ok (s', w)"
    by (intro refs_ok_grow [OF ok n]) (use set_update_subset [of rid r "prefilling s"] in \<open>auto simp: s'(1)\<close>)
  with s' show "refs_ok (s', w') \<and> frame s s' \<and> world_next w w'" by (simp add: frame_def)
qed

lemma tidy_for_running: "tidy_for r rid (own (running_add rid r))"
proof (rule tidy_forI)
  fix s w x s' w' assume ok: "refs_ok (s, w)" and n: "names w r rid" and e: "own (running_add rid r) (s, w) = (x, (s', w'))"
  then have s': "s' = running_add rid r s" "w' = w" by simp_all
  have q: "queues_ok s'" using running_add_facts ok by (simp add: s' refs_ok_def)
  have same: "prefilling s' = prefilling s" "hot s' = hot s" "staging s' = staging s" "frame s s'"
    "running s' = AList.update rid r (running s)"
    by (simp_all add: s' running_add_def frame_def)
  have "refs_ok (s', w)"
    by (rule refs_ok_grow [OF ok n]) (use set_update_subset [of rid r "running s"] q in \<open>auto simp: same\<close>)
  with s'(2) same(4) show "refs_ok (s', w') \<and> frame s s' \<and> world_next w w'" by simp
qed

lemma tidy_for_requeue: "tidy_for r rid (requeue C now r)"
proof (rule tidy_forI)
  fix s w x s' w' assume ok: "refs_ok (s, w)" and n: "names w r rid" and e: "requeue C now r (s, w) = (x, (s', w'))"
  have "refs_ok (s', w')" "frame s s'" "w' = w" using requeue_facts [OF ok _ e] n unfolding names_def by blast+
  then show "refs_ok (s', w') \<and> frame s s' \<and> world_next w w'" by auto
qed

lemma minor_settle_recompute: "minor (settle_recompute x)"
  unfolding minor_def by (simp add: settle_recompute_def Let_def queues_ok_def frame_def split: option.split)

lemma tidy_prefilling_delete: "tidy (own (\<lambda>s. s\<lparr>prefilling := AList.delete rid (prefilling s)\<rparr>))"
proof (rule tidy_own)
  fix s and w :: "'a world" assume ok: "refs_ok (s, w)"
  then have "queues_ok (s\<lparr>prefilling := AList.delete rid (prefilling s)\<rparr>)" by (simp add: refs_ok_def queues_ok_def)
  then show "refs_ok (s\<lparr>prefilling := AList.delete rid (prefilling s)\<rparr>, w)"
    by (intro refs_ok_mono [OF ok]) (simp_all add: set_delete_subset)
qed (simp add: frame_def)

lemma tidy_settle_slice:
  fixes C :: "'w collaborators"
  shows "tidy (settle_slice C now x)"
proof -
  let ?rid = "inf_request_id x"
  let ?live = "\<lambda>r. andthen (own (settle_recompute x)) (\<lambda>_.
      if inf_phase x = PhasePrefill \<and> inf_query_end x < inf_prompt_tokens x then
        andthen (own (\<lambda>s. s\<lparr>prefilling := AList.update ?rid r (prefilling s)\<rparr>)) (\<lambda>_. requeue C now r)
      else own (running_add ?rid r))"
  let ?rest = "\<lambda>ref. case ref of None \<Rightarrow> ret ()
    | Some r \<Rightarrow> (\<lambda>(s, w). (if is_terminal (machine (view w r)) \<or> tok_cancelled (token (view w r)) then ret () else ?live r) (s, w))"
  let ?g = "\<lambda>ref. andthen (own (\<lambda>s. s\<lparr>prefilling := AList.delete ?rid (prefilling s)\<rparr>)) (\<lambda>_. ?rest ref)"
  have "settle_slice C now x = (\<lambda>(s, w). ?g (find (registry w) ?rid) (s, w))"
    by (rule ext) (simp add: settle_slice_def andthen_def Let_def split: option.split prod.split)
  moreover have "tidy (\<lambda>(s, w). ?g (find (registry w) ?rid) (s, w))"
    by (intro tidy_found; unfold option.case; intro tidy_andthen tidy_for_andthen tidy_base tidy_prefilling_delete tidy_for_state tidy_for_if
        tidy_for_prefilling tidy_for_running tidy_for_requeue tidy_tidy_for [OF tidy_base(1)] tidy_tidy_for [OF tidy_prefilling_delete]
        tidy_tidy_for [OF tidy_minor] minor_settle_recompute)
  ultimately show ?thesis by simp
qed

lemma tidy_drop_settled: "tidy (own (drop_settled rid))"
  unfolding drop_settled_def [abs_def] Let_def
  by (rule tidy_drop [where f = id and g = "\<lambda>t. t\<lparr>sequences := AList.delete rid (sequences t)\<rparr>", unfolded id_apply])
    (simp_all add: minor_def queues_ok_def frame_def)

lemma tidy_drop_unless: "tidy (drop_unless_aborting rid :: ('w sched_state, unit) py)"
proof -
  have "drop_unless_aborting rid = (\<lambda>(s, w :: 'w world). (if rid \<in> abort_pending s then ret () else own (drop_settled rid)) (s, w))"
    by (rule ext) (simp add: drop_unless_aborting_def split: prod.split)
  moreover have "tidy (\<lambda>(s, w :: 'w world). (if rid \<in> abort_pending s then ret () else own (drop_settled rid)) (s, w))"
    by (intro tidy_state tidy_if tidy_base tidy_drop_settled)
  ultimately show ?thesis by simp
qed


lemma settle_ticket_facts:
  assumes C: "keeps_registry C" and ok: "refs_ok (s, w)" and fl: "flights_ok s" and e: "settle_ticket C now out (s, w) = (x, (s', w'))"
  shows "refs_ok (s', w') \<and> flights_ok s' \<and> s_plan s' = s_plan s \<and> world_next w w'"
proof (cases "map_of (inflight_requests s) (cr_ticket_id out)")
  case None
  with e have "s' = s" "w' = w" by (simp_all add: settle_ticket_def clear_inflight_def)
  with ok fl show ?thesis by simp
next
  case (Some ids)
  let ?t = "cr_ticket_id out"
  define u where "u = s\<lparr>inflight_requests := AList.delete ?t (inflight_requests s), inflight_ids_all := inflight_ids_all s - ids,
    inflight_slices := AList.delete ?t (inflight_slices s)\<rparr>"
  let ?items = "case map_of (inflight_slices s) ?t of None \<Rightarrow> [] | Some xs \<Rightarrow> xs"
  let ?f = "andthen (if cr_status out = SUCCEEDED then for_each (settle_slice C now) ?items
      else for_each drop_unless_aborting (set_iter C ids)) (\<lambda>_. finalize_settled_aborts C (set_iter C ids))"
  have f: "?f (u, w) = (x, (s', w'))" using e Some
    by (cases "cr_status out = SUCCEEDED") (simp_all add: settle_ticket_def clear_inflight_def u_def Let_def)
  have t: "tidy ?f"
    by (intro tidy_andthen tidy_if tidy_for_each tidy_settle_slice tidy_drop_unless tidy_finalize_settled [OF C])
  have "refs_ok (u, w)" using ok by (simp add: refs_ok_def u_def queues_ok_def)
  note F = tidyD [OF t this f]
  have "flights_ok u" unfolding u_def by (rule flights_clear [OF fl Some])
  with F have "flights_ok s'" using flights_frame by blast
  moreover have "s_plan s' = s_plan s" using F by (simp add: frame_def u_def)
  ultimately show ?thesis using F by blast
qed

lemma update_from_output_facts:
  assumes C: "keeps_registry C" and ok: "refs_ok (s, w)" and fl: "flights_ok s" and e: "update_from_output C now out (s, w) = (x, (s', w'))"
  shows "refs_ok (s', w') \<and> flights_ok s' \<and> s_plan s' = s_plan s \<and> world_next w w'"
proof -
  obtain y st where y: "settle_ticket C now out (s, w) = (y, st)" by (rule prod.exhaust)
  obtain s1 w1 where st: "st = (s1, w1)" by (rule prod.exhaust)
  note S = settle_ticket_facts [OF C ok fl y [unfolded st]]
  show ?thesis
  proof (cases y)
    case (Inl a)
    with e y st have "s' = s1" "w' = w1" by (simp_all add: update_from_output_def andthen_def)
    with S show ?thesis by simp
  next
    case (Inr a)
    let ?f = "for_each (\<lambda>rid (s, w). (if rid \<in> abort_pending s then finalize_abort C rid else own (drop_settled rid)) (s, w)) (ignored_requests out)"
    have "(\<lambda>rid (s, w). if rid \<in> abort_pending s then finalize_abort C rid (s, w) else (Inr (), (drop_settled rid s, w))) =
        (\<lambda>rid (s, w). (if rid \<in> abort_pending s then finalize_abort C rid else own (drop_settled rid)) (s, w))"
      by (intro ext) (simp split: prod.split)
    with Inr e y st have f: "?f (s1, w1) = (x, (s', w'))" by (simp add: update_from_output_def andthen_def)
    have "tidy ?f" by (intro tidy_for_each tidy_state tidy_if tidy_finalize_abort [OF C] tidy_drop_settled)
    note F = tidyD [OF this _ f]
    with S have F: "refs_ok (s', w')" "frame s1 s'" "world_next w1 w'" by blast+
    have "flights_ok s'" using flights_frame [OF _ F(2)] S by blast
    moreover have "s_plan s' = s_plan s" using F(2) S by (simp add: frame_def)
    ultimately show ?thesis using F S world_next_trans by blast
  qed
qed

end
