(* ===== verification/Sched_Properties.thy ===== *)
theory Sched_Properties
  imports Sched_Operations
begin

text \<open>
  The continuous scheduler as one system: its calls in any order, what they keep, and the
  properties of a round.
\<close>

section \<open>The calls as one datatype\<close>

text \<open>
  Between two calls the other holders of the registry make theirs (\<open>Op_Registry\<close>): the runtime
  begins and commits slices, the engine forgets finished requests.  \<open>Op_Outside\<close> is a change of
  whatever else the collaborators keep.
\<close>

datatype 'w sched_op =
    Op_Add Request bool
  | Op_Schedule
  | Op_Output CompletionResult
  | Op_Abort string string "FinishReason option"
  | Op_Finish string FinishReason string
  | Op_Fail string string
  | Op_Flush
  | Op_Registry mgr_op
  | Op_Outside "'w \<Rightarrow> 'w"

fun sched_exec :: "'w collaborators \<Rightarrow> 'w sched_op \<times> int \<Rightarrow> ('w sched_state, unit) py" where
  "sched_exec C (Op_Add q defer_remote, now) = discard (add_single C now q defer_remote)"
| "sched_exec C (Op_Schedule, now) = (\<lambda>st.
     case schedule C now st of
       None \<Rightarrow> (Inl RuntimeError, st)
     | Some (Inl e, st1) \<Rightarrow> (Inl e, st1)
     | Some (Inr _, st1) \<Rightarrow> (Inr (), st1))"
| "sched_exec C (Op_Output out, now) = update_from_output C now out"
| "sched_exec C (Op_Abort rid reason fr, now) = discard (abort C rid reason fr)"
| "sched_exec C (Op_Finish rid reason msg, now) = discard (finish_request rid reason msg)"
| "sched_exec C (Op_Fail rid msg, now) = discard (fail_request rid msg)"
| "sched_exec C (Op_Flush, now) = discard (flush_reports now)"
| "sched_exec C (Op_Registry x, now) = managed (mgr_exec (x, now))"
| "sched_exec C (Op_Outside f, now) = (\<lambda>(s, (g, y)). (Inr (), (s, (g, f y))))"

fun sched_legal :: "'w sched_op \<times> int \<Rightarrow> 'w sched_state \<Rightarrow> bool" where
  "sched_legal (Op_Add q _, _) _ = request_ok q"
| "sched_legal (Op_Registry x, now) (s, (g, y)) = mgr_legal (x, now) g"
| "sched_legal _ _ = True"

definition sched_inv :: "'w collaborators \<Rightarrow> 'w sched_state \<Rightarrow> bool" where
  "sched_inv C = (\<lambda>(s, w). keeps_registry C \<and> refs_ok (s, w) \<and> flights_ok s \<and> budget_ok (budget_from_plan (s_plan s)))"

lemma tidy_sched_inv:
  assumes "tidy f" "sched_inv C (s, w)"
  shows "sched_inv C (snd (f (s, w)))"
proof -
  obtain x st where x: "f (s, w) = (x, st)" by (rule prod.exhaust)
  obtain s' w' where st: "st = (s', w')" by (rule prod.exhaust)
  have ok: "refs_ok (s, w)" "flights_ok s" using assms(2) by (simp_all add: sched_inv_def)
  note F = tidyD [OF assms(1) ok(1) x [unfolded st]]
  have "s_plan s' = s_plan s" using F by (simp add: frame_def)
  with F flights_frame [OF ok(2)] assms(2) show ?thesis by (simp add: x st sched_inv_def)
qed

text \<open>A round, with what the builders and the reshaping of refused steps guarantee.\<close>

lemma schedule_safe:
  assumes C: "keeps_registry C" and ok: "refs_ok (s, w)" and b: "budget_ok (budget_from_plan (s_plan s))"
  shows "\<exists>res. schedule C now (s, w) = Some res \<and> round_result (fits (s_plan s) (- inflight_ids_all s)) s w res \<and>
    (int (length (inflight_requests s)) \<ge> max_inflight (s_plan s) \<longrightarrow> res = (Inr None, (s, w)))"
proof (rule schedule_round [OF C ok, where P = "s_plan s" and I = "inflight_ids_all s"])
  fix cur err s1 w1 q s2 w2
  assume "refs_ok (s1, w1)" "s_plan s1 = s_plan s" "fits (s_plan s) (- inflight_ids_all s) cur"
    "after_refusal C now cur err (s1, w1) = (Inr (Some q), (s2, w2))"
  then show "fits (s_plan s) (- inflight_ids_all s) q" by (rule after_refusal_fits [OF C])
next
  fix f s0 s1 w1 q s2 w2
  assume f: "f \<in> set (builders C now s0)" and s1: "refs_ok (s1, w1)" "s_plan s1 = s_plan s" "inflight_ids_all s1 = inflight_ids_all s"
    and e: "f (s1, w1) = (Inr (Some q), (s2, w2))"
  from builders_fit [OF C s1(1) _ f e] b s1(2,3) show "fits (s_plan s) (- inflight_ids_all s) q" by simp
qed simp_all

lemma schedule_keeps:
  assumes inv: "sched_inv C (s, w)"
  shows "\<exists>x st. schedule C now (s, w) = Some (x, st) \<and> sched_inv C st"
proof -
  have C: "keeps_registry C" and ok: "refs_ok (s, w)" and fl: "flights_ok s" and b: "budget_ok (budget_from_plan (s_plan s))"
    using inv by (simp_all add: sched_inv_def)
  obtain res where r: "schedule C now (s, w) = Some res" "round_result (fits (s_plan s) (- inflight_ids_all s)) s w res"
    "int (length (inflight_requests s)) \<ge> max_inflight (s_plan s) \<longrightarrow> res = (Inr None, (s, w))"
    using schedule_safe [OF C ok b] by blast
  obtain x st where x: "res = (x, st)" by (rule prod.exhaust)
  obtain s' w' where st: "st = (s', w')" by (rule prod.exhaust)
  have "sched_inv C st"
  proof (cases "int (length (inflight_requests s)) \<ge> max_inflight (s_plan s)")
    case True
    with r(3) x inv show ?thesis by simp
  next
    case False
    from r(2) have ok': "refs_ok (s', w')" by (simp add: round_result_def x st)
    from r(2) consider "frame s s'" | cur t where "fits (s_plan s) (- inflight_ids_all s) cur" "boards cur t s s'"
      unfolding round_result_def x st by auto
    then have "flights_ok s' \<and> s_plan s' = s_plan s"
    proof cases
      case 1
      with flights_frame [OF fl] show ?thesis by (simp add: frame_def)
    next
      case 2
      with boards_flights [OF fl 2(2,1)] False show ?thesis by (simp add: boards_def)
    qed
    with ok' C b show ?thesis by (simp add: sched_inv_def st)
  qed
  with r(1) x show ?thesis by blast
qed

interpretation scheduler: guarded_system "sched_exec C" sched_legal "sched_inv C" for C :: "'w collaborators"
proof
  fix st :: "'w sched_state" and x assume inv: "sched_inv C st" and legal: "sched_legal x st"
  obtain s w where st: "st = (s, w)" by (rule prod.exhaust)
  obtain y now where x: "x = (y, now)" by (rule prod.exhaust)
  have C: "keeps_registry C" using inv by (simp add: sched_inv_def st)
  note T = tidy_sched_inv [OF _ inv [unfolded st]]
  show "sched_inv C (snd (sched_exec C x st))"
  proof (cases y)
    case (Op_Add q d)
    with legal x have "request_ok q" by simp
    with T [OF tidy_discard [OF tidy_add_single [OF C]]] Op_Add x st show ?thesis by simp
  next
    case Op_Schedule
    with schedule_keeps [OF inv [unfolded st], of now] x st show ?thesis by (auto split: sum.split)
  next
    case (Op_Output out)
    obtain v u where v: "update_from_output C now out (s, w) = (v, u)" by (rule prod.exhaust)
    obtain s' w' where u: "u = (s', w')" by (rule prod.exhaust)
    from update_from_output_facts [OF C _ _ v [unfolded u]] inv st Op_Output x v u show ?thesis by (simp add: sched_inv_def)
  next
    case (Op_Registry z)
    obtain g v where w: "w = (g, v)" by (rule prod.exhaust)
    have "mgr_legal (z, now) g" using legal Op_Registry x st w by simp
    then have n: "world_next w (snd (mgr_exec (z, now) g), v)" using mgr_exec_step by (simp add: world_next_def w)
    have "sched_exec C x st = (fst (mgr_exec (z, now) g), (s, (snd (mgr_exec (z, now) g), v)))"
      by (simp add: x Op_Registry st w managed_def outside_def split: prod.split)
    with refs_ok_world [OF _ n] inv st show ?thesis by (simp add: sched_inv_def)
  next
    case (Op_Outside f)
    obtain g v where w: "w = (g, v)" by (rule prod.exhaust)
    have n: "world_next w (g, f v)" by (simp add: world_next_def w)
    with refs_ok_world [OF _ n] inv Op_Outside x st w show ?thesis by (simp add: sched_inv_def)
  qed (use x st T [OF tidy_abort [OF C]] T [OF tidy_finish] T [OF tidy_fail_request] T [OF tidy_flush] in simp_all)
qed


lemma resolved_inflight:
  assumes "resolved_validate p0 = Inr p"
  shows "1 \<le> max_inflight p"
proof -
  obtain q where q: "config_validate p0 = Inr q" "p = q\<lparr>memory_capacity_bytes := sort_key fst (memory_capacity_bytes q)\<rparr>"
    using assms by (auto simp: resolved_validate_def ebind_Inr_iff)
  from q(1) have "q = p0\<lparr>tier_limits := sort_key fst (tier_limits p0)\<rparr>" "1 \<le> max_inflight p0"
    by (auto simp: config_validate_def ebind_Inr_iff require_int_def require_def split: if_splits)
  with q(2) show ?thesis by simp
qed

lemma resolved_budget_ok:
  assumes "resolved_validate p0 = Inr p" "capabilities_validate (capabilities p) = Inr ()"
  shows "budget_ok (budget_from_plan p)"
  by (rule budget_from_plan_ok [OF assms(2)]) (use resolved_limits [OF assms(1)] in simp_all)

lemma sched_init_inv:
  assumes C: "keeps_registry C" and p: "resolved_validate p0 = Inr p" "capabilities_validate (capabilities p) = Inr ()"
    and s: "Scheduler_init p stops first mixed burst chunk bypass = Inr s" and g: "0 \<le> retries" "1 \<le> ep"
  shows "sched_inv C (s, ((LifecycleManager_init retries, ep), y))"
proof -
  from s have f: "s_plan s = p" "running s = []" "prefilling s = []" "hot s = []" "staging s = []" "running_ids s = []" "running_index s = []"
    "decode_cursor s = 0" "inflight_requests s = []" "inflight_ids_all s = {}" "inflight_slices s = []"
    by (auto simp: Scheduler_init_def Let_def ebind_Inr_iff)
  have "refs_ok (s, ((LifecycleManager_init retries, ep), y))"
    using mgr_init_inv [OF g] by (simp add: refs_ok_def f queues_ok_def ring_ok_def cursor_ok_def)
  moreover have "flights_ok s" using resolved_inflight [OF p(1)] by (simp add: flights_ok_def f)
  ultimately show ?thesis using C resolved_budget_ok [OF p] by (simp add: sched_inv_def f(1))
qed

lemma padded_bounds:
  assumes v: "plan_validate cur = Inr ()" and c: "capabilities_validate (capabilities p) = Inr ()"
    and s: "physical_token_slots (capabilities p) (total_rows cur) = Inr n"
    and l: "total_rows cur \<le> k - k mod token_padding_multiple (capabilities p)"
  shows "total_rows cur \<le> n" "n \<le> k"
proof -
  let ?m = "token_padding_multiple (capabilities p)"
  have m: "1 \<le> ?m" using c by (auto simp: capabilities_validate_def ebind_Inr_iff require_int_def require_def split: if_splits)
  have "0 \<le> (\<Sum>sl\<leftarrow>slices cur. query_count sl)" by (rule sum_list_nonneg) (use valid_slices_nonneg [OF v] in auto)
  then have t: "0 \<le> total_rows cur" using valid_drafts_nonneg(2) [OF v] by (simp add: total_rows_def)
  have n: "n = (total_rows cur + ?m - 1) div ?m * ?m" using s slots_Inr [OF m t] by simp
  show "n \<le> k" using pad_up_le_iff [of ?m "total_rows cur" k] l m by (simp add: n)
  have "0 \<le> (- total_rows cur) mod ?m" using m by simp
  then show "total_rows cur \<le> n" using m by (simp add: n pad_up_eq)
qed


section \<open>Properties\<close>

text \<open>
  C7. \<open>schedule()\<close> always comes back.  However often the runtime refuses a step, and whatever
  it answers, the loop that shrinks a refused step, preempts a victim or drops the request at
  fault and tries again ends: each round of it takes rows from the step, or leaves the step and
  takes a request from those that can still be preempted.  The only assumption on the
  collaborators is that they use the registry through its own operations.  The references of
  the scheduler are in order again when it comes back, by an exception too, and without a
  ticket nothing is in flight that was not before.
\<close>

theorem schedule_returns:
  assumes C: "keeps_registry C" and ok: "refs_ok (s, w)"
  shows "\<exists>x s' w'. schedule C now (s, w) = Some (x, (s', w')) \<and> refs_ok (s', w') \<and>
    (x = Inr None \<longrightarrow> inflight_requests s' = inflight_requests s \<and> inflight_ids_all s' = inflight_ids_all s)"
proof -
  have "\<exists>res. schedule C now (s, w) = Some res \<and> round_result (\<lambda>_. True) s w res \<and>
      (int (length (inflight_requests s)) \<ge> max_inflight (s_plan s) \<longrightarrow> res = (Inr None, (s, w)))"
    by (rule schedule_round [OF C ok, where I = "inflight_ids_all s"]) simp_all
  then obtain res where r: "schedule C now (s, w) = Some res" "round_result (\<lambda>_. True) s w res" by blast
  obtain x st where x: "res = (x, st)" by (rule prod.exhaust)
  obtain s' w' where st: "st = (s', w')" by (rule prod.exhaust)
  from r(2) have "refs_ok (s', w')" "x = Inr None \<longrightarrow> frame s s'" unfolding round_result_def x st by auto
  with r(1) x st show ?thesis unfolding frame_def by blast
qed

text \<open>An engine whose runtime refuses the first step it is given.\<close>

definition sample_setup :: "pyerror + ResolvedSchedulerPlan" where
  "sample_setup =
     config_resolve (sample_config\<lparr>max_num_scheduled_tokens := None, max_inflight := 2\<rparr>) 64 ''plan'' 1
       \<lparr>layer_range = (0, 1), num_micro_batches = 1, cp_chunked_prefill = True, cp_max_batched_tokens = 8\<rparr>
       \<lparr>tp_size = 1, tp_rank = 0, pp_size = 1, pp_rank = 0, dp_size = 1, dp_rank = 0, ep_size = 1, ep_rank = 0, cp_size = 1,
        cp_rank = 0, sp_enabled = False\<rparr>
       (bb_capabilities sample_budget) sample_memory \<lparr>workspaces = [], activation_bytes = 0, peak_bytes_estimate = 0\<rparr>"

definition sample_resolved :: ResolvedSchedulerPlan where
  "sample_resolved = projr sample_setup"

definition sample_scheduler :: Scheduler where
  "sample_scheduler = projr (Scheduler_init sample_resolved False True True None (Some 4) None)"

definition sample_engine :: "nat collaborators" where
  "sample_engine =
     \<lparr>seq_create = (\<lambda>rid (g, n). (Inr \<lparr>seq_index = n, seq_generation = 0\<rparr>, (g, n))), seq_free = (\<lambda>h w. (Inr (), w)),
      rt_prepare = (\<lambda>p (g, n). if n = 0 then (Inl (Step_Prepare_Error True None ''pages''), (g, 1)) else (Inr (), (g, n))),
      rt_adopt = (\<lambda>p (g, n). (Inr (int n), (g, n + 1))), rt_cancel = (\<lambda>k r w. (Inr (), w)), preempt = None,
      prepare_request = None, can_admit = None, prefix_hints = None, capacity_hint = None, propose = None,
      set_iter = (\<lambda>A. if ''r'' \<in> A then [''r''] else [])\<rparr>"

lemma world_next_same: "fst w' = fst w \<Longrightarrow> world_next w w'"
  by (simp add: world_next_def)

lemma sample_engine_ok: "keeps_registry sample_engine"
  unfolding keeps_registry_def by (auto simp: sample_engine_def intro!: world_next_same split: prod.split)

lemma sample_resolved_ok:
  "resolved_validate sample_resolved = Inr sample_resolved" "capabilities_validate (capabilities sample_resolved) = Inr ()"
  "Scheduler_init sample_resolved False True True None (Some 4) None = Inr sample_scheduler"
  by code_simp+

definition sample_start :: "nat sched_state" where
  "sample_start = (sample_scheduler, ((LifecycleManager_init 3, 1), 0))"

lemma sample_start_inv: "sched_inv sample_engine sample_start"
  unfolding sample_start_def by (rule sched_init_inv [OF sample_engine_ok sample_resolved_ok]) simp_all

definition sample_sched_ops :: "(nat sched_op \<times> int) list" where
  "sample_sched_ops = [(Op_Add sample_request False, 5), (Op_Flush, 6)]"

lemma sample_sched_legal: "legal_run (sched_exec sample_engine) sched_legal sample_sched_ops sample_start"
  by code_simp

definition sample_waiting :: "nat sched_state" where
  "sample_waiting = run_ops (sched_exec sample_engine) sample_sched_ops sample_start"

lemma sample_waiting_inv: "sched_inv sample_engine sample_waiting"
  unfolding sample_waiting_def by (rule scheduler.run_inv [OF sample_start_inv sample_sched_legal])

lemma sample_round: "map_option fst (schedule sample_engine 7 sample_waiting) = Some (Inr (Some 1))"
  by code_simp

theorem schedule_returns_witness:
  "keeps_registry sample_engine \<and> refs_ok sample_waiting \<and>
   (\<exists>s' w'. schedule sample_engine 7 sample_waiting = Some (Inr (Some 1), (s', w')) \<and> refs_ok (s', w'))"
proof -
  obtain s w where st: "sample_waiting = (s, w)" by (rule prod.exhaust)
  have ok: "refs_ok (s, w)" using sample_waiting_inv by (simp add: sched_inv_def st)
  obtain x s' w' where r: "schedule sample_engine 7 (s, w) = Some (x, (s', w'))" "refs_ok (s', w')"
    using schedule_returns [OF sample_engine_ok ok] by blast
  moreover have "x = Inr (Some 1)" using sample_round r(1) by (simp add: st)
  ultimately show ?thesis using ok sample_engine_ok st by simp
qed


text \<open>
  C6. A step that the scheduler hands out is a valid one and stays within the resolved plan.
  The last step recorded is the one the runtime adopted: it passes every check of
  \<open>BatchStepPlan.validate\<close>, it has at most \<open>max_num_seqs\<close> rows, its tokens and draft tokens,
  padded as the runner pads them, stay within the issue budget, and none of its requests
  already has a slice in flight.  This holds of the step that was built as well as of the one
  that is left after any number of refusals.  Its ticket was free and there was room for it.
\<close>

theorem schedule_step_within_plan:
  assumes C: "keeps_registry C" and ok: "refs_ok (s, w)"
    and p: "resolved_validate p0 = Inr (s_plan s)" "capabilities_validate (capabilities (s_plan s)) = Inr ()"
    and e: "schedule C now (s, w) = Some (Inr (Some t), (s', w'))"
  shows "\<exists>cur. last_step s' = Some cur \<and> plan_validate cur = Inr () \<and>
    int (length (slices cur)) \<le> max_num_seqs (s_plan s) \<and>
    total_rows cur \<le> padded_num_tokens cur \<and> padded_num_tokens cur \<le> effective_scheduled_token_budget (s_plan s) \<and>
    set (request_order cur) \<inter> inflight_ids_all s = {} \<and>
    map_of (inflight_requests s) t = None \<and> int (length (inflight_requests s)) < max_inflight (s_plan s) \<and>
    inflight_requests s' = AList.update t (set (request_order cur)) (inflight_requests s)"
proof -
  note L = resolved_limits [OF p(1)]
  obtain res where r: "schedule C now (s, w) = Some res" "round_result (fits (s_plan s) (- inflight_ids_all s)) s w res"
    "int (length (inflight_requests s)) \<ge> max_inflight (s_plan s) \<longrightarrow> res = (Inr None, (s, w))"
    using schedule_safe [OF C ok resolved_budget_ok [OF p]] by blast
  then have res: "res = (Inr (Some t), (s', w'))" using e by simp
  with r(3) have room: "int (length (inflight_requests s)) < max_inflight (s_plan s)" by auto
  from r(2) res obtain cur where f: "fits (s_plan s) (- inflight_ids_all s) cur" and b: "boards cur t s s'"
    unfolding round_result_def by auto
  have v: "plan_validate cur = Inr ()" and l: "total_rows cur \<le> row_limit (s_plan s)"
    and n: "int (length (slices cur)) \<le> max_sequences (budget_from_plan (s_plan s))"
    and sl: "physical_token_slots (capabilities (s_plan s)) (total_rows cur) = Inr (padded_num_tokens cur)"
    and ids: "set (request_order cur) \<inter> inflight_ids_all s = {}"
    using f by (auto simp: fits_def)
  have "row_limit (s_plan s) = effective_scheduled_token_budget (s_plan s) -
      effective_scheduled_token_budget (s_plan s) mod token_padding_multiple (capabilities (s_plan s))"
    using L by (simp add: row_limit_def budget_from_plan_def Let_def)
  note B = padded_bounds [OF v p(2) sl l [unfolded this]]
  have "int (length (slices cur)) \<le> max_num_seqs (s_plan s)" using n by (simp add: budget_from_plan_def)
  with v B ids room b show ?thesis unfolding boards_def by blast
qed

theorem schedule_step_within_plan_witness:
  "\<exists>cur s' w'. schedule sample_engine 7 sample_waiting = Some (Inr (Some 1), (s', w')) \<and> last_step s' = Some cur \<and>
     plan_validate cur = Inr () \<and> total_rows cur = 1 \<and> padded_num_tokens cur \<le> 8"
proof -
  obtain s w where st: "sample_waiting = (s, w)" by (rule prod.exhaust)
  have ok: "refs_ok (s, w)" using sample_waiting_inv by (simp add: sched_inv_def st)
  have "s_plan (fst sample_waiting) = sample_resolved" "effective_scheduled_token_budget sample_resolved = 8" by code_simp+
  then have p: "s_plan s = sample_resolved" "effective_scheduled_token_budget (s_plan s) = 8" by (simp_all add: st)
  have "map_option (\<lambda>res. map_option total_rows (last_step (fst (snd res)))) (schedule sample_engine 7 sample_waiting) = Some (Some 1)"
    by code_simp
  with sample_round obtain s' w' cur where r: "schedule sample_engine 7 (s, w) = Some (Inr (Some 1), (s', w'))"
    "last_step s' = Some cur" "total_rows cur = 1"
    by (auto simp: st)
  from schedule_step_within_plan [OF sample_engine_ok ok _ _ r(1)] r(2) p sample_resolved_ok(1,2)
  have "plan_validate cur = Inr () \<and> padded_num_tokens cur \<le> 8" by auto
  with r st show ?thesis by auto
qed

text \<open>
  C5. Whatever the engine calls, in any order and with any answers of the collaborators, the
  scheduler's books agree.  There are never more tickets in flight than the plan allows; a
  request is in flight under at most one ticket, with exactly one slice, and the set of
  all ids in flight is the union over the tickets; the decode ring has no gap and no
  duplicate, its index gives the position of every running request, and the round-robin
  cursor points into it; the ranking window is bounded; every request in a queue or in the
  ring is filed under its own id.  In each such state \<open>schedule()\<close> returns.
\<close>

theorem scheduler_books_agree:
  assumes C: "keeps_registry C" and p: "resolved_validate p0 = Inr p" "capabilities_validate (capabilities p) = Inr ()"
    and s: "Scheduler_init p stops first mixed burst chunk bypass = Inr s" and g: "0 \<le> retries" "1 \<le> ep"
    and run: "legal_run (sched_exec C) sched_legal calls (s, ((LifecycleManager_init retries, ep), y))"
  shows "case run_ops (sched_exec C) calls (s, ((LifecycleManager_init retries, ep), y)) of (s', w') \<Rightarrow>
    flights_ok s' \<and> queues_ok s' \<and> refs_ok (s', w') \<and> schedule C now (s', w') \<noteq> None"
proof -
  obtain s' w' where st: "run_ops (sched_exec C) calls (s, ((LifecycleManager_init retries, ep), y)) = (s', w')" by (rule prod.exhaust)
  have inv: "sched_inv C (s', w')" using scheduler.run_inv [OF sched_init_inv [OF C p s g] run] by (simp only: st)
  from schedule_keeps [OF this, of now] inv show ?thesis by (auto simp: st sched_inv_def refs_ok_def)
qed

definition sample_after_step :: "(nat sched_op \<times> int) list" where
  "sample_after_step = sample_sched_ops @ [(Op_Schedule, 7)]"

theorem scheduler_books_agree_witness:
  "case run_ops (sched_exec sample_engine) sample_after_step sample_start of (s, w) \<Rightarrow>
     flights_ok s \<and> inflight_requests s = [(1, {''r''})] \<and> max_inflight (s_plan s) = 2"
proof -
  have l: "legal_run (sched_exec sample_engine) sched_legal sample_after_step (sample_scheduler, ((LifecycleManager_init 3, 1), 0))"
    by code_simp
  have "case run_ops (sched_exec sample_engine) sample_after_step sample_start of (s, w) \<Rightarrow>
      inflight_requests s = [(1, {''r''})] \<and> max_inflight (s_plan s) = 2"
    by code_simp
  with scheduler_books_agree [OF sample_engine_ok sample_resolved_ok _ _ l, of 8] show ?thesis
    by (auto simp: sample_start_def split: prod.splits)
qed

section \<open>A request id that is used again\<close>

text \<open>The references queued under an id, in order.\<close>

definition refs_of :: "string \<Rightarrow> QueueEntry list \<Rightarrow> nat list" where
  "refs_of rid es = map entry_ref (filter (\<lambda>e. entry_rid e = rid) es)"

lemma refs_of_simps [simp]:
  "refs_of rid [] = []" "refs_of rid (e # es) = (if entry_rid e = rid then [entry_ref e] else []) @ refs_of rid es"
  "refs_of rid (es @ fs) = refs_of rid es @ refs_of rid fs"
  by (simp_all add: refs_of_def)

lemma refs_of_refresh [simp]: "refs_of rid (refresh_window_hints C s w es) = refs_of rid es"
proof -
  have "entry_rid (refresh_hint C w e) = entry_rid e" "entry_ref (refresh_hint C w e) = entry_ref e" for e
    by (simp_all add: refresh_hint_def)
  then have "refs_of rid (map (refresh_hint C w) es) = refs_of rid es" by (induction es) simp_all
  then show ?thesis by (simp add: refresh_window_hints_def)
qed

lemma refs_of_delete_first: "refs_of rid (delete_first rid es) = tl (refs_of rid es)"
  by (induction es) simp_all

lemma refs_of_filter: "rid \<in> ids \<Longrightarrow> refs_of rid (filter (\<lambda>e. entry_rid e \<in> ids) es) = refs_of rid es"
  by (induction es) auto

lemma shorter_delete_first: "refs_of rid es \<noteq> [] \<Longrightarrow> length (delete_first rid es) < length es"
  by (induction es) auto

text \<open>With room for all of them, the drain admits every staged entry whose id is waiting.\<close>

lemma drain_loop_all: "length es \<le> n \<Longrightarrow> drain_loop ids n es = (filter (\<lambda>e. entry_rid e \<in> ids) es, [])"
  by (induction ids n es rule: drain_loop.induct) auto

lemma drained_refs:
  assumes "rid \<in> waiting_ids s" "staging s \<noteq> []" "length (hot s) + length (staging s) \<le> HOT_WINDOW_SIZE"
  shows "refs_of rid (hot (drain_window C w s)) = refs_of rid (hot s) @ refs_of rid (staging s)"
    "waiting_ids (drain_window C w s) = waiting_ids s" "length (hot (drain_window C w s)) \<le> length (hot s) + length (staging s)"
proof -
  let ?es = "filter (\<lambda>e. entry_rid e \<in> waiting_ids s) (staging s)"
  have "length (staging s) \<le> HOT_WINDOW_SIZE - length (hot s)" "\<not> HOT_WINDOW_SIZE \<le> length (hot s)"
    using assms(2,3) by (auto simp: Suc_le_eq neq_Nil_conv)
  then have d: "drain_window C w s = s\<lparr>hot := hot s @ refresh_window_hints C s w ?es, staging := []\<rparr>"
    using assms(2) by (simp add: drain_window_def drain_loop_all)
  show "refs_of rid (hot (drain_window C w s)) = refs_of rid (hot s) @ refs_of rid (staging s)"
    "waiting_ids (drain_window C w s) = waiting_ids s"
    using assms(1) by (simp_all add: d refs_of_filter)
  show "length (hot (drain_window C w s)) \<le> length (hot s) + length (staging s)"
    by (simp add: d refresh_window_hints_set(2))
qed

text \<open>A continuation is queued at the front of a window that has room.\<close>

lemma requeued_refs:
  assumes room: "length (hot s) < HOT_WINDOW_SIZE" and rid: "rid \<notin> waiting_ids s" "map_of (prefilling s) rid \<noteq> None"
    and lc: "rq_id (request (view w r)) = rid" "\<not> is_terminal (machine (view w r))" "\<not> tok_cancelled (token (view w r))"
    and run: "requeue C now r (s, w) = (Inr (), (s', w'))"
  shows "refs_of rid (hot s') = r # refs_of rid (hot s)"
proof -
  obtain x s1 where n: "new_queue_entry now rid r (map_of (sequences s) rid) s = (x, s1)" by (rule prod.exhaust)
  have keep: "hot s1 = hot s" "prefilling s1 = prefilling s"
    and e: "x = Inr e \<Longrightarrow> entry_rid e = rid \<and> entry_ref e = r" for e
    using n by (auto simp: new_queue_entry_def Let_def split: option.splits sum.splits prod.splits)
  show ?thesis
  proof (cases x)
    case (Inl z)
    with run lc rid n show ?thesis by (simp add: requeue_def Let_def)
  next
    case (Inr e)
    with run lc rid n keep room e have "s' = requeue_front C w e s1" by (auto simp: requeue_def Let_def)
    with Inr e keep room show ?thesis by (simp add: requeue_front_def Let_def)
  qed
qed

text \<open>A call sequence in which an id is aborted, forgotten and submitted again.\<close>

primrec outcomes :: "('op \<Rightarrow> ('s, unit) py) \<Rightarrow> 'op list \<Rightarrow> 's \<Rightarrow> (pyerror + unit) list" where
  "outcomes exec [] s = []"
| "outcomes exec (x # xs) s = (case exec x s of (r, s1) \<Rightarrow> r # outcomes exec xs s1)"

definition first_chunk :: ScheduledSlice where
  "first_chunk =
     \<lparr>sl_request_id = ''r'', sl_epoch = 3, expected_state_version = 0, query_start = 0, query_count = 2, phase = PhasePrefill,
      sample_last_query = False\<rparr>"

definition long_request :: Request where
  "long_request = sample_request\<lparr>prompt_token_ids := [1, 2, 3, 4, 5, 6]\<rparr>"

definition reused_id_calls :: "(nat sched_op \<times> int) list" where
  "reused_id_calls =
     [(Op_Add long_request False, 5), (Op_Flush, 6), (Op_Abort ''r'' ''client left'' None, 7), (Op_Flush, 8),
      (Op_Registry (Mgr_Forget ''r''), 9), (Op_Add long_request False, 10), (Op_Flush, 11), (Op_Schedule, 12),
      (Op_Registry (Mgr_Object 1 (Lc_Begin 0 first_chunk)), 13), (Op_Registry (Mgr_Object 1 (Lc_Commit 0 first_chunk 1)), 14),
      (Op_Output \<lparr>cr_ticket_id = 1, cr_status = SUCCEEDED, ignored_requests = []\<rparr>, 15)]"

text \<open>
  C40. A request that is removed while it is still staged leaves an entry that a later
  request with the same id inherits.  Take any scheduler in which a waiting id has one
  entry, in the staging queue, and the ranking window has room for what is staged.  Remove
  the id (an abort does), queue a new request under it and let the window drain: both
  entries are in the window then.  Removing the id once more (the first chunk is launched)
  deletes the stale entry, so the new request is still in the window although its id is no
  longer waiting; and when its next chunk is queued, whatever else has changed, the window
  holds two entries of one and the same live request.  No plan with slices of both
  passes \<open>BatchStepPlan.validate\<close>.
\<close>

theorem reused_id_doubles_entry:
  assumes staged: "rid \<in> waiting_ids s" "refs_of rid (hot s) = []" "refs_of rid (staging s) = [old]"
    and room: "length (hot s) + length (staging s) < HOT_WINDOW_SIZE" and e: "entry_rid e = rid"
    and s3: "s3 = drain_window C w (waiting_add e (waiting_remove rid s))" and s4: "s4 = waiting_remove rid s3"
  shows "refs_of rid (hot s3) = [old, entry_ref e] \<and> refs_of rid (hot s4) = [entry_ref e] \<and> rid \<notin> waiting_ids s4 \<and>
    (\<forall>s5 s6 w' w'' now.
       hot s5 = hot s4 \<and> waiting_ids s5 = waiting_ids s4 \<and> map_of (prefilling s5) rid \<noteq> None \<and>
       rq_id (request (view w' (entry_ref e))) = rid \<and> \<not> is_terminal (machine (view w' (entry_ref e))) \<and>
       \<not> tok_cancelled (token (view w' (entry_ref e))) \<and>
       requeue C now (entry_ref e) (s5, w') = (Inr (), (s6, w'')) \<longrightarrow>
       refs_of rid (hot s6) = [entry_ref e, entry_ref e]) \<and>
    (\<forall>p i j. i < j \<and> j < length (slices p) \<and> sl_request_id (slices p ! i) = sl_request_id (slices p ! j) \<longrightarrow>
       plan_validate p \<noteq> Inr ())"
proof -
  let ?s2 = "waiting_add e (waiting_remove rid s)"
  have S2: "rid \<in> waiting_ids ?s2" "staging ?s2 = staging s @ [e]" "hot ?s2 = delete_first rid (hot s)"
    using staged(1) e by (simp_all add: waiting_add_def waiting_remove_def)
  have fits: "length (hot ?s2) + length (staging ?s2) \<le> HOT_WINDOW_SIZE"
    using room length_delete_first [of rid "hot s"] by (simp add: S2)
  note D = drained_refs [of rid ?s2, OF S2(1) _ fits, where C = C and w = w, folded s3]
  have h3: "refs_of rid (hot s3) = [old, entry_ref e]" "rid \<in> waiting_ids s3"
    using D S2 staged e by (simp_all add: refs_of_delete_first)
  have h4: "refs_of rid (hot s4) = [entry_ref e]" "rid \<notin> waiting_ids s4" "hot s4 = delete_first rid (hot s3)"
    using h3 by (simp_all add: s4 waiting_remove_def refs_of_delete_first)
  have "length (hot s4) < length (hot s3)"
    unfolding h4(3) using h3(1) by (intro shorter_delete_first) simp
  also have "\<dots> \<le> HOT_WINDOW_SIZE" using D(3) fits S2 by simp
  finally have n4: "length (hot s4) < HOT_WINDOW_SIZE" .
  have "refs_of rid (hot s6) = [entry_ref e, entry_ref e]"
    if "hot s5 = hot s4 \<and> waiting_ids s5 = waiting_ids s4 \<and> map_of (prefilling s5) rid \<noteq> None \<and>
       rq_id (request (view w' (entry_ref e))) = rid \<and> \<not> is_terminal (machine (view w' (entry_ref e))) \<and>
       \<not> tok_cancelled (token (view w' (entry_ref e))) \<and>
       requeue C now (entry_ref e) (s5, w') = (Inr (), (s6, w''))" for s5 s6 w' w'' now
    using that requeued_refs [of s5 rid w' "entry_ref e" C now s6 w''] n4 h4(1,2) by simp
  moreover have "plan_validate p \<noteq> Inr ()"
    if "i < j \<and> j < length (slices p) \<and> sl_request_id (slices p ! i) = sl_request_id (slices p ! j)" for p i j
    using that valid_plan(7) [of p] by (auto simp: request_order_def distinct_conv_nth)
  ultimately show ?thesis using h3(1) h4(1,2) by blast
qed

text \<open>
  The sequence of calls above does this end to end: every call is legal and succeeds, the
  window ends up with two entries of the second request, and the next \<open>schedule()\<close> raises.
\<close>

definition reused_state :: "nat \<Rightarrow> Scheduler" where
  "reused_state k = fst (run_ops (sched_exec sample_engine) (take k reused_id_calls) sample_start)"

theorem reused_id_doubles_entry_witness:
  "refs_of ''r'' (staging (reused_state 2)) = [0] \<and>
   (let e = last (staging (reused_state 7));
        s3 = drain_window sample_engine (snd sample_start) (waiting_add e (waiting_remove ''r'' (reused_state 2)))
    in staging (reused_state 7) = staging (waiting_add e (waiting_remove ''r'' (reused_state 2))) \<and>
       refs_of ''r'' (hot s3) = [0, 1] \<and> refs_of ''r'' (hot (waiting_remove ''r'' s3)) = [1]) \<and>
   legal_run (sched_exec sample_engine) sched_legal reused_id_calls sample_start \<and>
   list_all (\<lambda>r. r = Inr ()) (outcomes (sched_exec sample_engine) reused_id_calls sample_start) \<and>
   refs_of ''r'' (hot (fst (run_ops (sched_exec sample_engine) reused_id_calls sample_start))) = [1, 1] \<and>
   map_option fst (schedule sample_engine 16 (run_ops (sched_exec sample_engine) reused_id_calls sample_start)) = Some (Inl ValueError)"
proof (intro conjI)
  let ?e = "last (staging (reused_state 7))"
  have staged: "''r'' \<in> waiting_ids (reused_state 2)" "refs_of ''r'' (hot (reused_state 2)) = []"
    "refs_of ''r'' (staging (reused_state 2)) = [0]" by code_simp+
  have room: "length (hot (reused_state 2)) + length (staging (reused_state 2)) < HOT_WINDOW_SIZE" by code_simp
  have e: "entry_rid ?e = ''r''" "entry_ref ?e = 1" by code_simp+
  have same: "staging (reused_state 7) = staging (waiting_add ?e (waiting_remove ''r'' (reused_state 2)))" by code_simp
  show "refs_of ''r'' (staging (reused_state 2)) = [0]" by (rule staged(3))
  show "let e = last (staging (reused_state 7));
        s3 = drain_window sample_engine (snd sample_start) (waiting_add e (waiting_remove ''r'' (reused_state 2)))
    in staging (reused_state 7) = staging (waiting_add e (waiting_remove ''r'' (reused_state 2))) \<and>
       refs_of ''r'' (hot s3) = [0, 1] \<and> refs_of ''r'' (hot (waiting_remove ''r'' s3)) = [1]"
    using reused_id_doubles_entry [OF staged room e(1) refl refl, of sample_engine "snd sample_start"] same
    unfolding Let_def e(2) by blast
  show "legal_run (sched_exec sample_engine) sched_legal reused_id_calls sample_start" by code_simp
  show "list_all (\<lambda>r. r = Inr ()) (outcomes (sched_exec sample_engine) reused_id_calls sample_start)" by code_simp
  show "refs_of ''r'' (hot (fst (run_ops (sched_exec sample_engine) reused_id_calls sample_start))) = [1, 1]" by code_simp
  show "map_option fst (schedule sample_engine 16 (run_ops (sched_exec sample_engine) reused_id_calls sample_start)) = Some (Inl ValueError)"
    by code_simp
qed

end
