(* ===== verification/Spec2Isabelle.thy ===== *)
theory Spec2Isabelle
  imports Page_Properties Sequence_Arena Ledger_Properties Request_Properties Plan_Properties Lifecycle_Manager Sched_Properties
begin

text \<open>
  Verification of the memory, request and scheduling core of Ayaka, an inference engine for
  language models.  All paths are relative to \<open>src/python/ayaka\<close>.

  \<^bold>\<open>The program.\<close>  A request enters through the scheduler, which registers it
  with the lifecycle manager, gives it a sequence handle and queues it.  Each call of
  \<open>schedule()\<close> picks decode and prefill rows within the token budget of the resolved plan,
  freezes them in a batch step plan, offers the step to the runtime and, when the runtime
  refuses for lack of memory, shrinks the step or preempts a request and offers it again.  An
  adopted step is a ticket; when it completes, the slices are committed to the lifecycles of
  their requests and the scheduler settles its books.  Below the scheduler, KV pages come from
  a fixed pool with generations and reference counts, sequence slots from an arena, and
  every byte is claimed in a ledger with one capacity per memory tier.

  \<^bold>\<open>The model.\<close>  A method that mutates its object and may raise is a function of
  type \<open>('s, 'a) py\<close>: from a state to an outcome (an exception or a value) and the state it
  leaves behind, also when it raises.  Objects are records, enumerations are datatypes,
  dictionaries are association lists in insertion order, and Python integers are \<open>int\<close>.  All
  definitions that model code are executable, and the examples evaluate them.

  \<^item> \<open>Py_Prelude\<close>: outcomes and their combinators, iteration, sequences of calls, and the two
    interfaces \<open>guarded_system\<close> (calls that keep an invariant) and \<open>generation_table\<close> (recycled
    slots told apart by generations), each interpreted on the components below.
  \<^item> \<open>Byte_Regions\<close>: \<open>utils/math_utils.py\<close>, \<open>memory/region.py\<close>, \<open>memory/arena.py\<close> and the memory
    vocabulary of \<open>types.py\<close>.  What an arena hands out between two resets and the live objects of
    a slab are disjoint.
  \<^item> \<open>Page_Allocator\<close>, with \<open>Page_Invariant\<close>, \<open>Page_Lifecycle\<close> and \<open>Page_Properties\<close>:
    \<open>memory/allocator.py\<close>, \<open>memory/metadata.py\<close>, \<open>memory/state.py\<close>, \<open>handles.py\<close>.  The debug check
    holds in every reachable state, pages move only along the edges of the documented
    lifecycle, nothing is reused before its epoch has completed, stale handles stay stale,
    and it is settled exactly what \<open>allocate\<close> returns and which raising calls change something.
    Callers are assumed to name no handle twice in a batch and, where it is said, to take
    pages only while they have generations left; the code checks neither before it mutates.
  \<^item> \<open>Sequence_Arena\<close>: \<open>memory/sequence.py\<close>.  A valid page table covers each position by exactly
    one entry; the arena's check always passes; stale handles stay stale.
  \<^item> \<open>Memory_Ledger\<close>, with \<open>Ledger_Invariant\<close>, \<open>Ledger_Verbs\<close> and \<open>Ledger_Properties\<close>:
    \<open>memory/ledger.py\<close>.  No tier exceeds its capacity, a materialized ticket commits, a rollback
    undoes its admission, a verb that raises has no effect, the breakdowns add up.
  \<^item> \<open>Request_Machine\<close> and \<open>Request_Properties\<close>: \<open>request/states.py\<close>, \<open>request/machine.py\<close>,
    \<open>utils/timing.py\<close>.  Shape of the transition graph, counters, terminal states.  The counters
    need one thing of the caller: that \<open>on_tokenized\<close> never reports fewer tokens than have been
    computed.
  \<^item> \<open>Step_Plan\<close> and \<open>Plan_Properties\<close>: \<open>sched/plan.py\<close>, \<open>speculative/plan.py\<close>, parts of \<open>plan.py\<close>.
    In a plan that validates, tokens, positions, sampling rows and draft rows address each other.
  \<^item> \<open>Request_Lifecycle\<close>, with \<open>Lifecycle_Invariant\<close>, \<open>Lifecycle_Steps\<close>, \<open>Lifecycle_Properties\<close> and
    \<open>Lifecycle_Manager\<close>: \<open>request/lifecycle.py\<close>, \<open>request/schema.py\<close>, \<open>request/cancel.py\<close>,
    \<open>sched/outcome.py\<close>.  Tokens and counters agree, a slice commits once, stale completions and
    stale reports have no effect, speculative settlement equals single decode steps.
  \<^item> \<open>Sched_Config\<close>, \<open>Sched_Budget\<close>, \<open>Sched_Policy\<close>: \<open>configs/scheduler.py\<close>, \<open>sched/budget.py\<close>,
    \<open>sched/policy.py\<close>, \<open>sched/preemption.py\<close>, \<open>sched/admission.py\<close>.
  \<^item> \<open>Sched_Core\<close> and \<open>Sched_Continuous\<close>: \<open>sched/core.py\<close> and \<open>sched/continuous.py\<close>, method by method,
    with \<open>executor/ticket.py\<close> and \<open>executor/completion.py\<close> as far as the scheduler reads them.
  \<^item> \<open>Sched_Ring\<close>, \<open>Sched_References\<close>, \<open>Sched_Termination\<close>, \<open>Sched_Limits\<close>, \<open>Sched_Steps\<close>,
    \<open>Sched_Operations\<close>, \<open>Sched_Properties\<close>: the decode ring, the references the queues hold, the
    end of the preparation loop, the limits of a step, a round as a whole, the other calls,
    and the properties of the scheduler as one system.

  \<^bold>\<open>Composition.\<close>  Lifecycles live in one store and the registry, the queues and
  the ring hold references into it, so that an object that left the registry is still
  seen by whoever refers to it.  The state of the scheduler is its own record, the registry
  and whatever the collaborators keep.  The sequence allocator, the runtime, the preemptor, the
  advisors, the hint providers, the proposer and the iteration order of a set are functions of
  the record \<open>collaborators\<close> (the protocols of \<open>sched/interfaces.py\<close>) and arguments of every
  definition that uses them.  Of them the theorems assume only \<open>keeps_registry\<close>: they change the
  registry and its lifecycles as the operations of those do.  The admission advisor and the
  hint providers are functions that neither raise nor change anything; the other collaborators
  may do both.  The clock is an argument, read once per call.

  \<^bold>\<open>Loops.\<close>  Loops over data are structural recursion.  The loop of
  \<open>_prepare_and_adopt\<close> has no bound in the code; it is a \<open>partial_function\<close> whose value is None
  when it does not return, and that it returns is proved, for all collaborators, by the pair
  of the size of the step and the number of requests that can still be preempted.  There is no
  fuel in the development.

  \<^bold>\<open>What falls short.\<close>  Some of the properties show where the code does not do
  what it documents or means: in any reachable state allocation loses its batch when a page of
  it has used up its generations, and a rollback that names a page twice frees it and then
  raises (\<open>Page_Properties\<close>); a request that is tokenized again in a retry can end up with more
  computed than known tokens (\<open>Request_Properties\<close>); accepted settings can leave a budget that
  never admits a token (\<open>Sched_Budget\<close>); an id that is removed while staged and queued again
  gets two entries in the ranking window, with which a later round raises
  (\<open>Sched_Properties\<close>).

  \<^bold>\<open>Not modelled.\<close>  Type tests, which the types of the model discharge; locks and
  threads, since the engine serialises the calls; metrics, logging and floating-point
  statistics.  In \<open>sched/core.py\<close> the sampling coordinator, and with it sampled requests and prompt
  log-probabilities: the model is that of a scheduler built without one, which refuses such
  requests.  It does admit a greedy request with \<open>n > 1\<close>, as a family of children; the model
  covers requests with \<open>n = 1\<close> and leaves out the families, their registry of parents and the
  fan-out of an abort to the children.  The release of the proposer's state when a request is
  dropped.  \<open>RequestStateMachine.transition\<close> as a call of its own: it is the body of the methods
  that are modelled.  The eager, role and pipeline schedulers.  The paged KV manager, the
  prefix tree, transfers and tiering, which combine the components above with tensors and
  asynchronous copies.  Kernels, layers, models, samplers, runners, workers, devices and
  collectives, which are tensor programs; tokenizers, model loading, serving and the command
  line, which are input and output.
\<close>

end
